(* ===== verification/Prelude.thy ===== *)
theory Prelude
  imports Main "HOL-Library.AList" "HOL-Library.Multiset"
begin

text \<open>
  What every component shares: the result type of a Go function that returns a value and an
  error, 64-bit integers, Go maps with their unspecified iteration order, and the lemmas about
  them. A Go error is modelled by its message (the string \<open>err.Error()\<close> returns), which is all
  the program inspects.
\<close>

section \<open>Results\<close>

type_synonym 'a res = "string + 'a"

named_theorems store_defs \<open>definitions of the store operations\<close>
named_theorems handler_defs \<open>definitions of the HTTP handlers and middleware\<close>

text \<open>A call that writes returns a result and a state.\<close>

lemma call_cases:
  obtains (err) m s where "p = (Inl m, s)" | (ok) y s where "p = (Inr y, s)"
  by (metis prod.exhaust sum.exhaust)

lemma call_okE: "\<exists>y. fst p = Inr y \<Longrightarrow> (\<And>y s. p = (Inr y, s) \<Longrightarrow> thesis) \<Longrightarrow> thesis"
  by (metis prod.collapse)

section \<open>Signed 64-bit integers\<close>

text \<open>
  \<open>int64\<close> values are mathematical integers; an operation that can overflow in the code is
  followed by \<open>wrap64\<close>, the two's complement reading of its low 64 bits.
\<close>

definition wrap64 :: "int \<Rightarrow> int" where
  "wrap64 x = (x + 2 ^ 63) mod 2 ^ 64 - 2 ^ 63"

definition in_int64 :: "int \<Rightarrow> bool" where
  "in_int64 x \<longleftrightarrow> - (2 ^ 63) \<le> x \<and> x < 2 ^ 63"

lemma wrap64_in_int64 [simp]: "in_int64 (wrap64 x)"
  by (simp add: wrap64_def in_int64_def)

lemma wrap64_id: "in_int64 x \<Longrightarrow> wrap64 x = x"
  by (simp add: wrap64_def in_int64_def)

lemma wrap64_succ: "1 \<le> x \<Longrightarrow> x < 2 ^ 63 - 1 \<Longrightarrow> wrap64 (x + 1) = x + 1"
  by (rule wrap64_id) (simp add: in_int64_def)

section \<open>Maps with an unspecified iteration order\<close>

text \<open>
  A Go map is an association list with distinct keys. The language leaves the order in which
  \<open>range\<close> visits a map unspecified, and it differs from one loop to the next: \<open>shuffle ks xs\<close>
  is the permutation of \<open>xs\<close> that the choices \<open>ks\<close> select, so that a loop over a map takes
  \<open>ks\<close> as an input. Every value of \<open>ks\<close> gives a permutation (\<open>mset_shuffle\<close>) and every
  permutation is reached (\<open>shuffle_onto\<close>).
\<close>

type_synonym 'a gomap = "(int \<times> 'a) list"

fun shuffle :: "nat list \<Rightarrow> 'a list \<Rightarrow> 'a list" where
  "shuffle _ [] = []"
| "shuffle [] xs = xs"
| "shuffle (k # ks) (x # xs) =
     (let i = k mod Suc (length xs)
      in (x # xs) ! i # shuffle ks (take i (x # xs) @ drop (Suc i) (x # xs)))"

lemma mset_take_nth_drop:
  "i < length xs \<Longrightarrow> mset (xs ! i # take i xs @ drop (Suc i) xs) = mset xs"
proof -
  assume "i < length xs"
  then have "mset xs = mset (take i xs @ xs ! i # drop (Suc i) xs)"
    by (simp add: id_take_nth_drop [symmetric])
  then show ?thesis by simp
qed

lemma mset_shuffle [simp]: "mset (shuffle ks xs) = mset xs"
proof (induction ks xs rule: shuffle.induct)
  case (3 k ks x xs)
  define i where "i = k mod Suc (length xs)"
  have i: "i < length (x # xs)" by (simp add: i_def)
  from "3.IH" [OF i_def] have
    "mset (shuffle ks (take i (x # xs) @ drop (Suc i) (x # xs)))
      = mset (take i (x # xs) @ drop (Suc i) (x # xs))" .
  with mset_take_nth_drop [OF i] show ?case
    by (simp only: shuffle.simps Let_def i_def [symmetric] mset.simps)
qed simp_all

lemma set_shuffle [simp]: "set (shuffle ks xs) = set xs"
  by (rule mset_eq_setD) simp

lemma length_shuffle [simp]: "length (shuffle ks xs) = length xs"
  by (rule mset_eq_length) simp

lemma distinct_shuffle [simp]: "distinct (shuffle ks xs) = distinct xs"
  by (rule mset_eq_imp_distinct_iff) simp

lemma shuffle_onto: "mset ys = mset xs \<Longrightarrow> \<exists>ks. shuffle ks xs = ys"
proof (induction ys arbitrary: xs)
  case Nil
  then show ?case by simp
next
  case (Cons y ys)
  then have "y \<in> set xs" by (metis list.set_intros(1) mset_eq_setD)
  then obtain i where i: "i < length xs" "xs ! i = y" by (auto simp: in_set_conv_nth)
  let ?rest = "take i xs @ drop (Suc i) xs"
  have "add_mset y (mset ?rest) = mset xs"
    using mset_take_nth_drop [OF i(1)] i(2) by simp
  moreover have "add_mset y (mset ys) = mset xs" using Cons.prems by simp
  ultimately have "mset ys = mset ?rest" by (metis add_mset_add_mset_same_iff)
  from Cons.IH [OF this] obtain ks where ks: "shuffle ks ?rest = ys" by blast
  from i(1) obtain z zs where z: "xs = z # zs" by (cases xs) auto
  have "shuffle (i # ks) xs = y # ys"
    using i ks by (simp add: z Let_def)
  then show ?case by blast
qed

lemma shuffle_map: "shuffle ks (map f xs) = map f (shuffle ks xs)"
proof (induction ks xs rule: shuffle.induct)
  case (3 k ks x xs)
  define i where "i = k mod Suc (length xs)"
  have i: "i < length (x # xs)" by (simp add: i_def)
  let ?rest = "take i (x # xs) @ drop (Suc i) (x # xs)"
  have "shuffle ks (map f ?rest) = map f (shuffle ks ?rest)" by (rule "3.IH" [OF i_def])
  moreover have "map f ?rest = take i (f x # map f xs) @ drop (Suc i) (f x # map f xs)" by (simp add: take_map drop_map flip: list.map(2))
  moreover have "(f x # map f xs) ! i = f ((x # xs) ! i)" using nth_map [OF i, of f] by simp
  ultimately show ?case by (simp only: shuffle.simps Let_def list.map(2) length_map i_def [symmetric])
qed simp_all

lemma insort_key_map: "insort_key k (f x) (map f xs) = map f (insort_key (\<lambda>x. k (f x)) x xs)"
  by (induction xs) simp_all

lemma sort_key_map: "sort_key k (map f xs) = map f (sort_key (\<lambda>x. k (f x)) xs)"
  by (induction xs) (simp_all add: insort_key_map sort_key_def comp_def)

subsection \<open>Lookup, update and deletion\<close>

lemma map_of_update [simp]: "map_of (AList.update k v m) = (map_of m)(k \<mapsto> v)"
  by (simp add: update_conv' fun_eq_iff)

lemma map_of_delete [simp]: "map_of (AList.delete k m) = (map_of m)(k := None)"
  by (simp add: delete_conv' fun_eq_iff)

lemma distinct_filter_fst [simp]:
  "distinct (map fst m) \<Longrightarrow> distinct (map fst (filter P m))"
  by (induction m) auto

lemma map_of_filter_Some:
  "distinct (map fst m) \<Longrightarrow>
    (map_of (filter P m) k = Some v) = (map_of m k = Some v \<and> P (k, v))"
  by (induction m) (auto simp: map_of_eq_None_iff rev_image_eqI split: if_splits)

text \<open>The loop \<open>for k, v := range m { if P k v { delete(m, k) } }\<close> removes exactly the entries
  that satisfy \<open>P\<close>, whatever the iteration order.\<close>

definition delete_where :: "nat list \<Rightarrow> ('a \<Rightarrow> bool) \<Rightarrow> 'a gomap \<Rightarrow> 'a gomap" where
  "delete_where ks P m = fold (\<lambda>(k, v) acc. if P v then AList.delete k acc else acc) (shuffle ks m) m"

lemma fold_delete_filter:
  "fold (\<lambda>(k, v) acc. if P v then AList.delete k acc else acc) xs m
    = filter (\<lambda>(k, v). k \<notin> fst ` {p \<in> set xs. P (snd p)}) m"
proof (induction xs arbitrary: m)
  case Nil
  then show ?case by simp
next
  case (Cons x xs)
  obtain k v where x: "x = (k, v)" by (cases x)
  show ?case
  proof (cases "P v")
    case True
    then have "fold (\<lambda>(k, v) acc. if P v then AList.delete k acc else acc) (x # xs) m
      = fold (\<lambda>(k, v) acc. if P v then AList.delete k acc else acc) xs (AList.delete k m)"
      by (simp add: x)
    also have "\<dots> = filter (\<lambda>(k', v). k' \<notin> fst ` {p \<in> set xs. P (snd p)})
          (filter (\<lambda>(k', v). k \<noteq> k') m)"
      by (subst Cons.IH) (simp only: AList.delete_eq)
    also have "\<dots> = filter (\<lambda>(k', v). k' \<notin> fst ` {p \<in> set (x # xs). P (snd p)}) m"
      unfolding filter_filter using True by (intro filter_cong) (auto simp: x image_iff)
    finally show ?thesis .
  next
    case False
    then have "{p \<in> set (x # xs). P (snd p)} = {p \<in> set xs. P (snd p)}"
      by (auto simp: x)
    with False show ?thesis by (simp only: x fold.simps comp_apply case_prod_conv if_False Cons.IH)
  qed
qed

lemma delete_where_filter:
  assumes "distinct (map fst m)"
  shows "delete_where ks P m = filter (\<lambda>(k, v). \<not> P v) m"
proof -
  have "k \<notin> fst ` {p \<in> set m. P (snd p)} \<longleftrightarrow> \<not> P v" if "(k, v) \<in> set m" for k v
    using that assms by (auto simp: image_iff dest: eq_key_imp_eq_value)
  then show ?thesis
    unfolding delete_where_def fold_delete_filter by (auto intro!: filter_cong)
qed

subsection \<open>Searching a map by its values\<close>

lemma find_shuffle_None:
  "(find P (shuffle ks xs) = None) = (\<forall>x\<in>set xs. \<not> P x)"
  by (auto simp: find_None_iff)

lemma find_shuffle_SomeD: "find P (shuffle ks xs) = Some x \<Longrightarrow> x \<in> set xs \<and> P x"
  by (auto simp: find_Some_iff) (metis nth_mem set_shuffle length_shuffle)

lemma find_SomeD: "find P xs = Some x \<Longrightarrow> x \<in> set xs \<and> P x"
  by (auto simp: find_Some_iff)

lemma find_the:
  assumes "x \<in> set xs" "P x" "\<And>y. y \<in> set xs \<Longrightarrow> P y \<Longrightarrow> y = x"
  shows "find P xs = Some x"
proof (cases "find P xs")
  case None
  with assms(1,2) show ?thesis by (auto simp: find_None_iff)
next
  case (Some y)
  then have "y \<in> set xs" "P y" by (auto dest: find_SomeD)
  with assms(3) Some show ?thesis by simp
qed

lemma ran_map_of: "distinct (map fst m) \<Longrightarrow> ran (map_of m) = snd ` set m"
  by (rule ran_distinct)

end
