(* ===== verification/Go_Time.thy ===== *)
theory Go_Time
  imports Go_Strings "HOL-Library.List_Lexorder" "HOL-Library.Char_ord"
begin

text \<open>
  Instants, durations and the RFC 3339 text form of Go's \<open>time\<close> package, as far as the program
  uses them: \<open>Format(time.RFC3339)\<close>, \<open>Parse(time.RFC3339, _)\<close>, \<open>Add\<close>, \<open>After\<close> and
  \<open>Duration.String\<close>. All instants of the program are in UTC; an instant is its number of
  nanoseconds since 1970-01-01T00:00:00Z, a duration its \<open>int64\<close> number of nanoseconds. The text
  form drops the fraction of a second; within the years 0 to 9999 it parses back to the start of
  the second (\<open>Parse_Format\<close>) and the byte order of texts is the order of instants
  (\<open>Format_less_iff\<close>), which the SQL comparisons on timestamps rely on.
\<close>

type_synonym instant = int
type_synonym duration = int

definition Second :: duration where "Second = 1000000000"
definition Minute :: duration where "Minute = 60 * Second"
definition Hour :: duration where "Hour = 60 * Minute"

lemmas duration_units = Second_def Minute_def Hour_def

section \<open>The calendar\<close>

definition leap :: "int \<Rightarrow> bool" where
  "leap y \<longleftrightarrow> y mod 4 = 0 \<and> (y mod 100 \<noteq> 0 \<or> y mod 400 = 0)"

text \<open>Days from the start of year 0 to the start of year \<open>y\<close>.\<close>

definition days_before_year :: "int \<Rightarrow> int" where
  "days_before_year y = 365 * y + (y + 3) div 4 - (y + 99) div 100 + (y + 399) div 400"

definition epoch_day :: int where "epoch_day = days_before_year 1970"

definition year_of_day :: "int \<Rightarrow> int" where
  "year_of_day d =
     (let y = (400 * d) div 146097
      in if d < days_before_year y then y - 1
         else if days_before_year (y + 1) \<le> d then y + 1
         else y)"

definition month_lens :: "int \<Rightarrow> int list" where
  "month_lens y = [31, if leap y then 29 else 28, 31, 30, 31, 30, 31, 31, 30, 31, 30, 31]"

fun split_month :: "int \<Rightarrow> int list \<Rightarrow> int \<Rightarrow> int \<times> int" where
  "split_month m [] r = (m, r)"
| "split_month m (l # ls) r = (if r < l then (m, r) else split_month (m + 1) ls (r - l))"

lemma ceil_div_succ:
  fixes y k j :: int
  assumes "0 < k" "j + 1 = k"
  shows "(y + j + 1) div k = (y + j) div k + (if y mod k = 0 then 1 else 0)"
proof -
  define q r where "q = y div k" and "r = y mod k"
  have y: "y = k * q + r" by (simp add: q_def r_def)
  have r: "0 \<le> r" "r < k" using assms by (simp_all add: r_def)
  have "y + j + 1 = r + k * (q + 1)" using assms(2) by (simp add: y algebra_simps)
  then have "(y + j + 1) div k = q + 1" using assms r by (simp only: div_mult_self2) simp
  moreover have "(y + j) div k = q + (if r = 0 then 0 else 1)"
  proof (cases "r = 0")
    case True
    moreover from assms have "0 \<le> j" "j < k" by simp_all
    ultimately show ?thesis by (simp add: y)
  next
    case False
    then have "y + j = (r - 1) + k * (q + 1)" using assms(2) by (simp add: y algebra_simps)
    moreover have "(r - 1) div k = 0" using r False by simp
    ultimately show ?thesis using False assms by (simp only: div_mult_self2) simp
  qed
  ultimately show ?thesis by (simp add: r_def)
qed

lemma days_before_year_succ:
  "days_before_year (y + 1) = days_before_year y + (if leap y then 366 else 365)"
proof -
  define a b c where "a = (y + 3) div 4" and "b = (y + 99) div 100" and "c = (y + 399) div 400"
  define p q r where "p \<longleftrightarrow> y mod 4 = 0" and "q \<longleftrightarrow> y mod 100 = 0" and "r \<longleftrightarrow> y mod 400 = 0"
  have m: "r \<Longrightarrow> q" "q \<Longrightarrow> p" and l: "leap y \<longleftrightarrow> p \<and> (\<not> q \<or> r)"
    using dvd_trans [of 100 400 y] dvd_trans [of 4 100 y]
    by (simp_all add: p_def q_def r_def leap_def mod_eq_0_iff_dvd)
  have "(y + 3 + 1) div 4 = a + (if p then 1 else 0)"
    "(y + 99 + 1) div 100 = b + (if q then 1 else 0)"
    "(y + 399 + 1) div 400 = c + (if r then 1 else 0)"
    unfolding a_def b_def c_def p_def q_def r_def by (rule ceil_div_succ; simp)+
  moreover have "days_before_year (y + 1)
      = 365 * (y + 1) + (y + 3 + 1) div 4 - (y + 99 + 1) div 100 + (y + 399 + 1) div 400"
    unfolding days_before_year_def by (simp only: ac_simps)
  ultimately have "days_before_year (y + 1) = 365 * y + 365 + (a + (if p then 1 else 0))
      - (b + (if q then 1 else 0)) + (c + (if r then 1 else 0))"
    by simp
  moreover have "days_before_year y = 365 * y + a - b + c"
    by (simp only: days_before_year_def a_def b_def c_def)
  ultimately show ?thesis unfolding l using m by (cases p; cases q; cases r) simp_all
qed

lemma days_before_year_mono: "y \<le> z \<Longrightarrow> days_before_year y \<le> days_before_year z"
  by (induction z rule: int_ge_induct) (auto simp: days_before_year_succ)

text \<open>\<open>days_before_year y\<close> is within two days of \<open>146097 y / 400\<close>, so the estimate of
  \<open>year_of_day\<close> is off by at most one year.\<close>

lemma div_between: "0 < k \<Longrightarrow> k * (x div k) \<le> x \<and> x < k * (x div k) + (k::int)"
  using mult_div_mod_eq [of k x] pos_mod_bound [of k x] pos_mod_sign [of k x] by linarith

lemma days_before_year_bounds:
  "146097 * y - 400 \<le> 400 * days_before_year y \<and> 400 * days_before_year y \<le> 146097 * y + 700"
proof -
  define a b c where "a = (y + 3) div 4" and "b = (y + 99) div 100" and "c = (y + 399) div 400"
  have "4 * a \<le> y + 3 \<and> y + 3 < 4 * a + 4" "100 * b \<le> y + 99 \<and> y + 99 < 100 * b + 100"
    "400 * c \<le> y + 399 \<and> y + 399 < 400 * c + 400"
    unfolding a_def b_def c_def by (rule div_between; simp)+
  then show ?thesis
    unfolding days_before_year_def a_def [symmetric] b_def [symmetric] c_def [symmetric]
    by (simp add: algebra_simps)
qed

lemma year_of_day:
  "days_before_year (year_of_day d) \<le> d \<and> d < days_before_year (year_of_day d + 1)"
proof -
  define y where "y = (400 * d) div 146097"
  have y: "146097 * y \<le> 400 * d \<and> 400 * d < 146097 * y + 146097"
    unfolding y_def by (rule div_between) simp
  have "400 * days_before_year (y - 1) \<le> 400 * d"
    using days_before_year_bounds [of "y - 1"] y by (simp add: algebra_simps)
  then have "days_before_year (y - 1) \<le> d" by simp
  moreover have "400 * d < 400 * days_before_year (y + 1 + 1)"
    using days_before_year_bounds [of "y + 1 + 1"] y by (simp add: algebra_simps)
  then have "d < days_before_year (y + 1 + 1)" by simp
  ultimately show ?thesis
    by (simp add: year_of_day_def y_def [symmetric] Let_def)
qed

lemma year_of_day_mono: "d \<le> d' \<Longrightarrow> year_of_day d \<le> year_of_day d'"
proof (rule ccontr)
  assume d: "d \<le> d'" and "\<not> year_of_day d \<le> year_of_day d'"
  then have "days_before_year (year_of_day d' + 1) \<le> days_before_year (year_of_day d)"
    by (intro days_before_year_mono) simp
  with year_of_day [of d] year_of_day [of d'] d show False by linarith
qed

lemma sum_month_lens: "sum_list (month_lens y) = (if leap y then 366 else 365)"
  by (simp add: month_lens_def)

lemma split_month_spec:
  assumes "0 \<le> r" "r < sum_list ls" "split_month m ls r = (m', d)"
  shows "m \<le> m' \<and> m' < m + int (length ls) \<and> 0 \<le> d \<and> d < ls ! nat (m' - m)
    \<and> sum_list (take (nat (m' - m)) ls) + d = r"
  using assms
proof (induction ls arbitrary: m r)
  case Nil
  then show ?case by simp
next
  case (Cons l ls)
  show ?case
  proof (cases "r < l")
    case True
    with Cons.prems show ?thesis by auto
  next
    case False
    with Cons.prems have IH: "m + 1 \<le> m' \<and> m' < m + 1 + int (length ls) \<and> 0 \<le> d
      \<and> d < ls ! nat (m' - (m + 1)) \<and> sum_list (take (nat (m' - (m + 1))) ls) + d = r - l"
      by (intro Cons.IH) auto
    then have "nat (m' - m) = Suc (nat (m' - (m + 1)))" by linarith
    with IH show ?thesis by simp
  qed
qed

lemma split_month_ge: "split_month m ls r = (m', d) \<Longrightarrow> m \<le> m'"
proof (induction ls arbitrary: m r)
  case (Cons l ls)
  then show ?case by (fastforce split: if_splits)
qed simp

lemma split_month_less:
  assumes "r < r'" "split_month m ls r = (a, d)" "split_month m ls r' = (a', d')"
  shows "a < a' \<or> a = a' \<and> d < d'"
  using assms
proof (induction ls arbitrary: m r r')
  case Nil
  then show ?case by simp
next
  case (Cons l ls)
  show ?case
  proof (cases "r' < l \<or> \<not> r < l")
    case True
    with Cons.prems Cons.IH [of "r - l" "r' - l" "m + 1"] show ?thesis
      by (auto split: if_splits)
  next
    case False
    with Cons.prems split_month_ge [of "m + 1" ls "r' - l" a' d'] show ?thesis by auto
  qed
qed

section \<open>Broken-down times\<close>

record civil =
  year :: int
  month :: int
  mday :: int
  hour :: int
  minute :: int
  sec :: int

definition unix_sec :: "instant \<Rightarrow> int" where
  "unix_sec t = t div Second"

definition civil_of :: "instant \<Rightarrow> civil" where
  "civil_of t =
     (let d = unix_sec t div 86400 + epoch_day; s = unix_sec t mod 86400;
          y = year_of_day d; (m, r) = split_month 1 (month_lens y) (d - days_before_year y)
      in \<lparr>year = y, month = m, mday = r + 1,
          hour = s div 3600, minute = s mod 3600 div 60, sec = s mod 60\<rparr>)"

text \<open>\<open>time.Date\<close> in UTC.\<close>

definition Date :: "civil \<Rightarrow> int \<Rightarrow> instant" where
  "Date c ns =
     ((days_before_year (year c) + sum_list (take (nat (month c) - 1) (month_lens (year c)))
        + (mday c - 1) - epoch_day) * 86400
      + hour c * 3600 + minute c * 60 + sec c) * Second + ns"

definition trunc_sec :: "instant \<Rightarrow> instant" where
  "trunc_sec t = unix_sec t * Second"

definition valid_civil :: "civil \<Rightarrow> bool" where
  "valid_civil c \<longleftrightarrow> 1 \<le> month c \<and> month c \<le> 12 \<and> 1 \<le> mday c
     \<and> mday c \<le> month_lens (year c) ! (nat (month c) - 1)
     \<and> 0 \<le> hour c \<and> hour c \<le> 23 \<and> 0 \<le> minute c \<and> minute c \<le> 59 \<and> 0 \<le> sec c \<and> sec c \<le> 59"

lemma civil_of_valid: "valid_civil (civil_of t)" and Date_civil_of: "Date (civil_of t) 0 = trunc_sec t"
proof -
  define d s where "d = unix_sec t div 86400 + epoch_day" and "s = unix_sec t mod 86400"
  define y where "y = year_of_day d"
  obtain m r where mr: "split_month 1 (month_lens y) (d - days_before_year y) = (m, r)"
    by (cases "split_month 1 (month_lens y) (d - days_before_year y)")
  have c: "civil_of t = \<lparr>year = y, month = m, mday = r + 1,
      hour = s div 3600, minute = s mod 3600 div 60, sec = s mod 60\<rparr>"
    by (simp add: civil_of_def Let_def d_def [symmetric] s_def [symmetric] y_def [symmetric] mr)
  have "0 \<le> d - days_before_year y" "d - days_before_year y < sum_list (month_lens y)"
    using year_of_day [of d] by (auto simp: y_def sum_month_lens days_before_year_succ)
  from split_month_spec [OF this mr]
  have m: "1 \<le> m" "m \<le> 12" "0 \<le> r" "r < month_lens y ! (nat m - 1)"
    "sum_list (take (nat m - 1) (month_lens y)) + r = d - days_before_year y"
    by (auto simp: month_lens_def nat_diff_distrib)
  have s: "0 \<le> s" "s < 86400" by (simp_all add: s_def)
  moreover have "0 \<le> s mod 3600 div 60" "s mod 3600 div 60 \<le> 59"
    using pos_mod_bound [of 3600 s] pos_mod_sign [of 3600 s] by (simp_all add: div_int_pos_iff)
  ultimately have "s div 3600 \<le> 23 \<and> 0 \<le> s div 3600 \<and> 0 \<le> s mod 3600 div 60
      \<and> s mod 3600 div 60 \<le> 59 \<and> 0 \<le> s mod 60 \<and> s mod 60 \<le> 59" by auto
  with m show "valid_civil (civil_of t)" by (simp add: valid_civil_def c)
  define h mi sc where "h = s div 3600" and "mi = s mod 3600 div 60" and "sc = s mod 60"
  have "s mod 60 = s mod 3600 mod 60" by (simp add: mod_mod_cancel)
  then have "s div 3600 * 3600 + s mod 3600 div 60 * 60 + s mod 60 = s" by simp
  then have "h * 3600 + mi * 60 + sc = s" by (simp only: h_def mi_def sc_def)
  moreover have "(d - epoch_day) * 86400 + s = unix_sec t" by (simp add: d_def s_def)
  ultimately have "(days_before_year y + sum_list (take (nat m - 1) (month_lens y)) + r - epoch_day) * 86400
      + h * 3600 + mi * 60 + sc = unix_sec t"
    using m(5) by (simp add: algebra_simps)
  then show "Date (civil_of t) 0 = trunc_sec t"
    by (simp add: Date_def c trunc_sec_def h_def mi_def sc_def)
qed

end
