(* ===== verification/Go_RFC3339.thy ===== *)
theory Go_RFC3339
  imports Go_Time "HOL-Library.Monad_Syntax"
begin

text \<open>
  The text form of instants: \<open>Format(time.RFC3339)\<close>, \<open>time.Parse(time.RFC3339, _)\<close> and
  \<open>Duration.String\<close>, with the two facts the SQL store needs: parsing inverts formatting up to the
  fraction of a second, and the byte order of texts is the order of the seconds. Both hold for
  the years 0 to 9999, whose texts all have 20 bytes.
\<close>

section \<open>Format\<close>

text \<open>Go's \<open>appendInt(x, width)\<close>: decimal, padded with zeros.\<close>

definition append_int :: "int \<Rightarrow> nat \<Rightarrow> string" where
  "append_int x w =
     (let ds = show_nat (nat \<bar>x\<bar>); pad = replicate (w - length ds) (CHR ''0'')
      in if x < 0 then CHR ''-'' # pad @ ds else pad @ ds)"

definition format_civil :: "civil \<Rightarrow> string" where
  "format_civil c =
     append_int (year c) 4 @ ''-'' @ append_int (month c) 2 @ ''-'' @ append_int (mday c) 2 @ ''T''
     @ append_int (hour c) 2 @ '':'' @ append_int (minute c) 2 @ '':'' @ append_int (sec c) 2 @ ''Z''"

definition Format :: "instant \<Rightarrow> string" where
  "Format t = format_civil (civil_of t)"

text \<open>For a number that fits the width this is its fixed-width decimal form.\<close>

fun digs :: "nat \<Rightarrow> nat \<Rightarrow> string" where
  "digs 0 n = []"
| "digs (Suc w) n = digs w (n div 10) @ [digit_char (n mod 10)]"

lemma length_digs [simp]: "length (digs w n) = w"
  by (induction w arbitrary: n) auto

lemma digit_char_0: "CHR ''0'' = digit_char 0"
proof -
  have "(of_char (CHR ''0'') :: nat) = 48 + 0" by simp
  then show ?thesis unfolding digit_char_def by (metis char_of_char)
qed

lemma digs_0: "digs w 0 = replicate w (CHR ''0'')"
  by (induction w) (auto simp: digit_char_0 replicate_append_same)

lemma pad_show_nat:
  "0 < w \<Longrightarrow> n < 10 ^ w \<Longrightarrow> replicate (w - length (show_nat n)) (CHR ''0'') @ show_nat n = digs w n"
proof (induction w arbitrary: n)
  case 0
  then show ?case by simp
next
  case (Suc w)
  show ?case
  proof (cases "n < 10")
    case True
    then show ?thesis by (simp add: show_nat.simps [of n] digs_0)
  next
    case False
    then have "0 < w" using Suc.prems by (cases w) auto
    moreover have "n div 10 < 10 ^ w" using Suc.prems by (simp add: less_mult_imp_div_less)
    ultimately have "replicate (w - length (show_nat (n div 10))) (CHR ''0'') @ show_nat (n div 10)
        = digs w (n div 10)" by (rule Suc.IH)
    with False show ?thesis by (simp add: show_nat.simps [of n])
  qed
qed

lemma append_int_digs: "0 < w \<Longrightarrow> 0 \<le> x \<Longrightarrow> x < 10 ^ w \<Longrightarrow> append_int x w = digs w (nat x)"
  by (simp add: append_int_def Let_def pad_show_nat nat_less_iff)

lemma parse_digits_digs:
  "n < 10 ^ w \<Longrightarrow> parse_digits acc (digs w n) = Some (acc * 10 ^ w + int n)"
proof (induction w arbitrary: n)
  case 0
  then show ?case by simp
next
  case (Suc w)
  then have "n div 10 < 10 ^ w" by (simp add: less_mult_imp_div_less)
  from Suc.IH [OF this] have "parse_digits acc (digs (Suc w) n)
      = Some (10 * (acc * 10 ^ w + int (n div 10)) + int (n mod 10))"
    by (simp add: parse_digits_append)
  moreover have "10 * int (n div 10) + int (n mod 10) = int n"
    by (metis mult_div_mod_eq of_nat_add of_nat_mult of_nat_numeral)
  ultimately show ?case by (simp add: algebra_simps)
qed

lemma digit_char_less: "a < 10 \<Longrightarrow> b < 10 \<Longrightarrow> digit_char a < digit_char b \<longleftrightarrow> a < b"
  by (simp add: digit_char_def less_char_def)

lemma digit_char_eq: "a < 10 \<Longrightarrow> b < 10 \<Longrightarrow> digit_char a = digit_char b \<longleftrightarrow> a = b"
  by (metis digit_char_less linorder_neq_iff)

lemma list_less_append:
  "length a = length b \<Longrightarrow> a @ c < b @ d \<longleftrightarrow> a < b \<or> a = b \<and> c < (d :: 'a :: order list)"
  by (induction a b rule: list_induct2) auto

lemma less_div_mod:
  fixes m n :: nat
  shows "m < n \<longleftrightarrow> m div 10 < n div 10 \<or> m div 10 = n div 10 \<and> m mod 10 < n mod 10"
proof -
  define a b c d where "a = m div 10" and "b = m mod 10" and "c = n div 10" and "d = n mod 10"
  have "m = 10 * a + b" "n = 10 * c + d" "b < 10" "d < 10"
    by (simp_all add: a_def b_def c_def d_def)
  then show ?thesis
    unfolding a_def [symmetric] b_def [symmetric] c_def [symmetric] d_def [symmetric] by linarith
qed

lemma eq_div_mod: "(m :: nat) = n \<longleftrightarrow> m div 10 = n div 10 \<and> m mod 10 = n mod 10"
  by (metis mult_div_mod_eq)

lemma digs_less:
  "m < 10 ^ w \<Longrightarrow> n < 10 ^ w \<Longrightarrow>
    (digs w m < digs w n \<longleftrightarrow> m < n) \<and> (digs w m = digs w n \<longleftrightarrow> m = n)"
proof (induction w arbitrary: m n)
  case 0
  then show ?case by simp
next
  case (Suc w)
  then have "m div 10 < 10 ^ w" "n div 10 < 10 ^ w" by (simp_all add: less_mult_imp_div_less)
  from Suc.IH [OF this] show ?case
    by (simp add: list_less_append digit_char_less digit_char_eq less_div_mod [of m n] eq_div_mod [of m n])
qed

section \<open>Parse\<close>

definition parse_uint :: "string \<Rightarrow> int \<Rightarrow> int \<Rightarrow> int option" where
  "parse_uint s lo hi =
     (case parse_digits 0 s of
        None \<Rightarrow> None
      | Some x \<Rightarrow> if x < lo \<or> hi < x then None else Some x)"

fun span_digits :: "string \<Rightarrow> string \<times> string" where
  "span_digits [] = ([], [])"
| "span_digits (c # s) =
     (if digit_val c = None then ([], c # s) else (let (a, b) = span_digits s in (c # a, b)))"

text \<open>The optional fraction: at most nine digits count.\<close>

definition parse_frac :: "string \<Rightarrow> int \<times> string" where
  "parse_frac s =
     (case s of
        c # d # s' \<Rightarrow>
          if c = CHR ''.'' \<and> digit_val d \<noteq> None then
            (let (ds, rest) = span_digits (d # s'); ds9 = take 9 ds
             in (case parse_digits 0 (ds9 @ replicate (9 - length ds9) (CHR ''0'')) of
                   Some n \<Rightarrow> (n, rest) | None \<Rightarrow> (0, rest)))
          else (0, s)
      | _ \<Rightarrow> (0, s))"

definition parse_zone :: "string \<Rightarrow> int option" where
  "parse_zone s =
     (if s = ''Z'' then Some 0
      else if length s \<noteq> 6 \<or> s ! 3 \<noteq> CHR '':'' \<or> (s ! 0 \<noteq> CHR ''-'' \<and> s ! 0 \<noteq> CHR ''+'') then None
      else (case (parse_uint (take 2 (drop 1 s)) 0 23, parse_uint (take 2 (drop 4 s)) 0 59) of
              (Some h, Some m) \<Rightarrow> Some ((if s ! 0 = CHR ''-'' then -1 else 1) * (h * 60 + m) * 60)
            | _ \<Rightarrow> None))"

definition Parse :: "string \<Rightarrow> instant option" where
  "Parse s =
     (if length s < 19 then None
      else if s ! 4 \<noteq> CHR ''-'' \<or> s ! 7 \<noteq> CHR ''-'' \<or> s ! 10 \<noteq> CHR ''T''
              \<or> s ! 13 \<noteq> CHR '':'' \<or> s ! 16 \<noteq> CHR '':'' then None
      else do {
        y \<leftarrow> parse_uint (take 4 s) 0 9999;
        mo \<leftarrow> parse_uint (take 2 (drop 5 s)) 1 12;
        dd \<leftarrow> parse_uint (take 2 (drop 8 s)) 1 (month_lens y ! (nat mo - 1));
        h \<leftarrow> parse_uint (take 2 (drop 11 s)) 0 23;
        mi \<leftarrow> parse_uint (take 2 (drop 14 s)) 0 59;
        se \<leftarrow> parse_uint (take 2 (drop 17 s)) 0 59;
        (let (ns, rest) = parse_frac (drop 19 s)
         in map_option
              (\<lambda>off. Date \<lparr>year = y, month = mo, mday = dd, hour = h, minute = mi, sec = se\<rparr> ns - off * Second)
              (parse_zone rest))
      })"

section \<open>Formatting and parsing\<close>

text \<open>The years with four digits: all instants from 0000-01-01 to 9999-12-31.\<close>

definition std_year :: "instant \<Rightarrow> bool" where
  "std_year t \<longleftrightarrow> 0 \<le> year (civil_of t) \<and> year (civil_of t) \<le> 9999"

lemma std_yearI:
  assumes "- 62167219200 \<le> unix_sec t" "unix_sec t < 253402300800"
  shows "std_year t"
proof -
  define d where "d = unix_sec t div 86400 + epoch_day"
  have e: "epoch_day = 719528" "days_before_year 0 = 0" "days_before_year 10000 = 3652425"
    by (simp_all add: epoch_day_def days_before_year_def)
  have q: "86400 * (unix_sec t div 86400) \<le> unix_sec t \<and> unix_sec t < 86400 * (unix_sec t div 86400) + 86400"
    by (rule div_between) simp
  have d: "0 \<le> d" "d < 3652425" using assms q by (simp_all add: d_def e)
  have "0 \<le> year_of_day d"
    using year_of_day [of d] d(1) days_before_year_mono [of "year_of_day d + 1" 0] e(2)
    by (cases "0 \<le> year_of_day d") auto
  moreover have "year_of_day d \<le> 9999"
    using year_of_day [of d] d(2) days_before_year_mono [of 10000 "year_of_day d"] e(3)
    by (cases "year_of_day d \<le> 9999") auto
  ultimately show ?thesis
    by (simp add: std_year_def civil_of_def Let_def d_def [symmetric] split: prod.split)
qed

lemma month_len_le: "1 \<le> m \<Longrightarrow> m \<le> 12 \<Longrightarrow> month_lens y ! (nat m - 1) \<le> 31"
proof -
  assume "1 \<le> m" "m \<le> 12"
  then have "nat m - 1 < length (month_lens y)" by (simp add: month_lens_def)
  then have "month_lens y ! (nat m - 1) \<in> set (month_lens y)" by (rule nth_mem)
  then show ?thesis by (auto simp: month_lens_def split: if_splits)
qed

lemma civil_fields:
  assumes "std_year t"
  shows "0 \<le> year (civil_of t)" "year (civil_of t) < 10 ^ 4"
    "0 \<le> month (civil_of t)" "month (civil_of t) < 10 ^ 2"
    "0 \<le> mday (civil_of t)" "mday (civil_of t) < 10 ^ 2"
    "0 \<le> hour (civil_of t)" "hour (civil_of t) < 10 ^ 2"
    "0 \<le> minute (civil_of t)" "minute (civil_of t) < 10 ^ 2"
    "0 \<le> sec (civil_of t)" "sec (civil_of t) < 10 ^ 2"
  using assms civil_of_valid [of t] month_len_le [of "month (civil_of t)" "year (civil_of t)"]
  by (auto simp: std_year_def valid_civil_def)

lemma Format_digs:
  assumes "std_year t"
  shows "Format t = digs 4 (nat (year (civil_of t))) @ ''-'' @ digs 2 (nat (month (civil_of t))) @ ''-''
    @ digs 2 (nat (mday (civil_of t))) @ ''T'' @ digs 2 (nat (hour (civil_of t))) @ '':''
    @ digs 2 (nat (minute (civil_of t))) @ '':'' @ digs 2 (nat (sec (civil_of t))) @ ''Z''"
  unfolding Format_def format_civil_def using civil_fields [OF assms]
  by (simp add: append_int_digs)

lemma length_Format: "std_year t \<Longrightarrow> length (Format t) = 20"
  by (simp add: Format_digs)

lemma parse_uint_digs:
  "0 \<le> x \<Longrightarrow> x < 10 ^ w \<Longrightarrow> lo \<le> x \<Longrightarrow> x \<le> hi \<Longrightarrow> parse_uint (digs w (nat x)) lo hi = Some x"
  by (simp add: parse_uint_def parse_digits_digs nat_less_iff)

lemma Parse_Format: "std_year t \<Longrightarrow> Parse (Format t) = Some (trunc_sec t)"
proof -
  assume std: "std_year t"
  let ?c = "civil_of t"
  have v: "valid_civil ?c" by (rule civil_of_valid)
  note f = civil_fields [OF std]
  have "?c = \<lparr>year = year ?c, month = month ?c, mday = mday ?c, hour = hour ?c,
      minute = minute ?c, sec = sec ?c\<rparr>" by simp
  with Date_civil_of [of t] have D: "Date \<lparr>year = year ?c, month = month ?c, mday = mday ?c, hour = hour ?c,
      minute = minute ?c, sec = sec ?c\<rparr> 0 = trunc_sec t" by metis
  from std v f show ?thesis
    unfolding Parse_def Format_digs [OF std]
    by (simp add: nth_append parse_uint_digs std_year_def valid_civil_def parse_frac_def
      parse_zone_def D)
qed

lemma clock_less:
  fixes s t :: int
  assumes "s < t"
  shows "s div 3600 < t div 3600 \<or> s div 3600 = t div 3600 \<and>
    (s mod 3600 div 60 < t mod 3600 div 60 \<or> s mod 3600 div 60 = t mod 3600 div 60 \<and> s mod 60 < t mod 60)"
proof -
  have "x mod 3600 mod 60 = x mod 60" for x :: int by (simp add: mod_mod_cancel)
  moreover have "x = 3600 * (x div 3600) + x mod 3600"
    "x mod 3600 = 60 * (x mod 3600 div 60) + x mod 3600 mod 60" for x :: int by simp_all
  moreover have "s div 3600 \<le> t div 3600" using assms by (intro zdiv_mono1) simp_all
  moreover have "s mod 3600 div 60 \<le> t mod 3600 div 60" if "s mod 3600 \<le> t mod 3600"
    using that by (intro zdiv_mono1) simp_all
  ultimately show ?thesis using assms by (smt (verit, ccfv_SIG))
qed

lemma civil_of_less:
  assumes "unix_sec s < unix_sec t"
  defines "c \<equiv> civil_of s" and "e \<equiv> civil_of t"
  shows "year c < year e \<or> year c = year e \<and> (month c < month e \<or> month c = month e \<and>
    (mday c < mday e \<or> mday c = mday e \<and> (hour c < hour e \<or> hour c = hour e \<and>
    (minute c < minute e \<or> minute c = minute e \<and> sec c < sec e))))"
proof -
  define d s' where "d = unix_sec s div 86400 + epoch_day" and "s' = unix_sec s mod 86400"
  define d2 t' where "d2 = unix_sec t div 86400 + epoch_day" and "t' = unix_sec t mod 86400"
  obtain m r where mr: "split_month 1 (month_lens (year_of_day d)) (d - days_before_year (year_of_day d)) = (m, r)"
    by fastforce
  obtain m2 r2 where mr2: "split_month 1 (month_lens (year_of_day d2)) (d2 - days_before_year (year_of_day d2)) = (m2, r2)"
    by fastforce
  have c: "c = \<lparr>year = year_of_day d, month = m, mday = r + 1,
      hour = s' div 3600, minute = s' mod 3600 div 60, sec = s' mod 60\<rparr>"
    by (simp add: c_def civil_of_def Let_def d_def [symmetric] s'_def [symmetric] mr)
  have e: "e = \<lparr>year = year_of_day d2, month = m2, mday = r2 + 1,
      hour = t' div 3600, minute = t' mod 3600 div 60, sec = t' mod 60\<rparr>"
    by (simp add: e_def civil_of_def Let_def d2_def [symmetric] t'_def [symmetric] mr2)
  show ?thesis
  proof (cases "d < d2")
    case True
    then have "year_of_day d \<le> year_of_day d2" by (intro year_of_day_mono) simp
    moreover have "m < m2 \<or> m = m2 \<and> r < r2" if "year_of_day d = year_of_day d2"
      using split_month_less [OF _ mr, of "d2 - days_before_year (year_of_day d)" m2 r2] mr2 True that
      by simp
    ultimately show ?thesis by (auto simp: c e)
  next
    case False
    moreover have "unix_sec s div 86400 \<le> unix_sec t div 86400"
      using assms(1) by (intro zdiv_mono1) simp_all
    ultimately have d: "d = d2" by (simp add: d_def d2_def)
    then have "s' < t'"
      using assms(1) div_mult_mod_eq [of "unix_sec s" 86400] div_mult_mod_eq [of "unix_sec t" 86400]
      unfolding d_def d2_def s'_def t'_def by linarith
    then have "s' div 3600 < t' div 3600 \<or> s' div 3600 = t' div 3600 \<and>
        (s' mod 3600 div 60 < t' mod 3600 div 60 \<or> s' mod 3600 div 60 = t' mod 3600 div 60
          \<and> s' mod 60 < t' mod 60)"
      by (rule clock_less)
    moreover have "m = m2" "r = r2" using mr mr2 d by simp_all
    ultimately show ?thesis by (simp add: c e d)
  qed
qed

lemma Format_less:
  assumes "std_year s" "std_year t" "unix_sec s < unix_sec t"
  shows "Format s < Format t"
proof -
  have *: "a < 10 ^ w \<Longrightarrow> b < 10 ^ w \<Longrightarrow> 0 \<le> a \<Longrightarrow> 0 \<le> b \<Longrightarrow>
      (digs w (nat a) < digs w (nat b) \<longleftrightarrow> a < b) \<and> (digs w (nat a) = digs w (nat b) \<longleftrightarrow> a = b)"
    for a b :: int and w
    using digs_less [of "nat a" w "nat b"] by (auto simp: nat_less_iff)
  from civil_of_less [OF assms(3)] show ?thesis
    unfolding Format_digs [OF assms(1)] Format_digs [OF assms(2)]
    using civil_fields [OF assms(1)] civil_fields [OF assms(2)]
    by (simp add: list_less_append *)
qed

lemma Format_eq: "unix_sec s = unix_sec t \<Longrightarrow> Format s = Format t"
  by (simp add: Format_def civil_of_def)

lemma Format_less_iff:
  "std_year s \<Longrightarrow> std_year t \<Longrightarrow> Format s < Format t \<longleftrightarrow> unix_sec s < unix_sec t"
  by (metis Format_eq Format_less linorder_neq_iff less_asym)

lemma Format_eq_iff:
  "std_year s \<Longrightarrow> std_year t \<Longrightarrow> Format s = Format t \<longleftrightarrow> unix_sec s = unix_sec t"
  by (metis Format_eq Format_less linorder_neq_iff)

section \<open>Duration.String\<close>

text \<open>Go's \<open>fmtFrac\<close>: the \<open>prec\<close> low digits of \<open>u\<close> after a point, trailing zeros dropped, and the
  remaining high digits.\<close>

definition fmt_frac :: "nat \<Rightarrow> nat \<Rightarrow> string \<times> nat" where
  "fmt_frac u prec =
     (let ds = rev (dropWhile (\<lambda>c. c = CHR ''0'') (rev (digs prec u)))
      in (if ds = [] then [] else CHR ''.'' # ds, u div 10 ^ prec))"

definition Duration_String :: "duration \<Rightarrow> string" where
  "Duration_String d =
     (let u = nat \<bar>d\<bar>;
          small = (\<lambda>prec unit. let (fr, n) = fmt_frac u prec in show_nat n @ fr @ unit);
          body =
            (if u = 0 then ''0s''
             else if u < 1000 then small 0 ''ns''
             else if u < 1000000 then small 3 [CHR 0xC2, CHR 0xB5, CHR ''s'']
             else if u < 1000000000 then small 6 ''ms''
             else (let (fr, n) = fmt_frac u 9; m = n div 60; h = m div 60
                   in (if m = 0 then [] else
                         (if h = 0 then [] else show_nat h @ ''h'') @ show_nat (m mod 60) @ ''m'')
                      @ show_nat (n mod 60) @ fr @ ''s''))
      in if d < 0 then CHR ''-'' # body else body)"

end
