(* ===== verification/Data_Model.thy ===== *)
theory Data_Model
  imports Go_RFC3339
begin

text \<open>
  The data the components exchange (\<open>internal/model\<close>): users, sessions and the claims of an access
  token. Field names carry a prefix, because Isabelle's record fields share one name space. A
  \<open>*model.User\<close> or \<open>*model.Session\<close> that a function returns is modelled by the value it points
  to at that moment.
\<close>

record user =
  U_ID :: int
  U_Username :: string
  U_PasswordHash :: string
  U_Role :: string
  U_CreatedAt :: instant
  U_UpdatedAt :: instant

record session =
  S_ID :: int
  S_UserID :: int
  S_Username :: string
  S_Role :: string
  S_Token :: string
  S_CreatedAt :: instant
  S_ExpiresAt :: instant

text \<open>\<open>CustomClaims\<close> with the fields of the embedded \<open>jwt.RegisteredClaims\<close> the program sets. A
  claim with a pointer type is \<open>None\<close> where the token lacks it.\<close>

record claims =
  C_Role :: string
  C_Username :: string
  C_Issuer :: string
  C_Subject :: string
  C_IssuedAt :: "instant option"
  C_ExpiresAt :: "instant option"

text \<open>\<open>crypto/rand\<close> and \<open>encoding/hex\<close>: a session token is the hexadecimal form of 32 random bytes.\<close>

definition hex_char :: "nat \<Rightarrow> char" where
  "hex_char n = (if n < 10 then char_of (48 + n) else char_of (87 + n))"

fun EncodeToString :: "string \<Rightarrow> string" where
  "EncodeToString [] = []"
| "EncodeToString (c # s) =
     (let n = (of_char c :: nat) in hex_char (n div 16) # hex_char (n mod 16) # EncodeToString s)"

lemma length_EncodeToString: "length (EncodeToString s) = 2 * length s"
  by (induction s) (auto simp: Let_def)

lemma of_char_hex_char:
  "n < 16 \<Longrightarrow> (of_char (hex_char n) :: nat) = (if n < 10 then 48 + n else 87 + n)"
  unfolding hex_char_def by (cases "n < 10") (simp_all only: of_char_of if_True if_False, auto)

lemma hex_char_inj: "m < 16 \<Longrightarrow> n < 16 \<Longrightarrow> hex_char m = hex_char n \<Longrightarrow> m = n"
proof -
  assume "m < 16" "n < 16" "hex_char m = hex_char n"
  then have "(if m < 10 then 48 + m else 87 + m) = (if n < 10 then 48 + n else 87 + n)"
    by (metis of_char_hex_char)
  then show ?thesis by (cases "m < 10"; cases "n < 10") simp_all
qed

text \<open>Different random bytes give different tokens.\<close>

lemma EncodeToString_inj: "EncodeToString s = EncodeToString t \<Longrightarrow> s = t"
proof (induction s arbitrary: t)
  case Nil
  then show ?case by (cases t) (auto simp: Let_def)
next
  case (Cons c s)
  then obtain d u where t: "t = d # u" by (cases t) (auto simp: Let_def)
  let ?m = "of_char c :: nat" and ?n = "of_char d :: nat"
  have b: "?m < 256" "?n < 256" by simp_all
  from Cons.prems have "hex_char (?m div 16) = hex_char (?n div 16)"
    "hex_char (?m mod 16) = hex_char (?n mod 16)" "EncodeToString s = EncodeToString u"
    by (simp_all add: t Let_def)
  with b have "?m div 16 = ?n div 16" "?m mod 16 = ?n mod 16" "s = u"
    using Cons.IH by (auto intro: hex_char_inj simp: less_mult_imp_div_less)
  then have "?m = ?n" by (metis mult_div_mod_eq)
  then show ?case using \<open>s = u\<close> by (simp add: t)
qed

end
