(* ===== verification/Go_Http.thy ===== *)
theory Go_Http
  imports Data_Model
begin

text \<open>
  The parts of Go's \<open>net/http\<close> and \<open>encoding/json\<close> the program uses: requests, response writers,
  \<open>http.Error\<close>, JSON values and decoding a JSON body into a struct of strings. A request body
  is given by the first JSON value the decoder's scanner reads from it, or \<open>None\<close> where that
  value is missing or ill-formed.
\<close>

section \<open>JSON\<close>

datatype json =
    JNull
  | JBool bool
  | JNum string
  | JStr string
  | JArr "json list"
  | JObj "(string \<times> json) list"

definition json_int :: "int \<Rightarrow> json" where
  "json_int i = JNum (show_int i)"

text \<open>\<open>Time.MarshalJSON\<close>: RFC 3339 with nanoseconds, trailing zeros dropped.\<close>

definition json_time :: "instant \<Rightarrow> json" where
  "json_time t = JStr (butlast (Format t) @ fst (fmt_frac (nat (t mod Second)) 9) @ ''Z'')"

text \<open>
  Decoding into a struct whose fields are all \<open>string\<close> (\<open>ptr = False\<close>) or all \<open>*string\<close>
  (\<open>ptr = True\<close>). A key selects the field whose name it equals up to case folding; the runes
  U+017F and U+212A fold to \<open>S\<close> and \<open>K\<close>. Unknown keys are skipped, a later key overwrites an
  earlier one, \<open>null\<close> leaves a string alone and resets a pointer, and a value of another kind
  makes \<open>Decode\<close> return an error once the whole value is read. The result maps a field name to
  its value, \<open>None\<close> where it is still the zero value.
\<close>

fun fold_name :: "string \<Rightarrow> string" where
  "fold_name [] = []"
| "fold_name (c # s) =
     (if HasPrefix (c # s) [CHR 0xC5, CHR 0xBF] then CHR ''S'' # fold_name (drop 1 s)
      else if HasPrefix (c # s) [CHR 0xE2, CHR 0x84, CHR 0xAA] then CHR ''K'' # fold_name (drop 2 s)
      else (if CHR ''a'' \<le> c \<and> c \<le> CHR ''z'' then char_of ((of_char c :: nat) - 32) else c)
             # fold_name s)"

definition field_for :: "string list \<Rightarrow> string \<Rightarrow> string option" where
  "field_for fs key =
     (case find (\<lambda>f. f = key) fs of
        Some f \<Rightarrow> Some f
      | None \<Rightarrow> find (\<lambda>f. fold_name f = fold_name key) fs)"

fun decode_fields ::
  "bool \<Rightarrow> string list \<Rightarrow> (string \<times> json) list \<Rightarrow> (string \<rightharpoonup> string) \<Rightarrow> bool
    \<Rightarrow> (string \<rightharpoonup> string) option" where
  "decode_fields ptr fs [] m ok = (if ok then Some m else None)"
| "decode_fields ptr fs ((k, v) # kvs) m ok =
     (case field_for fs k of
        None \<Rightarrow> decode_fields ptr fs kvs m ok
      | Some f \<Rightarrow>
          (case v of
             JStr s \<Rightarrow> decode_fields ptr fs kvs (m(f \<mapsto> s)) ok
           | JNull \<Rightarrow> decode_fields ptr fs kvs (if ptr then m(f := None) else m) ok
           | _ \<Rightarrow> decode_fields ptr fs kvs m False))"

definition Decode :: "bool \<Rightarrow> string list \<Rightarrow> json option \<Rightarrow> (string \<rightharpoonup> string) option" where
  "Decode ptr fs body =
     (case body of
        None \<Rightarrow> None
      | Some JNull \<Rightarrow> Some (\<lambda>_. None)
      | Some (JObj kvs) \<Rightarrow> decode_fields ptr fs kvs (\<lambda>_. None) True
      | Some _ \<Rightarrow> None)"

text \<open>The value of a \<open>string\<close> field: its zero value is the empty string.\<close>

definition str_field :: "(string \<rightharpoonup> string) \<Rightarrow> string \<Rightarrow> string" where
  "str_field m f = (case m f of None \<Rightarrow> [] | Some s \<Rightarrow> s)"

section \<open>Requests\<close>

text \<open>
  \<open>r_claims\<close> is the request context's value under \<open>model.ClaimsKey\<close>: \<open>None\<close> where it is absent,
  \<open>Some None\<close> for a nil \<open>*CustomClaims\<close>. Header keys are in canonical form.
\<close>

record request =
  r_method :: string
  r_path :: string
  r_escaped_path :: string
  r_query :: "(string \<times> string) list"
  r_headers :: "(string \<times> string) list"
  r_body :: "json option"
  r_claims :: "claims option option"
  r_path_values :: "(string \<times> string) list"

definition first_value :: "(string \<times> string) list \<Rightarrow> string \<Rightarrow> string" where
  "first_value kvs k = (case map_of kvs k of None \<Rightarrow> [] | Some v \<Rightarrow> v)"

definition Header_Get :: "request \<Rightarrow> string \<Rightarrow> string" where
  "Header_Get r k = first_value (r_headers r) k"

definition Query_Get :: "request \<Rightarrow> string \<Rightarrow> string" where
  "Query_Get r k = first_value (r_query r) k"

definition PathValue :: "request \<Rightarrow> string \<Rightarrow> string" where
  "PathValue r k = first_value (r_path_values r) k"

section \<open>Response writers\<close>

text \<open>
  Every handler of the server writes through the request logger's \<open>responseWriter\<close>
  (\<open>internal/middleware/logger.go\<close>), which embeds the server's writer and records the code of the last
  \<open>WriteHeader\<close> call in \<open>statusCode\<close>. Of the embedded writer the model keeps the header map, which can
  change until the status is sent; the status that was sent with the headers at that moment (the first one
  wins); and the body. A body write sends status 200 if none was sent, without passing through
  the wrapper's \<open>WriteHeader\<close>. A response with status 204 has no body.
\<close>

datatype chunk = Text string | Html string | Json json | JsonLine json

record response_writer =
  w_header :: "(string \<times> string) list"
  w_sent :: "(int \<times> (string \<times> string) list) option"
  w_body :: "chunk list"
  w_statusCode :: int

definition new_writer :: response_writer where
  "new_writer = \<lparr>w_header = [], w_sent = None, w_body = [], w_statusCode = 200\<rparr>"

definition Header_Set :: "string \<Rightarrow> string \<Rightarrow> response_writer \<Rightarrow> response_writer" where
  "Header_Set k v w = w\<lparr>w_header := AList.update k v (w_header w)\<rparr>"

definition Header_Del :: "string \<Rightarrow> response_writer \<Rightarrow> response_writer" where
  "Header_Del k w = w\<lparr>w_header := AList.delete k (w_header w)\<rparr>"

definition send_header :: "int \<Rightarrow> response_writer \<Rightarrow> response_writer" where
  "send_header code w =
     (case w_sent w of None \<Rightarrow> w\<lparr>w_sent := Some (code, w_header w)\<rparr> | Some _ \<Rightarrow> w)"

definition WriteHeader :: "int \<Rightarrow> response_writer \<Rightarrow> response_writer" where
  "WriteHeader code w = send_header code (w\<lparr>w_statusCode := code\<rparr>)"

definition Write :: "chunk \<Rightarrow> response_writer \<Rightarrow> response_writer" where
  "Write c w =
     (let w' = send_header 200 w
      in if map_option fst (w_sent w') = Some 204 then w' else w'\<lparr>w_body := w_body w' @ [c]\<rparr>)"

text \<open>The status the client sees once the handler has returned.\<close>

definition status :: "response_writer \<Rightarrow> int" where
  "status w = (case w_sent w of None \<Rightarrow> 200 | Some (code, _) \<Rightarrow> code)"

definition Error_msg :: "string \<Rightarrow> int \<Rightarrow> response_writer \<Rightarrow> response_writer" where
  "Error_msg msg code w =
     Write (Text (msg @ [CHR 0x0A]))
       (WriteHeader code
         (Header_Set ''X-Content-Type-Options'' ''nosniff''
           (Header_Set ''Content-Type'' ''text/plain; charset=utf-8''
             (Header_Del ''Content-Length'' w))))"

definition jsonError :: "string \<Rightarrow> int \<Rightarrow> response_writer \<Rightarrow> response_writer" where
  "jsonError msg code w =
     Write (JsonLine (JObj [(''error'', JStr msg)]))
       (WriteHeader code (Header_Set ''Content-Type'' ''application/json'' w))"

definition json_type :: "response_writer \<Rightarrow> response_writer" where
  "json_type w = Header_Set ''Content-Type'' ''application/json'' w"

text \<open>Status codes, by the names of \<open>net/http\<close>.\<close>

definition StatusOK :: int where "StatusOK = 200"
definition StatusCreated :: int where "StatusCreated = 201"
definition StatusNoContent :: int where "StatusNoContent = 204"
definition StatusBadRequest :: int where "StatusBadRequest = 400"
definition StatusUnauthorized :: int where "StatusUnauthorized = 401"
definition StatusForbidden :: int where "StatusForbidden = 403"
definition StatusNotFound :: int where "StatusNotFound = 404"
definition StatusMethodNotAllowed :: int where "StatusMethodNotAllowed = 405"
definition StatusConflict :: int where "StatusConflict = 409"
definition StatusUnsupportedMediaType :: int where "StatusUnsupportedMediaType = 415"
definition StatusTooManyRequests :: int where "StatusTooManyRequests = 429"
definition StatusInternalServerError :: int where "StatusInternalServerError = 500"

lemmas status_codes [simp] = StatusOK_def StatusCreated_def StatusNoContent_def StatusBadRequest_def
  StatusUnauthorized_def StatusForbidden_def StatusNotFound_def StatusMethodNotAllowed_def
  StatusConflict_def StatusUnsupportedMediaType_def StatusTooManyRequests_def
  StatusInternalServerError_def

subsection \<open>What a fresh response becomes\<close>

definition fresh :: "response_writer \<Rightarrow> bool" where
  "fresh w \<longleftrightarrow> w_sent w = None \<and> w_body w = [] \<and> w_statusCode w = 200"

text \<open>The wrapper's status code is the one the client sees.\<close>

definition agrees :: "response_writer \<Rightarrow> bool" where
  "agrees w \<longleftrightarrow> w_statusCode w = status w"

lemma fresh_new [simp]: "fresh new_writer"
  by (simp add: fresh_def new_writer_def)

lemma fresh_agrees [simp]: "fresh w \<Longrightarrow> agrees w"
  by (simp add: fresh_def agrees_def status_def)

lemma fresh_header [simp]: "fresh (Header_Set k v w) = fresh w" "fresh (json_type w) = fresh w"
  "fresh (Header_Del k w) = fresh w"
  by (simp_all add: fresh_def Header_Set_def json_type_def Header_Del_def)

lemma WriteHeader_fresh [simp]:
  "fresh w \<Longrightarrow> status (WriteHeader c w) = c \<and> agrees (WriteHeader c w) \<and> w_body (WriteHeader c w) = []"
  by (simp add: status_def WriteHeader_def send_header_def fresh_def agrees_def)

lemma Write_fresh [simp]:
  "fresh w \<Longrightarrow> status (Write c w) = 200 \<and> agrees (Write c w) \<and> w_body (Write c w) = [c]"
  by (simp add: status_def Write_def send_header_def fresh_def Let_def agrees_def)

lemma Write_WriteHeader [simp]:
  "fresh w \<Longrightarrow> status (Write c (WriteHeader code w)) = code \<and> agrees (Write c (WriteHeader code w))
    \<and> (code \<noteq> 204 \<longrightarrow> w_body (Write c (WriteHeader code w)) = [c])"
  by (simp add: status_def Write_def WriteHeader_def send_header_def fresh_def Let_def agrees_def)

lemma jsonError_fresh [simp]:
  "fresh w \<Longrightarrow> status (jsonError m c w) = c \<and> agrees (jsonError m c w)
    \<and> (c \<noteq> 204 \<longrightarrow> w_body (jsonError m c w) = [JsonLine (JObj [(''error'', JStr m)])])"
  by (simp add: jsonError_def)

lemma Error_msg_fresh [simp]:
  "fresh w \<Longrightarrow> status (Error_msg m c w) = c \<and> agrees (Error_msg m c w)
    \<and> (c \<noteq> 204 \<longrightarrow> w_body (Error_msg m c w) = [Text (m @ [CHR 0x0A])])"
  by (simp add: Error_msg_def)

end
