(* ===== verification/Store_Iface.thy ===== *)
theory Store_Iface
  imports Data_Model
begin

text \<open>
  The Go interface \<open>store.Store\<close> (\<open>internal/store/store.go\<close>): a record of operations over a state
  of type \<open>'s\<close>, and the contract a store keeps. A method that writes returns its result and the
  new state; the mutex makes each method one atomic step.

  Each call has its own environment: the clock reading, the 32 random bytes (or the error of
  \<open>rand.Read\<close>) and the iteration order of the maps it ranges over.
\<close>

record senv =
  se_now :: instant
  se_rand :: "string res"
  se_order :: "nat list"

record 's store_ops =
  CreateUser :: "senv \<Rightarrow> string \<Rightarrow> string \<Rightarrow> string \<Rightarrow> 's \<Rightarrow> user res \<times> 's"
  GetUser :: "int \<Rightarrow> 's \<Rightarrow> user res"
  GetUserByUsername :: "senv \<Rightarrow> string \<Rightarrow> 's \<Rightarrow> user res"
  ListUsers :: "senv \<Rightarrow> string \<Rightarrow> 's \<Rightarrow> user list res"
  UpdateUser :: "senv \<Rightarrow> int \<Rightarrow> string \<Rightarrow> string \<Rightarrow> string \<Rightarrow> 's \<Rightarrow> user res \<times> 's"
  DeleteUser :: "int \<Rightarrow> 's \<Rightarrow> unit res \<times> 's"
  CreateSession :: "senv \<Rightarrow> int \<Rightarrow> string \<Rightarrow> string \<Rightarrow> duration \<Rightarrow> 's \<Rightarrow> session res \<times> 's"
  GetSessionByToken :: "senv \<Rightarrow> string \<Rightarrow> 's \<Rightarrow> session res"
  GetSessionByID :: "int \<Rightarrow> 's \<Rightarrow> session res"
  DeleteSession :: "int \<Rightarrow> 's \<Rightarrow> unit res \<times> 's"
  DeleteSessionsByUserID :: "senv \<Rightarrow> int \<Rightarrow> string \<Rightarrow> 's \<Rightarrow> unit res \<times> 's"
  ListSessionsByUserID :: "senv \<Rightarrow> int \<Rightarrow> 's \<Rightarrow> session list res"
  DeleteExpiredSessions :: "senv \<Rightarrow> 's \<Rightarrow> int res \<times> 's"

text \<open>
  The contract. \<open>users\<close> and \<open>sessions\<close> are what a store means: finite maps from IDs. \<open>inv l s\<close> is the
  implementation's invariant with at least \<open>l\<close> IDs left to give out, \<open>up s\<close> says that the
  medium answers (an in-memory store is always up), \<open>repr\<close> are the instants the store can keep
  and \<open>res\<close> is the resolution with which it keeps them. Whether a call returns an error or not is part of the contract only
  where it does not depend on the medium, or under \<open>up\<close>.
\<close>

definition stored_user :: "(instant \<Rightarrow> instant) \<Rightarrow> user \<Rightarrow> user" where
  "stored_user res u = u\<lparr>U_CreatedAt := res (U_CreatedAt u), U_UpdatedAt := res (U_UpdatedAt u)\<rparr>"

definition stored_session :: "(instant \<Rightarrow> instant) \<Rightarrow> session \<Rightarrow> session" where
  "stored_session res x =
     x\<lparr>S_CreatedAt := res (S_CreatedAt x), S_ExpiresAt := res (S_ExpiresAt x)\<rparr>"

lemma stored_user_simps [simp]:
  "U_ID (stored_user f u) = U_ID u" "U_Username (stored_user f u) = U_Username u"
  "U_PasswordHash (stored_user f u) = U_PasswordHash u" "U_Role (stored_user f u) = U_Role u"
  by (simp_all add: stored_user_def)

lemma stored_session_simps [simp]:
  "S_ID (stored_session f x) = S_ID x" "S_UserID (stored_session f x) = S_UserID x"
  "S_Username (stored_session f x) = S_Username x" "S_Role (stored_session f x) = S_Role x"
  "S_Token (stored_session f x) = S_Token x"
  by (simp_all add: stored_session_def)

locale store =
  fixes S :: "'s store_ops"
    and inv :: "nat \<Rightarrow> 's \<Rightarrow> bool"
    and up :: "'s \<Rightarrow> bool"
    and repr :: "instant \<Rightarrow> bool"
    and res :: "instant \<Rightarrow> instant"
    and users :: "'s \<Rightarrow> (int \<rightharpoonup> user)"
    and sessions :: "'s \<Rightarrow> (int \<rightharpoonup> session)"
  assumes inv_less: "inv (Suc l) s \<Longrightarrow> inv l s"
    and users_id: "inv l s \<Longrightarrow> users s i = Some u \<Longrightarrow> U_ID u = i \<and> 0 < i"
    and users_unique: "inv l s \<Longrightarrow> users s i = Some u \<Longrightarrow> users s j = Some v \<Longrightarrow>
      U_Username u = U_Username v \<Longrightarrow> i = j"
    and sessions_id: "inv l s \<Longrightarrow> sessions s i = Some x \<Longrightarrow> S_ID x = i \<and> 0 < i"
    \<comment> \<open>users\<close>
    and create_user_ok: "inv (Suc l) s \<Longrightarrow> repr (se_now e) \<Longrightarrow> CreateUser S e n h r s = (Inr u, s') \<Longrightarrow>
      inv l s' \<and> users s (U_ID u) = None \<and> (\<forall>v \<in> ran (users s). U_Username v \<noteq> n)
      \<and> u = \<lparr>U_ID = U_ID u, U_Username = n, U_PasswordHash = h, U_Role = r,
              U_CreatedAt = se_now e, U_UpdatedAt = se_now e\<rparr>
      \<and> users s' = (users s)(U_ID u \<mapsto> stored_user res u) \<and> sessions s' = sessions s"
    and create_user_err: "inv l s \<Longrightarrow> up s \<Longrightarrow> CreateUser S e n h r s = (Inl m, s') \<Longrightarrow>
      inv l s' \<and> users s' = users s \<and> sessions s' = sessions s"
    and create_user_dup: "inv l s \<Longrightarrow> up s \<Longrightarrow> v \<in> ran (users s) \<Longrightarrow> U_Username v = n \<Longrightarrow>
      \<exists>m. fst (CreateUser S e n h r s) = Inl m \<and> Contains m ''already exists''"
    and create_user_total: "inv (Suc l) s \<Longrightarrow> up s \<Longrightarrow> (\<forall>v \<in> ran (users s). U_Username v \<noteq> n) \<Longrightarrow>
      \<exists>u. fst (CreateUser S e n h r s) = Inr u"
    and get_user_ok: "inv l s \<Longrightarrow> GetUser S i s = Inr u \<Longrightarrow> users s i = Some u"
    and get_user_total: "inv l s \<Longrightarrow> up s \<Longrightarrow> users s i = Some u \<Longrightarrow> GetUser S i s = Inr u"
    and get_user_missing: "inv l s \<Longrightarrow> up s \<Longrightarrow> users s i = None \<Longrightarrow>
      \<exists>m. GetUser S i s = Inl m \<and> Contains m ''not found''"
    and get_by_name_ok: "inv l s \<Longrightarrow> GetUserByUsername S e n s = Inr u \<Longrightarrow>
      users s (U_ID u) = Some u \<and> U_Username u = n"
    and get_by_name_total: "inv l s \<Longrightarrow> up s \<Longrightarrow> users s i = Some u \<Longrightarrow> U_Username u = n \<Longrightarrow>
      GetUserByUsername S e n s = Inr u"
    and list_users_ok: "inv l s \<Longrightarrow> ListUsers S e r s = Inr us \<Longrightarrow>
      distinct us \<and> set us = {u \<in> ran (users s). r = [] \<or> U_Role u = r}"
    and list_users_up: "inv l s \<Longrightarrow> up s \<Longrightarrow> \<exists>us. ListUsers S e r s = Inr us"
    and update_user_ok: "inv l s \<Longrightarrow> repr (se_now e) \<Longrightarrow> UpdateUser S e i n h r s = (Inr u, s') \<Longrightarrow>
      (\<exists>v. users s i = Some v
        \<and> u = v\<lparr>U_Username := n, U_PasswordHash := h, U_Role := r, U_UpdatedAt := res (se_now e)\<rparr>)
      \<and> (\<forall>j w. users s j = Some w \<longrightarrow> U_Username w = n \<longrightarrow> j = i)
      \<and> inv l s' \<and> users s' = (users s)(i \<mapsto> u) \<and> sessions s' = sessions s"
    and update_user_err: "inv l s \<Longrightarrow> up s \<Longrightarrow> repr (se_now e) \<Longrightarrow> UpdateUser S e i n h r s = (Inl m, s') \<Longrightarrow>
      inv l s' \<and> users s' = users s \<and> sessions s' = sessions s"
    and update_user_dup: "inv l s \<Longrightarrow> up s \<Longrightarrow> repr (se_now e) \<Longrightarrow> users s i \<noteq> None \<Longrightarrow> users s j = Some w \<Longrightarrow>
      U_Username w = n \<Longrightarrow> j \<noteq> i \<Longrightarrow>
      \<exists>m. fst (UpdateUser S e i n h r s) = Inl m \<and> Contains m ''already taken''"
    and update_user_total: "inv l s \<Longrightarrow> up s \<Longrightarrow> repr (se_now e) \<Longrightarrow> users s i \<noteq> None \<Longrightarrow>
      (\<forall>j w. users s j = Some w \<longrightarrow> U_Username w = n \<longrightarrow> j = i) \<Longrightarrow>
      \<exists>u. fst (UpdateUser S e i n h r s) = Inr u"
    and delete_user_ok: "inv l s \<Longrightarrow> DeleteUser S i s = (Inr y, s') \<Longrightarrow>
      users s i \<noteq> None \<and> inv l s' \<and> users s' = (users s)(i := None) \<and> sessions s' = sessions s"
    and delete_user_err: "inv l s \<Longrightarrow> up s \<Longrightarrow> DeleteUser S i s = (Inl m, s') \<Longrightarrow>
      users s i = None \<and> Contains m ''not found''
      \<and> inv l s' \<and> users s' = users s \<and> sessions s' = sessions s"
    \<comment> \<open>sessions\<close>
    and create_session_ok: "inv (Suc l) s \<Longrightarrow> repr (se_now e) \<Longrightarrow> repr (se_now e + ttl) \<Longrightarrow>
      CreateSession S e uid n r ttl s = (Inr x, s') \<Longrightarrow>
      inv l s' \<and> sessions s (S_ID x) = None
      \<and> (\<exists>b. se_rand e = Inr b
        \<and> x = \<lparr>S_ID = S_ID x, S_UserID = uid, S_Username = n, S_Role = r, S_Token = EncodeToString b,
                S_CreatedAt = se_now e, S_ExpiresAt = se_now e + ttl\<rparr>)
      \<and> sessions s' = (sessions s)(S_ID x \<mapsto> stored_session res x) \<and> users s' = users s"
    and create_session_err: "inv l s \<Longrightarrow> up s \<Longrightarrow> CreateSession S e uid n r ttl s = (Inl m, s') \<Longrightarrow>
      inv l s' \<and> sessions s' = sessions s \<and> users s' = users s"
    and create_session_total: "inv (Suc l) s \<Longrightarrow> up s \<Longrightarrow> 0 < ttl \<Longrightarrow> se_rand e = Inr b \<Longrightarrow>
      (\<forall>y \<in> ran (sessions s). S_Token y \<noteq> EncodeToString b) \<Longrightarrow>
      \<exists>x. fst (CreateSession S e uid n r ttl s) = Inr x"
    and get_session_ok: "inv l s \<Longrightarrow> GetSessionByID S i s = Inr x \<Longrightarrow> sessions s i = Some x"
    and get_session_total: "inv l s \<Longrightarrow> up s \<Longrightarrow> sessions s i = Some x \<Longrightarrow> GetSessionByID S i s = Inr x"
    and get_by_token_ok: "inv l s \<Longrightarrow> GetSessionByToken S e t s = Inr x \<Longrightarrow>
      sessions s (S_ID x) = Some x \<and> S_Token x = t"
    and get_by_token_total: "inv l s \<Longrightarrow> up s \<Longrightarrow> sessions s i = Some x \<Longrightarrow> S_Token x = t \<Longrightarrow>
      \<exists>y. GetSessionByToken S e t s = Inr y"
    and delete_session_ok: "inv l s \<Longrightarrow> DeleteSession S i s = (Inr y, s') \<Longrightarrow>
      sessions s i \<noteq> None \<and> inv l s' \<and> sessions s' = (sessions s)(i := None) \<and> users s' = users s"
    and delete_session_err: "inv l s \<Longrightarrow> up s \<Longrightarrow> DeleteSession S i s = (Inl m, s') \<Longrightarrow>
      sessions s i = None \<and> inv l s' \<and> sessions s' = sessions s \<and> users s' = users s"
    and delete_by_user_ok: "inv l s \<Longrightarrow> DeleteSessionsByUserID S e uid t s = (Inr y, s') \<Longrightarrow>
      inv l s' \<and> users s' = users s
      \<and> sessions s' = (\<lambda>i. case sessions s i of None \<Rightarrow> None
          | Some x \<Rightarrow> if S_UserID x = uid \<and> S_Token x \<noteq> t then None else Some x)"
    and delete_by_user_up: "inv l s \<Longrightarrow> up s \<Longrightarrow> \<exists>y. fst (DeleteSessionsByUserID S e uid t s) = Inr y"
    and list_sessions_ok: "inv l s \<Longrightarrow> repr (se_now e) \<Longrightarrow> ListSessionsByUserID S e uid s = Inr xs \<Longrightarrow>
      distinct xs \<and> sorted_wrt (\<lambda>x y. S_CreatedAt y \<le> S_CreatedAt x) xs
      \<and> set xs = {x \<in> ran (sessions s). S_UserID x = uid \<and> res (se_now e) < S_ExpiresAt x}"
    and list_sessions_up: "inv l s \<Longrightarrow> up s \<Longrightarrow> repr (se_now e) \<Longrightarrow> \<exists>xs. ListSessionsByUserID S e uid s = Inr xs"
    and delete_expired_ok: "inv l s \<Longrightarrow> repr (se_now e) \<Longrightarrow> DeleteExpiredSessions S e s = (Inr k, s') \<Longrightarrow>
      inv l s' \<and> users s' = users s
      \<and> sessions s' = (\<lambda>i. case sessions s i of None \<Rightarrow> None
          | Some x \<Rightarrow> if S_ExpiresAt x < res (se_now e) then None else Some x)
      \<and> k = int (card {i. \<exists>x. sessions s i = Some x \<and> S_ExpiresAt x < res (se_now e)})"

end
