(* ===== verification/Runtime.thy ===== *)
theory Runtime
  imports Go_Http Store_Iface
begin

text \<open>
  What a request runs in. \<open>libs\<close> are the third-party packages, parameters of the model: \<open>bcrypt\<close>,
  \<open>golang-jwt\<close> and the rate limiter of \<open>golang.org/x/time\<close>, whose state has type \<open>'l\<close>. \<open>reqenv\<close> is what
  the operating system and the run time answer during one request: environment variables, each
  clock reading, the salt, the outcome of the audit file's write, and the environment of each
  store call, by its position in the handler. \<open>world\<close> is the state a handler changes.
\<close>

record 'l libs =
  bcrypt_DefaultCost :: int
  bcrypt_GenerateFromPassword :: "string \<Rightarrow> int \<Rightarrow> string \<Rightarrow> string res"
    \<comment> \<open>password, cost, salt\<close>
  bcrypt_CompareHashAndPassword :: "string \<Rightarrow> string \<Rightarrow> bool"
    \<comment> \<open>hash, password: no error\<close>
  jwt_NewNumericDate :: "instant \<Rightarrow> instant"
  jwt_SignedString :: "claims \<Rightarrow> string \<Rightarrow> string res"
    \<comment> \<open>claims with method HS256, key\<close>
  jwt_ParseWithClaims :: "instant \<Rightarrow> string \<Rightarrow> string \<Rightarrow> (claims option \<times> bool) res"
    \<comment> \<open>now, token, key: the claims, if they have the type \<open>*CustomClaims\<close>, and \<open>token.Valid\<close>\<close>
  limiter_Allow :: "instant \<Rightarrow> 'l \<Rightarrow> bool \<times> 'l"

record reqenv =
  getenv :: "string \<Rightarrow> string"
  t_limiter :: instant
  t_validate :: instant
  t_issued :: instant
  t_expires :: instant
  t_audit :: instant
  salt :: string
  audit_fault :: "string option"
  store_env :: "nat \<Rightarrow> senv"

record event =
  ev_Timestamp :: string
  ev_User :: string
  ev_Role :: string
  ev_Action :: string
  ev_Resource :: string
  ev_Result :: string

record ('s, 'l) world =
  h_store :: 's
  h_limiter :: 'l
  h_audit :: "event list"
  h_out :: response_writer
  h_panic :: bool
  h_requests :: "(string \<times> string \<times> int) list"

type_synonym ('s, 'l) handler = "request \<Rightarrow> ('s, 'l) world \<Rightarrow> ('s, 'l) world"

definition reply :: "(response_writer \<Rightarrow> response_writer) \<Rightarrow> ('s, 'l) world \<Rightarrow> ('s, 'l) world" where
  "reply f w = w\<lparr>h_out := f (h_out w)\<rparr>"

lemma reply_simps [simp]:
  "h_store (reply f w) = h_store w" "h_limiter (reply f w) = h_limiter w"
  "h_audit (reply f w) = h_audit w" "h_out (reply f w) = f (h_out w)"
  "h_panic (reply f w) = h_panic w" "h_requests (reply f w) = h_requests w"
  by (simp_all add: reply_def)

end
