(* ===== verification/Token.thy ===== *)
theory Token
  imports Runtime
begin

text \<open>
  \<open>internal/token/token.go\<close> and the token command \<open>cmd/token/main.go\<close>: signing and validating access
  tokens. The JWT package is a parameter; \<open>jwt_laws\<close> states what its documentation promises about
  tokens signed with HS256.
\<close>

definition jwtSecret :: "(string \<Rightarrow> string) \<Rightarrow> string" where
  "jwtSecret env =
     (if env ''JWT_SECRET'' \<noteq> [] then env ''JWT_SECRET''
      else ''your-highly-secure-secret-key-change-in-production'')"

definition GenerateToken :: "'l libs \<Rightarrow> reqenv \<Rightarrow> string \<Rightarrow> string \<Rightarrow> string res" where
  "GenerateToken L E role username =
     (let claims = \<lparr>C_Role = role, C_Username = username, C_Issuer = ''auth-service'',
                    C_Subject = username,
                    C_IssuedAt = Some (jwt_NewNumericDate L (t_issued E)),
                    C_ExpiresAt = Some (jwt_NewNumericDate L (t_expires E + 15 * Minute))\<rparr>
      in jwt_SignedString L claims (jwtSecret (getenv E)))"

definition ErrSignatureInvalid :: string where
  "ErrSignatureInvalid = ''token signature is invalid''"

definition ValidateToken :: "'l libs \<Rightarrow> reqenv \<Rightarrow> string \<Rightarrow> claims res" where
  "ValidateToken L E tokenString =
     (case jwt_ParseWithClaims L (t_validate E) tokenString (jwtSecret (getenv E)) of
        Inl err \<Rightarrow> Inl err
      | Inr (claims, valid) \<Rightarrow>
          (case claims of
             None \<Rightarrow> Inl ErrSignatureInvalid
           | Some c \<Rightarrow> if \<not> valid then Inl ErrSignatureInvalid else Inr c))"

text \<open>The token command signs with the built-in secret only, and sets no username.\<close>

definition token_main :: "'l libs \<Rightarrow> string \<Rightarrow> string \<Rightarrow> duration \<Rightarrow> instant \<Rightarrow> string res" where
  "token_main L role sub dur now =
     (let claims = \<lparr>C_Role = role, C_Username = [], C_Issuer = ''auth-service'', C_Subject = sub,
                    C_IssuedAt = Some (jwt_NewNumericDate L now),
                    C_ExpiresAt = Some (jwt_NewNumericDate L (now + dur))\<rparr>
      in jwt_SignedString L claims ''your-highly-secure-secret-key-change-in-production'')"

text \<open>
  The documented behaviour of the JWT package: numeric dates have whole seconds; a token signed with
  HS256 parses back, with the same key, to its claims as long as it has not expired, and is refused
  from its expiry on. This is asked only for claims that JSON carries unchanged: ASCII strings and
  dates in whole seconds.
\<close>

definition ascii :: "string \<Rightarrow> bool" where
  "ascii s \<longleftrightarrow> list_all (\<lambda>c. (of_char c :: nat) < 128) s"

definition portable :: "claims \<Rightarrow> bool" where
  "portable c \<longleftrightarrow> ascii (C_Role c) \<and> ascii (C_Username c) \<and> ascii (C_Issuer c) \<and> ascii (C_Subject c)
     \<and> map_option trunc_sec (C_IssuedAt c) = C_IssuedAt c
     \<and> map_option trunc_sec (C_ExpiresAt c) = C_ExpiresAt c"

definition jwt_laws :: "'l libs \<Rightarrow> bool" where
  "jwt_laws L \<longleftrightarrow>
     (\<forall>t. jwt_NewNumericDate L t = trunc_sec t) \<and>
     (\<forall>c k tok e now. portable c \<longrightarrow> jwt_SignedString L c k = Inr tok \<longrightarrow> C_ExpiresAt c = Some e \<longrightarrow>
        now < e \<longrightarrow> jwt_ParseWithClaims L now tok k = Inr (Some c, True)) \<and>
     (\<forall>c k tok e now. portable c \<longrightarrow> jwt_SignedString L c k = Inr tok \<longrightarrow> C_ExpiresAt c = Some e \<longrightarrow>
        e \<le> now \<longrightarrow> (\<exists>m. jwt_ParseWithClaims L now tok k = Inl m))"

end
