(* ===== verification/Audit_Log.thy ===== *)
theory Audit_Log
  imports Runtime
begin

text \<open>
  \<open>internal/audit/audit.go\<close>: the append-only audit file, as the list of the events whose JSON lines it
  holds. The mutex makes \<open>Log\<close> one step. \<open>fault\<close> is the error of the file's \<open>Write\<close>, which then
  appends nothing; marshalling an event of strings cannot fail.
\<close>

text \<open>\<open>os.OpenFile\<close> with \<open>O_CREATE|O_WRONLY|O_APPEND\<close>: an existing file keeps its lines, a missing one starts empty.
  \<open>files\<close> are the audit files on disk, \<open>open_err\<close> the error of the call.\<close>

definition NewLogger :: "string option \<Rightarrow> string \<Rightarrow> (string \<rightharpoonup> event list) \<Rightarrow> event list res" where
  "NewLogger open_err path files =
     (case open_err of
        Some err \<Rightarrow> Inl err
      | None \<Rightarrow> Inr (case files path of None \<Rightarrow> [] | Some lines \<Rightarrow> lines))"

definition Log :: "instant \<Rightarrow> string option \<Rightarrow> event \<Rightarrow> event list \<Rightarrow> unit res \<times> event list" where
  "Log now fault ev file =
     (let ev' = ev\<lparr>ev_Timestamp := Format now\<rparr>
      in case fault of Some err \<Rightarrow> (Inl err, file) | None \<Rightarrow> (Inr (), file @ [ev']))"

text \<open>The logger with its file, which may be closed; then \<open>Write\<close> fails. The world of the handlers keeps the lines
  alone, because \<open>main\<close> closes the file only after the last request.\<close>

record logger =
  lg_open :: bool
  lg_file :: "event list"

definition ErrClosed :: string where
  "ErrClosed = ''file already closed''"

definition Logger_Log :: "instant \<Rightarrow> string option \<Rightarrow> event \<Rightarrow> logger \<Rightarrow> unit res \<times> logger" where
  "Logger_Log now fault ev l =
     (let (z, file) = Log now (if lg_open l then fault else Some ErrClosed) ev (lg_file l)
      in (z, l\<lparr>lg_file := file\<rparr>))"

definition Logger_Close :: "string option \<Rightarrow> logger \<Rightarrow> unit res \<times> logger" where
  "Logger_Close fault l =
     (if lg_open l then (case fault of Some err \<Rightarrow> Inl err | None \<Rightarrow> Inr (), l\<lparr>lg_open := False\<rparr>)
      else (Inl ErrClosed, l))"

text \<open>The middleware's calls, which drop the returned error.\<close>

definition audit :: "reqenv \<Rightarrow> event \<Rightarrow> ('s, 'l) world \<Rightarrow> ('s, 'l) world" where
  "audit E ev w = w\<lparr>h_audit := snd (Log (t_audit E) (audit_fault E) ev (h_audit w))\<rparr>"

lemma audit_simps [simp]:
  "h_store (audit E ev w) = h_store w" "h_limiter (audit E ev w) = h_limiter w"
  "h_out (audit E ev w) = h_out w" "h_panic (audit E ev w) = h_panic w"
  "h_requests (audit E ev w) = h_requests w"
  by (simp_all add: audit_def)

lemma h_audit_audit:
  "h_audit (audit E ev w) =
    h_audit w @ (if audit_fault E = None then [ev\<lparr>ev_Timestamp := Format (t_audit E)\<rparr>] else [])"
  by (simp add: audit_def Log_def Let_def split: option.split)

end
