(* ===== verification/Rbac.thy ===== *)
theory Rbac
  imports Data_Model
begin

text \<open>
  \<open>internal/rbac\<close>: the policy matrix and \<open>Authorize\<close>. The abstract specification orders the roles
  (viewer below developer below admin) and gives each permission the least role that has it;
  \<open>Authorize_spec\<close> shows that the matrix and the loop over it implement this and deny
  everything else.
\<close>

definition PermissionRead :: string where "PermissionRead = ''read''"
definition PermissionWrite :: string where "PermissionWrite = ''write''"
definition PermissionDelete :: string where "PermissionDelete = ''delete''"

definition RoleAdmin :: string where "RoleAdmin = ''admin''"
definition RoleDeveloper :: string where "RoleDeveloper = ''developer''"
definition RoleViewer :: string where "RoleViewer = ''viewer''"

definition PolicyMatrix :: "(string \<times> string list) list" where
  "PolicyMatrix =
     [(RoleAdmin, [PermissionRead, PermissionWrite, PermissionDelete]),
      (RoleDeveloper, [PermissionRead, PermissionWrite]),
      (RoleViewer, [PermissionRead])]"

lemmas rbac_names = PermissionRead_def PermissionWrite_def PermissionDelete_def
  RoleAdmin_def RoleDeveloper_def RoleViewer_def

fun permission_loop :: "string list \<Rightarrow> string \<Rightarrow> bool" where
  "permission_loop [] action = False"
| "permission_loop (p # ps) action = (if p = action then True else permission_loop ps action)"

definition Authorize :: "string \<Rightarrow> string \<Rightarrow> bool" where
  "Authorize roleStr actionStr =
     (if roleStr = [] \<or> actionStr = [] then False
      else case map_of PolicyMatrix roleStr of
          None \<Rightarrow> False
        | Some permissions \<Rightarrow> permission_loop permissions actionStr)"

lemma permission_loop_iff: "permission_loop ps a \<longleftrightarrow> a \<in> set ps"
  by (induction ps) auto

section \<open>The abstract policy\<close>

datatype role = Viewer | Developer | Admin
datatype permission = P_Read | P_Write | P_Delete

instantiation role :: linorder
begin

fun rank :: "role \<Rightarrow> nat" where
  "rank Viewer = 0" | "rank Developer = 1" | "rank Admin = 2"

definition less_eq_role :: "role \<Rightarrow> role \<Rightarrow> bool" where "r \<le> s \<longleftrightarrow> rank r \<le> rank s"
definition less_role :: "role \<Rightarrow> role \<Rightarrow> bool" where "r < s \<longleftrightarrow> rank r < rank s"

instance
proof
  fix r s t :: role
  show "r < s \<longleftrightarrow> r \<le> s \<and> \<not> s \<le> r" and "r \<le> r" and "r \<le> s \<or> s \<le> r"
    by (auto simp: less_eq_role_def less_role_def)
  show "r \<le> s \<Longrightarrow> s \<le> t \<Longrightarrow> r \<le> t" by (simp add: less_eq_role_def)
  show "r \<le> s \<Longrightarrow> s \<le> r \<Longrightarrow> r = s"
    by (cases r; cases s) (simp_all add: less_eq_role_def)
qed

end

fun role_name :: "role \<Rightarrow> string" where
  "role_name Viewer = ''viewer''"
| "role_name Developer = ''developer''"
| "role_name Admin = ''admin''"

fun permission_name :: "permission \<Rightarrow> string" where
  "permission_name P_Read = ''read''"
| "permission_name P_Write = ''write''"
| "permission_name P_Delete = ''delete''"

fun least_role :: "permission \<Rightarrow> role" where
  "least_role P_Read = Viewer"
| "least_role P_Write = Developer"
| "least_role P_Delete = Admin"

lemma role_name_inj: "role_name r = role_name s \<Longrightarrow> r = s"
  by (cases r; cases s) auto

lemma Authorize_names: "Authorize (role_name r) (permission_name p) \<longleftrightarrow> least_role p \<le> r"
  by (cases r; cases p)
    (simp_all add: Authorize_def PolicyMatrix_def rbac_names less_eq_role_def)

lemma Authorize_known:
  "Authorize rs as \<Longrightarrow> \<exists>r p. rs = role_name r \<and> as = permission_name p"
proof -
  assume a: "Authorize rs as"
  then obtain ps where ps: "map_of PolicyMatrix rs = Some ps" "as \<in> set ps"
    by (auto simp: Authorize_def permission_loop_iff split: if_splits option.splits)
  then have "(rs, ps) \<in> set PolicyMatrix" by (simp add: map_of_SomeD)
  with ps(2) have "rs \<in> role_name ` {Viewer, Developer, Admin}"
    and "as \<in> permission_name ` {P_Read, P_Write, P_Delete}"
    by (auto simp: PolicyMatrix_def rbac_names)
  then show ?thesis by blast
qed

text \<open>C19: \<open>Authorize\<close> grants exactly what the abstract policy grants: the role and the action must be
  known names, and the role at least the least role of the permission. Any other role or action
  string, the empty strings included, is denied.\<close>

theorem Authorize_spec:
  "Authorize rs as \<longleftrightarrow> (\<exists>r p. rs = role_name r \<and> as = permission_name p \<and> least_role p \<le> r)"
  by (metis Authorize_known Authorize_names)

end
