(* ===== verification/Middleware.thy ===== *)
theory Middleware
  imports Token Audit_Log Rbac
begin

text \<open>
  \<open>internal/middleware\<close>: the wrappers around handlers. A middleware takes the next handler and is a
  handler itself.
\<close>

definition mw_jsonError :: "string \<Rightarrow> int \<Rightarrow> response_writer \<Rightarrow> response_writer" where
  "mw_jsonError msg code w =
     Write (JsonLine (JObj [(''error'', JStr msg)]))
       (WriteHeader code (Header_Set ''Content-Type'' ''application/json'' w))"

lemma mw_jsonError_eq [simp]: "mw_jsonError = jsonError"
  by (simp add: fun_eq_iff mw_jsonError_def jsonError_def)

definition AuthMiddleware ::
  "'l libs \<Rightarrow> reqenv \<Rightarrow> ('s, 'l) handler \<Rightarrow> ('s, 'l) handler" where
  "AuthMiddleware L E next r w =
     (let authHeader = Header_Get r ''Authorization''
      in if authHeader = [] \<or> \<not> HasPrefix authHeader ''Bearer '' then
           reply (mw_jsonError ''Unauthorized'' StatusUnauthorized) w
         else
           (let tokenStr = TrimPrefix authHeader ''Bearer ''
            in case ValidateToken L E tokenStr of
                 Inl _ \<Rightarrow> reply (mw_jsonError ''Unauthorized'' StatusUnauthorized) w
               | Inr claims \<Rightarrow> next (r\<lparr>r_claims := Some (Some claims)\<rparr>) w))"

text \<open>\<open>claims, ok := r.Context().Value(model.ClaimsKey).( *model.CustomClaims)\<close> followed by the test
  \<open>!ok || claims == nil\<close>: the claims, or \<open>None\<close> where the test holds.\<close>

definition request_claims :: "request \<Rightarrow> claims option" where
  "request_claims r = (case r_claims r of Some (Some c) \<Rightarrow> Some c | _ \<Rightarrow> None)"

lemma request_claims_set [simp]: "request_claims (r\<lparr>r_claims := Some (Some c)\<rparr>) = Some c"
  by (simp add: request_claims_def)

definition RequirePermission ::
  "reqenv \<Rightarrow> string \<Rightarrow> string \<Rightarrow> ('s, 'l) handler \<Rightarrow> ('s, 'l) handler" where
  "RequirePermission E action resource next r w =
     (case request_claims r of
        None \<Rightarrow>
          reply (mw_jsonError ''Unauthorized'' StatusUnauthorized)
            (audit E \<lparr>ev_Timestamp = [], ev_User = ''UNKNOWN'', ev_Role = ''UNKNOWN'',
                      ev_Action = action, ev_Resource = resource, ev_Result = ''deny''\<rparr> w)
      | Some claims \<Rightarrow>
          (let allowed = Authorize (C_Role claims) action;
               result = (if allowed then ''allow'' else ''deny'');
               w' = audit E \<lparr>ev_Timestamp = [], ev_User = C_Subject claims, ev_Role = C_Role claims,
                             ev_Action = action, ev_Resource = resource, ev_Result = result\<rparr> w
           in if \<not> allowed then reply (mw_jsonError ''Forbidden'' StatusForbidden) w' else next r w'))"

definition RequireRole ::
  "reqenv \<Rightarrow> string \<Rightarrow> ('s, 'l) handler \<Rightarrow> ('s, 'l) handler" where
  "RequireRole E role next r w =
     (case request_claims r of
        None \<Rightarrow>
          reply (mw_jsonError ''Unauthorized'' StatusUnauthorized)
            (audit E \<lparr>ev_Timestamp = [], ev_User = ''UNKNOWN'', ev_Role = ''UNKNOWN'',
                      ev_Action = ''ACCESS_ROLE_'' @ role, ev_Resource = r_path r,
                      ev_Result = ''deny''\<rparr> w)
      | Some claims \<Rightarrow>
          (let allowed = (C_Role claims = role);
               result = (if allowed then ''allow'' else ''deny'');
               w' = audit E \<lparr>ev_Timestamp = [], ev_User = C_Subject claims, ev_Role = C_Role claims,
                             ev_Action = ''ACCESS_ROLE_'' @ role, ev_Resource = r_path r,
                             ev_Result = result\<rparr> w
           in if \<not> allowed then reply (mw_jsonError ''Forbidden'' StatusForbidden) w' else next r w'))"

text \<open>The request logger starts every response with a fresh wrapped writer and, once the handler has
  returned, logs the method, the path and the recorded status (the duration is left out). A panic
  in the handler skips the log line.\<close>

definition RequestLogger :: "('s, 'l) handler \<Rightarrow> ('s, 'l) handler" where
  "RequestLogger next r w =
     (let w' = next r (w\<lparr>h_out := new_writer\<rparr>)
      in if h_panic w' then w'
         else w'\<lparr>h_requests := h_requests w' @ [(r_method r, r_path r, w_statusCode (h_out w'))]\<rparr>)"

lemmas [handler_defs] = AuthMiddleware_def RequirePermission_def RequireRole_def RequestLogger_def

end
