(* ===== verification/Handlers_Basic.thy ===== *)
theory Handlers_Basic
  imports Middleware
begin

text \<open>
  The handlers that use no store: \<open>health.go\<close>, \<open>whoami.go\<close> and \<open>projects.go\<close> of \<open>internal/handler\<close>.
\<close>

definition HealthHandler :: "('s, 'l) handler" where
  "HealthHandler r w =
     (if r_method r \<noteq> ''GET'' then
        reply (Error_msg ''method not allowed'' StatusMethodNotAllowed) w
      else
        reply (Write (Json (JObj [(''status'', JStr ''ok'')])) \<circ> WriteHeader StatusOK \<circ> json_type) w)"

text \<open>The code tests \<open>!ok\<close> only: a nil \<open>*CustomClaims\<close> would be dereferenced.\<close>

definition WhoamiHandler :: "('s, 'l) handler" where
  "WhoamiHandler r w =
     (case r_claims r of
        None \<Rightarrow> reply (Error_msg ''Unauthorized'' StatusUnauthorized) w
      | Some None \<Rightarrow> w\<lparr>h_panic := True\<rparr>
      | Some (Some claims) \<Rightarrow>
          reply (Write (Json (JObj [(''role'', JStr (C_Role claims)), (''subject'', JStr (C_Subject claims))]))
                 \<circ> WriteHeader StatusOK \<circ> json_type) w)"

definition project_response :: "string \<Rightarrow> string \<Rightarrow> json" where
  "project_response resource operation =
     JObj [(''resource'', JStr resource), (''operation'', JStr operation)]"

definition ProjectsHandler :: "('s, 'l) handler" where
  "ProjectsHandler r w0 =
     (let w = reply json_type w0
      in if r_method r = ''GET'' then
           reply (Write (JsonLine (project_response ''projects'' ''read''))) w
         else if r_method r = ''POST'' then
           reply (Write (JsonLine (project_response ''projects'' ''create''))) w
         else if r_method r = ''DELETE'' then
           reply (Write (JsonLine (project_response ''projects'' ''purge''))) w
         else reply (Error_msg ''Method Not Allowed'' StatusMethodNotAllowed) w)"

lemmas [handler_defs] = HealthHandler_def WhoamiHandler_def ProjectsHandler_def

end
