(* ===== verification/Handlers_Auth.thy ===== *)
theory Handlers_Auth
  imports Middleware
begin

text \<open>
  \<open>internal/handler/auth.go\<close>: login, the caller's profile, sessions and password change. Each
  handler is one definition with the code's checks in the code's order. \<open>L\<close> are the third-party
  packages, \<open>S\<close> the store's operations and \<open>E\<close> the environment of the request; the store calls of a
  handler take \<open>store_env E 0\<close>, \<open>store_env E 1\<close>, in order.
\<close>

definition http_unauthorized :: "response_writer \<Rightarrow> response_writer" where
  "http_unauthorized = Error_msg ''Unauthorized: Invalid or missing token claims'' StatusUnauthorized"

definition sessionTTL :: "(string \<Rightarrow> string) \<Rightarrow> duration" where
  "sessionTTL env =
     (let v = env ''SESSION_TTL''
      in if v \<noteq> [] then
           (case Atoi v of
              Some hours \<Rightarrow> if 0 < hours then wrap64 (hours * Hour) else 24 * Hour
            | None \<Rightarrow> 24 * Hour)
         else 24 * Hour)"

definition login_response :: "string \<Rightarrow> string \<Rightarrow> json" where
  "login_response token session_token =
     JObj [(''token'', JStr token), (''session_token'', JStr session_token)]"

definition LoginHandler ::
  "'l libs \<Rightarrow> 's store_ops \<Rightarrow> reqenv \<Rightarrow> ('s, 'l) handler" where
  "LoginHandler L S E r w0 =
     (let (allowed, lim) = limiter_Allow L (t_limiter E) (h_limiter w0); w = w0\<lparr>h_limiter := lim\<rparr>
      in if \<not> allowed then reply (jsonError ''Too Many Requests'' StatusTooManyRequests) w
         else if r_method r \<noteq> ''POST'' then
           reply (jsonError ''Method not allowed'' StatusMethodNotAllowed) w
         else if \<not> HasPrefix (Header_Get r ''Content-Type'') ''application/json'' then
           reply (jsonError ''Content-Type must be application/json'' StatusUnsupportedMediaType) w
         else
           (case Decode False [''username'', ''password''] (r_body r) of
              None \<Rightarrow> reply (jsonError ''Invalid JSON payload'' StatusBadRequest) w
            | Some req \<Rightarrow>
                if blank (str_field req ''username'') \<or> blank (str_field req ''password'') then
                  reply (jsonError ''Missing username or password'' StatusBadRequest) w
                else
                  (case GetUserByUsername S (store_env E 0) (str_field req ''username'') (h_store w) of
                     Inl _ \<Rightarrow> reply (jsonError ''Unauthorized'' StatusUnauthorized) w
                   | Inr user \<Rightarrow>
                       if \<not> bcrypt_CompareHashAndPassword L (U_PasswordHash user) (str_field req ''password'')
                       then reply (jsonError ''Unauthorized'' StatusUnauthorized) w
                       else
                         (case GenerateToken L E (U_Role user) (U_Username user) of
                            Inl _ \<Rightarrow> reply (jsonError ''Internal server error'' StatusInternalServerError) w
                          | Inr rawToken \<Rightarrow>
                              (case CreateSession S (store_env E 1) (U_ID user) (U_Username user)
                                      (U_Role user) (sessionTTL (getenv E)) (h_store w) of
                                 (Inl _, s') \<Rightarrow>
                                   reply (jsonError ''Internal server error'' StatusInternalServerError)
                                     (w\<lparr>h_store := s'\<rparr>)
                               | (Inr session, s') \<Rightarrow>
                                   reply (Write (JsonLine (login_response rawToken (S_Token session)))
                                          \<circ> WriteHeader StatusOK \<circ> json_type)
                                     (w\<lparr>h_store := s'\<rparr>))))))"

definition MeHandler :: "('s, 'l) handler" where
  "MeHandler r w =
     (case request_claims r of
        None \<Rightarrow> reply http_unauthorized w
      | Some claims \<Rightarrow>
          reply (Write (JsonLine (JObj [(''username'', JStr (C_Username claims)), (''role'', JStr (C_Role claims))]))
                 \<circ> WriteHeader StatusOK \<circ> json_type) w)"

text \<open>\<open>SessionResponse\<close>: a session without its token.\<close>

definition session_response :: "session \<Rightarrow> json" where
  "session_response s =
     JObj [(''id'', json_int (S_ID s)), (''user_id'', json_int (S_UserID s)),
           (''username'', JStr (S_Username s)), (''role'', JStr (S_Role s)),
           (''created_at'', json_time (S_CreatedAt s)), (''expires_at'', json_time (S_ExpiresAt s))]"

definition SessionsHandler :: "'s store_ops \<Rightarrow> reqenv \<Rightarrow> ('s, 'l) handler" where
  "SessionsHandler S E r w =
     (if r_method r \<noteq> ''GET'' then reply (jsonError ''Method not allowed'' StatusMethodNotAllowed) w
      else case request_claims r of
          None \<Rightarrow> reply http_unauthorized w
        | Some claims \<Rightarrow>
            (case GetUserByUsername S (store_env E 0) (C_Username claims) (h_store w) of
               Inl _ \<Rightarrow> reply (jsonError ''User not found'' StatusNotFound) w
             | Inr user \<Rightarrow>
                 (case ListSessionsByUserID S (store_env E 1) (U_ID user) (h_store w) of
                    Inl _ \<Rightarrow> reply (jsonError ''Internal server error'' StatusInternalServerError) w
                  | Inr sessions \<Rightarrow>
                      reply (Write (JsonLine (JArr (map session_response sessions)))
                             \<circ> WriteHeader StatusOK \<circ> json_type) w)))"

definition DeleteSessionHandler :: "'s store_ops \<Rightarrow> reqenv \<Rightarrow> ('s, 'l) handler" where
  "DeleteSessionHandler S E r w =
     (if r_method r \<noteq> ''DELETE'' then reply (jsonError ''Method not allowed'' StatusMethodNotAllowed) w
      else case request_claims r of
          None \<Rightarrow> reply http_unauthorized w
        | Some claims \<Rightarrow>
            if PathValue r ''id'' = [] then reply (jsonError ''Missing session ID'' StatusBadRequest) w
            else
              (case ParseInt (PathValue r ''id'') of
                 None \<Rightarrow> reply (jsonError ''Invalid session ID format'' StatusBadRequest) w
               | Some i \<Rightarrow>
                   if i \<le> 0 then reply (jsonError ''Invalid session ID format'' StatusBadRequest) w
                   else
                     (case GetUserByUsername S (store_env E 0) (C_Username claims) (h_store w) of
                        Inl _ \<Rightarrow> reply (jsonError ''User not found'' StatusNotFound) w
                      | Inr user \<Rightarrow>
                          (case GetSessionByID S i (h_store w) of
                             Inl _ \<Rightarrow> reply (jsonError ''Session not found'' StatusNotFound) w
                           | Inr session \<Rightarrow>
                               if S_UserID session \<noteq> U_ID user then
                                 reply (jsonError ''Session not found'' StatusNotFound) w
                               else
                                 (case DeleteSession S i (h_store w) of
                                    (Inl _, s') \<Rightarrow>
                                      reply (jsonError ''Internal server error'' StatusInternalServerError)
                                        (w\<lparr>h_store := s'\<rparr>)
                                  | (Inr _, s') \<Rightarrow>
                                      reply (WriteHeader StatusNoContent) (w\<lparr>h_store := s'\<rparr>))))))"

definition DeleteAllSessionsHandler :: "'s store_ops \<Rightarrow> reqenv \<Rightarrow> ('s, 'l) handler" where
  "DeleteAllSessionsHandler S E r w =
     (if r_method r \<noteq> ''DELETE'' then reply (jsonError ''Method not allowed'' StatusMethodNotAllowed) w
      else case request_claims r of
          None \<Rightarrow> reply http_unauthorized w
        | Some claims \<Rightarrow>
            (let currentSessionToken = Header_Get r ''X-Session-Token''
             in if currentSessionToken = [] then
                  reply (jsonError ''X-Session-Token header required'' StatusBadRequest) w
                else
                  (case GetUserByUsername S (store_env E 0) (C_Username claims) (h_store w) of
                     Inl _ \<Rightarrow> reply (jsonError ''User not found'' StatusNotFound) w
                   | Inr user \<Rightarrow>
                       (case DeleteSessionsByUserID S (store_env E 1) (U_ID user) currentSessionToken (h_store w) of
                          (Inl _, s') \<Rightarrow>
                            reply (jsonError ''Internal server error'' StatusInternalServerError)
                              (w\<lparr>h_store := s'\<rparr>)
                        | (Inr _, s') \<Rightarrow> reply (WriteHeader StatusNoContent) (w\<lparr>h_store := s'\<rparr>)))))"

text \<open>\<open>getBcryptCost\<close> of \<open>admin.go\<close>, used here and there.\<close>

definition getBcryptCost :: "'l libs \<Rightarrow> (string \<Rightarrow> string) \<Rightarrow> int" where
  "getBcryptCost L env =
     (let cost = bcrypt_DefaultCost L; value = env ''BCRYPT_COST''
      in if value = [] then cost
         else (case Atoi value of None \<Rightarrow> cost | Some parsedCost \<Rightarrow> parsedCost))"

definition PasswordChangeHandler ::
  "'l libs \<Rightarrow> 's store_ops \<Rightarrow> reqenv \<Rightarrow> ('s, 'l) handler" where
  "PasswordChangeHandler L S E r w =
     (if r_method r \<noteq> ''POST'' then reply (jsonError ''Method not allowed'' StatusMethodNotAllowed) w
      else case request_claims r of
          None \<Rightarrow> reply http_unauthorized w
        | Some claims \<Rightarrow>
            if \<not> HasPrefix (Header_Get r ''Content-Type'') ''application/json'' then
              reply (jsonError ''Content-Type must be application/json'' StatusUnsupportedMediaType) w
            else
              (case Decode False [''currentpassword'', ''newpassword''] (r_body r) of
                 None \<Rightarrow> reply (jsonError ''Invalid JSON payload'' StatusBadRequest) w
               | Some req \<Rightarrow>
                   if blank (str_field req ''currentpassword'') \<or> blank (str_field req ''newpassword'') then
                     reply (jsonError ''Missing current or new password'' StatusBadRequest) w
                   else
                     (case GetUserByUsername S (store_env E 0) (C_Username claims) (h_store w) of
                        Inl _ \<Rightarrow> reply (jsonError ''User not found'' StatusNotFound) w
                      | Inr user \<Rightarrow>
                          if \<not> bcrypt_CompareHashAndPassword L (U_PasswordHash user)
                                  (str_field req ''currentpassword'')
                          then reply (jsonError ''Incorrect current password'' StatusUnauthorized) w
                          else
                            (case bcrypt_GenerateFromPassword L (str_field req ''newpassword'')
                                    (getBcryptCost L (getenv E)) (salt E) of
                               Inl _ \<Rightarrow> reply (jsonError ''Internal server error'' StatusInternalServerError) w
                             | Inr newHash \<Rightarrow>
                                 (case UpdateUser S (store_env E 1) (U_ID user) (U_Username user) newHash
                                         (U_Role user) (h_store w) of
                                    (Inl _, s') \<Rightarrow>
                                      reply (jsonError ''Failed to update password'' StatusInternalServerError)
                                        (w\<lparr>h_store := s'\<rparr>)
                                  | (Inr _, s') \<Rightarrow>
                                      reply (Write (Text (''{'' @ [CHR 0x22] @ ''message'' @ [CHR 0x22] @ '': ''
                                               @ [CHR 0x22] @ ''Password updated successfully''
                                               @ [CHR 0x22] @ ''}''))
                                             \<circ> WriteHeader StatusOK)
                                        (w\<lparr>h_store := s'\<rparr>))))))"

lemmas [handler_defs] = LoginHandler_def MeHandler_def SessionsHandler_def DeleteSessionHandler_def
  DeleteAllSessionsHandler_def PasswordChangeHandler_def http_unauthorized_def

end
