(* ===== verification/Handlers_Admin.thy ===== *)
theory Handlers_Admin
  imports Handlers_Auth
begin

text \<open>
  \<open>internal/handler/admin.go\<close>: listing, creating, reading, updating and deleting users. The routes
  of the server reach these handlers through \<open>RequireRole "admin"\<close> only.
\<close>

text \<open>\<open>UserResponse\<close>, and a \<open>model.User\<close> itself, whose \<open>PasswordHash\<close> has the tag \<open>json:"-"\<close>.\<close>

definition user_response :: "user \<Rightarrow> json" where
  "user_response u =
     JObj [(''id'', json_int (U_ID u)), (''username'', JStr (U_Username u)), (''role'', JStr (U_Role u)),
           (''created_at'', json_time (U_CreatedAt u)), (''updated_at'', json_time (U_UpdatedAt u))]"

definition user_json :: "user \<Rightarrow> json" where
  "user_json u =
     JObj [(''id'', json_int (U_ID u)), (''username'', JStr (U_Username u)), (''role'', JStr (U_Role u)),
           (''created_at'', json_time (U_CreatedAt u)), (''updated_at'', json_time (U_UpdatedAt u))]"

definition valid_role :: "string \<Rightarrow> bool" where
  "valid_role r \<longleftrightarrow> r \<in> set [''admin'', ''developer'', ''viewer'']"

definition ListUsersHandler :: "'s store_ops \<Rightarrow> reqenv \<Rightarrow> ('s, 'l) handler" where
  "ListUsersHandler S E r w =
     (if r_method r \<noteq> ''GET'' then reply (jsonError ''Method not allowed'' StatusMethodNotAllowed) w
      else
        (case ListUsers S (store_env E 0) (Query_Get r ''role'') (h_store w) of
           Inl _ \<Rightarrow> reply (jsonError ''Internal server error'' StatusInternalServerError) w
         | Inr users \<Rightarrow> reply (Write (JsonLine (JArr (map user_json users))) \<circ> json_type) w))"

definition CreateUserHandler ::
  "'l libs \<Rightarrow> 's store_ops \<Rightarrow> reqenv \<Rightarrow> ('s, 'l) handler" where
  "CreateUserHandler L S E r w =
     (if r_method r \<noteq> ''POST'' then reply (jsonError ''Method not allowed'' StatusMethodNotAllowed) w
      else if \<not> HasPrefix (Header_Get r ''Content-Type'') ''application/json'' then
        reply (jsonError ''Content-Type must be application/json'' StatusUnsupportedMediaType) w
      else
        (case Decode False [''username'', ''password'', ''role''] (r_body r) of
           None \<Rightarrow> reply (jsonError ''Invalid JSON payload'' StatusBadRequest) w
         | Some req \<Rightarrow>
             if blank (str_field req ''username'') \<or> blank (str_field req ''password'')
                \<or> blank (str_field req ''role'')
             then reply (jsonError ''Username, password, and role are required'' StatusBadRequest) w
             else if \<not> valid_role (str_field req ''role'') then
               reply (jsonError ''Invalid role: must be admin, developer, or viewer'' StatusBadRequest) w
             else
               (case bcrypt_GenerateFromPassword L (str_field req ''password'')
                       (getBcryptCost L (getenv E)) (salt E) of
                  Inl _ \<Rightarrow> reply (jsonError ''Internal server error'' StatusInternalServerError) w
                | Inr hashedPassword \<Rightarrow>
                    (case CreateUser S (store_env E 0) (str_field req ''username'') hashedPassword
                            (str_field req ''role'') (h_store w) of
                       (Inl err, s') \<Rightarrow>
                         if Contains err ''already exists'' then
                           reply (jsonError err StatusConflict) (w\<lparr>h_store := s'\<rparr>)
                         else
                           reply (jsonError ''Internal server error'' StatusInternalServerError)
                             (w\<lparr>h_store := s'\<rparr>)
                     | (Inr user, s') \<Rightarrow>
                         reply (Write (JsonLine (user_response user)) \<circ> WriteHeader StatusCreated \<circ> json_type)
                           (w\<lparr>h_store := s'\<rparr>)))))"

text \<open>The common head of the three handlers below: the \<open>id\<close> of the path, or the reply that refuses it.\<close>

definition path_user_id :: "request \<Rightarrow> string + int" where
  "path_user_id r =
     (if PathValue r ''id'' = [] then Inl ''Missing user ID''
      else case ParseInt (PathValue r ''id'') of
          None \<Rightarrow> Inl ''Invalid user ID format''
        | Some i \<Rightarrow> if i \<le> 0 then Inl ''Invalid user ID format'' else Inr i)"

definition GetUserHandler :: "'s store_ops \<Rightarrow> reqenv \<Rightarrow> ('s, 'l) handler" where
  "GetUserHandler S E r w =
     (if r_method r \<noteq> ''GET'' then reply (jsonError ''Method not allowed'' StatusMethodNotAllowed) w
      else case path_user_id r of
          Inl msg \<Rightarrow> reply (jsonError msg StatusBadRequest) w
        | Inr i \<Rightarrow>
            (case GetUser S i (h_store w) of
               Inl err \<Rightarrow>
                 if Contains err ''not found'' then reply (jsonError err StatusNotFound) w
                 else reply (jsonError ''Internal server error'' StatusInternalServerError) w
             | Inr user \<Rightarrow> reply (Write (JsonLine (user_response user)) \<circ> json_type) w))"

definition UpdateUserHandler ::
  "'l libs \<Rightarrow> 's store_ops \<Rightarrow> reqenv \<Rightarrow> ('s, 'l) handler" where
  "UpdateUserHandler L S E r w =
     (if r_method r \<noteq> ''PUT'' then reply (jsonError ''Method not allowed'' StatusMethodNotAllowed) w
      else case path_user_id r of
          Inl msg \<Rightarrow> reply (jsonError msg StatusBadRequest) w
        | Inr i \<Rightarrow>
            (case GetUser S i (h_store w) of
               Inl err \<Rightarrow>
                 if Contains err ''not found'' then reply (jsonError err StatusNotFound) w
                 else reply (jsonError ''Internal server error'' StatusInternalServerError) w
             | Inr existing \<Rightarrow>
                 (case Decode True [''username'', ''password'', ''role''] (r_body r) of
                    None \<Rightarrow> reply (jsonError ''Invalid JSON payload'' StatusBadRequest) w
                  | Some req \<Rightarrow>
                      (let updatedUsername = (case req ''username'' of None \<Rightarrow> U_Username existing | Some n \<Rightarrow> n)
                       in if (case req ''role'' of None \<Rightarrow> False | Some ro \<Rightarrow> \<not> valid_role ro) then
                            reply (jsonError ''Invalid role: must be admin, developer, or viewer''
                              StatusBadRequest) w
                          else
                            (let updatedRole = (case req ''role'' of None \<Rightarrow> U_Role existing | Some ro \<Rightarrow> ro)
                             in case (case req ''password'' of
                                        None \<Rightarrow> Inr (U_PasswordHash existing)
                                      | Some p \<Rightarrow> bcrypt_GenerateFromPassword L p (getBcryptCost L (getenv E)) (salt E)) of
                                  Inl _ \<Rightarrow>
                                    reply (jsonError ''Internal server error'' StatusInternalServerError) w
                                | Inr updatedPasswordHash \<Rightarrow>
                                    (case UpdateUser S (store_env E 0) i updatedUsername updatedPasswordHash
                                            updatedRole (h_store w) of
                                       (Inl err, s') \<Rightarrow>
                                         if Contains err ''already taken'' then
                                           reply (jsonError err StatusConflict) (w\<lparr>h_store := s'\<rparr>)
                                         else
                                           reply (jsonError ''Internal server error'' StatusInternalServerError)
                                             (w\<lparr>h_store := s'\<rparr>)
                                     | (Inr user, s') \<Rightarrow>
                                         reply (Write (JsonLine (user_response user)) \<circ> json_type)
                                           (w\<lparr>h_store := s'\<rparr>)))))))"

definition DeleteUserHandler :: "'s store_ops \<Rightarrow> ('s, 'l) handler" where
  "DeleteUserHandler S r w =
     (if r_method r \<noteq> ''DELETE'' then reply (jsonError ''Method not allowed'' StatusMethodNotAllowed) w
      else case path_user_id r of
          Inl msg \<Rightarrow> reply (jsonError msg StatusBadRequest) w
        | Inr i \<Rightarrow>
            (case DeleteUser S i (h_store w) of
               (Inl err, s') \<Rightarrow>
                 if Contains err ''not found'' then reply (jsonError err StatusNotFound) (w\<lparr>h_store := s'\<rparr>)
                 else
                   reply (jsonError ''Internal server error'' StatusInternalServerError) (w\<lparr>h_store := s'\<rparr>)
             | (Inr _, s') \<Rightarrow> reply (WriteHeader StatusNoContent) (w\<lparr>h_store := s'\<rparr>)))"

lemmas [handler_defs] = ListUsersHandler_def CreateUserHandler_def GetUserHandler_def
  UpdateUserHandler_def DeleteUserHandler_def

end
