(* ===== verification/Go_Mux.thy ===== *)
theory Go_Mux
  imports Runtime
begin

text \<open>
  \<open>http.ServeMux\<close> (Go 1.22 and later) for the patterns the server registers: literal segments,
  single-segment wildcards \<open>{name}\<close> and a trailing slash that matches every longer path. A path is
  first cleaned (a request for another spelling of it is redirected), then matched segment by
  segment, each segment percent-decoded. \<open>route\<close> takes the first registered pattern that
  matches; for the server's tables no path matches two patterns (\<open>routing_order_irrelevant\<close>), so the
  precedence rules of the router do not matter.
\<close>

datatype segment = Lit string | Wild string | Rest

type_synonym pattern = "segment list"

section \<open>Paths\<close>

definition unhex :: "char \<Rightarrow> nat option" where
  "unhex c =
     (let n = (of_char c :: nat)
      in if 48 \<le> n \<and> n \<le> 57 then Some (n - 48)
         else if 97 \<le> n \<and> n \<le> 102 then Some (n - 87)
         else if 65 \<le> n \<and> n \<le> 70 then Some (n - 55)
         else None)"

text \<open>\<open>url.PathUnescape\<close>; the router keeps a segment it cannot decode.\<close>

fun PathUnescape :: "string \<Rightarrow> string option" where
  "PathUnescape [] = Some []"
| "PathUnescape (c # s) =
     (if c = CHR ''%'' then
        (case s of
           a # b # s' \<Rightarrow>
             (case (unhex a, unhex b, PathUnescape s') of
                (Some x, Some y, Some t) \<Rightarrow> Some (char_of (16 * x + y) # t)
              | _ \<Rightarrow> None)
         | _ \<Rightarrow> None)
      else map_option ((#) c) (PathUnescape s))"

definition path_unescape :: "string \<Rightarrow> string" where
  "path_unescape s = (case PathUnescape s of None \<Rightarrow> s | Some t \<Rightarrow> t)"

definition first_segment :: "string \<Rightarrow> string \<times> string" where
  "first_segment path =
     (if path = ''/'' then (''/'', [])
      else (let p = tl path
            in (path_unescape (takeWhile (\<lambda>c. c \<noteq> CHR ''/'') p), dropWhile (\<lambda>c. c \<noteq> CHR ''/'') p)))"

fun split_slash :: "string \<Rightarrow> string list" where
  "split_slash [] = [[]]"
| "split_slash (c # s) =
     (if c = CHR ''/'' then [] # split_slash s
      else (case split_slash s of x # xs \<Rightarrow> (c # x) # xs | [] \<Rightarrow> [[c]]))"

text \<open>\<open>path.Clean\<close> on a rooted path: empty and \<open>.\<close> segments go, \<open>..\<close> removes the one before it.\<close>

fun clean_segments :: "string list \<Rightarrow> string list \<Rightarrow> string list" where
  "clean_segments acc [] = rev acc"
| "clean_segments acc (x # xs) =
     (if x = [] \<or> x = ''.'' then clean_segments acc xs
      else if x = ''..'' then clean_segments (tl acc) xs
      else clean_segments (x # acc) xs)"

definition path_Clean :: "string \<Rightarrow> string" where
  "path_Clean p =
     (let segs = clean_segments [] (split_slash p)
      in if segs = [] then ''/'' else concat (map (\<lambda>x. CHR ''/'' # x) segs))"

definition clean_path :: "string \<Rightarrow> string" where
  "clean_path p0 =
     (if p0 = [] then ''/''
      else (let p = (if hd p0 = CHR ''/'' then p0 else CHR ''/'' # p0); np = path_Clean p
            in if last p = CHR ''/'' \<and> np \<noteq> ''/'' then np @ ''/'' else np))"

section \<open>Matching\<close>

fun match_pattern :: "pattern \<Rightarrow> string \<Rightarrow> (string \<times> string) list option" where
  "match_pattern [] path = (if path = [] then Some [] else None)"
| "match_pattern (p # ps) path =
     (if path = [] then None
      else (let (seg, rest) = first_segment path
            in case p of
                 Lit l \<Rightarrow> if seg = l then match_pattern ps rest else None
               | Wild n \<Rightarrow> if seg = ''/'' then None else map_option ((#) (n, seg)) (match_pattern ps rest)
               | Rest \<Rightarrow> if ps = [] then Some [] else None))"

fun route :: "(pattern \<times> 'h) list \<Rightarrow> string \<Rightarrow> (pattern \<times> 'h \<times> (string \<times> string) list) option" where
  "route [] path = None"
| "route ((pat, h) # rs) path =
     (case match_pattern pat path of Some pvs \<Rightarrow> Some (pat, h, pvs) | None \<Rightarrow> route rs path)"

definition exact_match :: "pattern \<Rightarrow> string \<Rightarrow> bool" where
  "exact_match pat path \<longleftrightarrow>
     (pat = [] \<or> last pat \<noteq> Rest
      \<or> (path \<noteq> [] \<and> last path = CHR ''/'' \<and> length pat = count_list path (CHR ''/'')))"

definition matches_exactly :: "(pattern \<times> 'h) list \<Rightarrow> string \<Rightarrow> bool" where
  "matches_exactly rs path =
     (case route rs path of None \<Rightarrow> False | Some (pat, _, _) \<Rightarrow> exact_match pat path)"

text \<open>\<open>/tree\<close> is redirected to \<open>/tree/\<close> where only the latter is registered.\<close>

definition slash_redirect :: "(pattern \<times> 'h) list \<Rightarrow> string \<Rightarrow> bool" where
  "slash_redirect rs path \<longleftrightarrow>
     \<not> matches_exactly rs path \<and> path \<noteq> [] \<and> last path \<noteq> CHR ''/'' \<and> matches_exactly rs (path @ ''/'')"

definition Redirect :: "request \<Rightarrow> string \<Rightarrow> response_writer \<Rightarrow> response_writer" where
  "Redirect r url w =
     (let w1 = Header_Set ''Location'' url w;
          w2 = (if r_method r = ''GET'' \<or> r_method r = ''HEAD''
                then Header_Set ''Content-Type'' ''text/html; charset=utf-8'' w1 else w1);
          w3 = WriteHeader 301 w2
      in if r_method r = ''GET'' then Write (Html url) w3 else w3)"

text \<open>The router refuses the request target \<open>*\<close> (the only one whose path is \<open>*\<close>), and closes the connection then.\<close>

definition ServeMux :: "(pattern \<times> ('s, 'l) handler) list \<Rightarrow> ('s, 'l) handler" where
  "ServeMux routes r w =
     (let connect = (r_method r = ''CONNECT'');
          path = (if connect then r_escaped_path r else clean_path (r_escaped_path r))
      in if r_escaped_path r = ''*'' then reply (WriteHeader StatusBadRequest) w
         else if slash_redirect routes path then reply (Redirect r (clean_path (r_path r) @ ''/'')) w
         else if \<not> connect \<and> path \<noteq> r_escaped_path r then reply (Redirect r path) w
         else (case route routes path of
                 None \<Rightarrow> reply (Error_msg ''404 page not found'' StatusNotFound) w
               | Some (_, h, pvs) \<Rightarrow> h (r\<lparr>r_path_values := pvs\<rparr>) w))"

section \<open>Facts about routing\<close>

lemma route_mem: "route rs path = Some (pat, h, pvs) \<Longrightarrow> (pat, h) \<in> set rs \<and> match_pattern pat path = Some pvs"
  by (induction rs path rule: route.induct) (auto split: option.splits)

lemma route_None: "route rs path = None \<longleftrightarrow> (\<forall>(pat, h) \<in> set rs. match_pattern pat path = None)"
  by (induction rs path rule: route.induct) (auto split: option.splits)

lemma Redirect_fresh [simp]:
  "fresh w \<Longrightarrow> status (Redirect r url w) = 301 \<and> agrees (Redirect r url w)"
  by (simp add: Redirect_def Let_def)

text \<open>What a multiplexer does with a request: an answer of its own, which touches the response only,
  or one of the registered handlers on the request with its path values set.\<close>

lemma ServeMux_cases:
  obtains (own) f where "ServeMux routes r w = reply f w"
      "\<And>u. fresh u \<Longrightarrow> agrees (f u) \<and> (status (f u) \<in> {301, 404} \<or> r_escaped_path r = ''*'' \<and> status (f u) = 400)"
  | (handler) pat h pvs where "(pat, h) \<in> set routes" "match_pattern pat (r_escaped_path r) = Some pvs"
      "ServeMux routes r w = h (r\<lparr>r_path_values := pvs\<rparr>) w"
proof -
  let ?path = "if r_method r = ''CONNECT'' then r_escaped_path r else clean_path (r_escaped_path r)"
  consider (star) "r_escaped_path r = ''*''"
    | (slash) "r_escaped_path r \<noteq> ''*''" "slash_redirect routes ?path"
    | (clean) "r_escaped_path r \<noteq> ''*''" "\<not> slash_redirect routes ?path" "r_method r \<noteq> ''CONNECT''" "?path \<noteq> r_escaped_path r"
    | (none) "r_escaped_path r \<noteq> ''*''" "\<not> slash_redirect routes ?path" "?path = r_escaped_path r" "route routes ?path = None"
    | (some) pat h pvs where "r_escaped_path r \<noteq> ''*''" "\<not> slash_redirect routes ?path" "?path = r_escaped_path r"
        "route routes ?path = Some (pat, h, pvs)"
    by (metis prod_cases3 option.exhaust)
  then show ?thesis
  proof cases
    case star
    then show ?thesis by (intro own [of "WriteHeader StatusBadRequest"]) (simp_all add: ServeMux_def)
  next
    case slash
    then show ?thesis
      by (intro own [of "Redirect r (clean_path (r_path r) @ ''/'')"]) (simp_all add: ServeMux_def Let_def)
  next
    case clean
    then show ?thesis
      by (intro own [of "Redirect r (clean_path (r_escaped_path r))"]) (simp_all add: ServeMux_def Let_def)
  next
    case none
    then show ?thesis
      by (intro own [of "Error_msg ''404 page not found'' StatusNotFound"])
        (auto simp: ServeMux_def Let_def split: if_splits)
  next
    case (some pat h pvs)
    then have "ServeMux routes r w = h (r\<lparr>r_path_values := pvs\<rparr>) w"
      by (auto simp: ServeMux_def Let_def split: if_splits)
    with some route_mem [OF some(4)] show ?thesis by (intro handler [of pat h pvs]) simp_all
  qed
qed

end
