(* ===== verification/Server.thy ===== *)
theory Server
  imports Handlers_Basic Handlers_Admin Go_Mux
begin

text \<open>
  The wiring of \<open>cmd/server/main.go\<close>: the route tables, the method dispatch in front of the handlers,
  the middleware around them and the seeding of the first administrator. \<open>ServerHandler\<close> is the
  server's root handler, for any implementation \<open>S\<close> of the store.
\<close>

definition main_jsonError :: "string \<Rightarrow> int \<Rightarrow> response_writer \<Rightarrow> response_writer" where
  "main_jsonError msg code w =
     Write (JsonLine (JObj [(''error'', JStr msg)]))
       (WriteHeader code (Header_Set ''Content-Type'' ''application/json'' w))"

lemma main_jsonError_eq [simp]: "main_jsonError = jsonError"
  by (simp add: fun_eq_iff main_jsonError_def jsonError_def)

section \<open>Method dispatch\<close>

definition projects_route :: "reqenv \<Rightarrow> ('s, 'l) handler" where
  "projects_route E r w =
     (let readProjects = RequirePermission E ''read'' ''project'' ProjectsHandler;
          writeProjects = RequirePermission E ''write'' ''project'' ProjectsHandler;
          deleteProjects = RequirePermission E ''delete'' ''project'' ProjectsHandler
      in if r_method r = ''GET'' then readProjects r w
         else if r_method r = ''POST'' then writeProjects r w
         else if r_method r = ''DELETE'' then deleteProjects r w
         else ProjectsHandler r w)"

definition sessions_route :: "'s store_ops \<Rightarrow> reqenv \<Rightarrow> ('s, 'l) handler" where
  "sessions_route S E r w =
     (if r_method r = ''GET'' then SessionsHandler S E r w
      else if r_method r = ''DELETE'' then DeleteAllSessionsHandler S E r w
      else reply (main_jsonError ''Method not allowed'' StatusMethodNotAllowed) w)"

definition admin_users_route :: "'l libs \<Rightarrow> 's store_ops \<Rightarrow> reqenv \<Rightarrow> ('s, 'l) handler" where
  "admin_users_route L S E r w =
     (if r_method r = ''GET'' then ListUsersHandler S E r w
      else if r_method r = ''POST'' then CreateUserHandler L S E r w
      else reply (main_jsonError ''Method not allowed'' StatusMethodNotAllowed) w)"

definition admin_user_route :: "'l libs \<Rightarrow> 's store_ops \<Rightarrow> reqenv \<Rightarrow> ('s, 'l) handler" where
  "admin_user_route L S E r w =
     (if r_method r = ''GET'' then GetUserHandler S E r w
      else if r_method r = ''PUT'' then UpdateUserHandler L S E r w
      else if r_method r = ''DELETE'' then DeleteUserHandler S r w
      else reply (main_jsonError ''Method not allowed'' StatusMethodNotAllowed) w)"

section \<open>Route tables\<close>

definition protected_routes :: "reqenv \<Rightarrow> (pattern \<times> ('s, 'l) handler) list" where
  "protected_routes E =
     [([Lit ''whoami''], WhoamiHandler),
      ([Lit ''projects''], projects_route E)]"

definition admin_routes :: "'l libs \<Rightarrow> 's store_ops \<Rightarrow> reqenv \<Rightarrow> (pattern \<times> ('s, 'l) handler) list" where
  "admin_routes L S E =
     [([Lit ''admin'', Lit ''users''], admin_users_route L S E),
      ([Lit ''admin'', Lit ''users'', Wild ''id''], admin_user_route L S E)]"

definition main_routes :: "'l libs \<Rightarrow> 's store_ops \<Rightarrow> reqenv \<Rightarrow> (pattern \<times> ('s, 'l) handler) list" where
  "main_routes L S E =
     (let protected = ServeMux (protected_routes E);
          adminHandler = AuthMiddleware L E (RequireRole E ''admin'' (ServeMux (admin_routes L S E)))
      in [([Lit ''health''], HealthHandler),
          ([Lit ''auth'', Lit ''login''], LoginHandler L S E),
          ([Lit ''whoami''], AuthMiddleware L E protected),
          ([Lit ''projects''], AuthMiddleware L E protected),
          ([Lit ''me''], AuthMiddleware L E MeHandler),
          ([Lit ''auth'', Lit ''password''], AuthMiddleware L E (PasswordChangeHandler L S E)),
          ([Lit ''auth'', Lit ''sessions''], AuthMiddleware L E (sessions_route S E)),
          ([Lit ''auth'', Lit ''sessions'', Wild ''id''], AuthMiddleware L E (DeleteSessionHandler S E)),
          ([Lit ''admin'', Rest], adminHandler)])"

definition ServerHandler :: "'l libs \<Rightarrow> 's store_ops \<Rightarrow> reqenv \<Rightarrow> ('s, 'l) handler" where
  "ServerHandler L S E = RequestLogger (ServeMux (main_routes L S E))"

section \<open>Seeding\<close>

definition adminHash :: string where
  "adminHash = ''$2a$10$dv0AcULv0j9unVsTZvIxpeaGYLryIi17tEiiZp./dUm4Ab8fXQvqq''"

text \<open>\<open>Inl\<close> is \<open>log.Fatalf\<close>: the server does not start.\<close>

definition seed_admin :: "'s store_ops \<Rightarrow> senv \<Rightarrow> 's \<Rightarrow> 's res" where
  "seed_admin S e s =
     (case CreateUser S e ''admin'' adminHash ''admin'' s of
        (Inl err, s') \<Rightarrow> if \<not> Contains err ''already exists'' then Inl (''Failed to seed admin user: '' @ err) else Inr s'
      | (Inr _, s') \<Rightarrow> Inr s')"

section \<open>Serving\<close>

text \<open>A run of the server: requests one after the other, each with its own environment and a request context
  without claims.\<close>

definition incoming :: "request \<Rightarrow> request" where
  "incoming r = r\<lparr>r_claims := None, r_path_values := []\<rparr>"

definition serve :: "'l libs \<Rightarrow> 's store_ops \<Rightarrow> reqenv \<times> request \<Rightarrow> ('s, 'l) world \<Rightarrow> ('s, 'l) world" where
  "serve L S = (\<lambda>(E, r). ServerHandler L S E (incoming r))"

fun serve_all ::
  "'l libs \<Rightarrow> 's store_ops \<Rightarrow> (reqenv \<times> request) list \<Rightarrow> ('s, 'l) world \<Rightarrow> ('s, 'l) world" where
  "serve_all L S [] w = w"
| "serve_all L S (q # qs) w = serve_all L S qs (serve L S q w)"

text \<open>
  Requests overlap: only a single call of the store is atomic. A handler looks up first and writes at most once, at the
  end, so a request is a step at the moment of its write whose lookups earlier states of the store have answered.
The first lookup of a handler is answered by the state \<open>first\<close>, the second one, of a session or of the sessions, by
  the state \<open>second\<close>.\<close>

definition overtaken :: "'s \<Rightarrow> 's \<Rightarrow> 's store_ops \<Rightarrow> 's store_ops" where
  "overtaken first second S = S\<lparr>
     GetUser := \<lambda>i _. GetUser S i first,
     GetUserByUsername := \<lambda>e name _. GetUserByUsername S e name first,
     ListUsers := \<lambda>e role _. ListUsers S e role first,
     GetSessionByID := \<lambda>i _. GetSessionByID S i second,
     ListSessionsByUserID := \<lambda>e i _. ListSessionsByUserID S e i second\<rparr>"

lemma overtaken_simps [simp]:
  "GetUser (overtaken s t S) i s' = GetUser S i s"
  "GetUserByUsername (overtaken s t S) e name s' = GetUserByUsername S e name s"
  "GetSessionByID (overtaken s t S) i s' = GetSessionByID S i t"
  "CreateUser (overtaken s t S) = CreateUser S" "UpdateUser (overtaken s t S) = UpdateUser S"
  "DeleteUser (overtaken s t S) = DeleteUser S" "CreateSession (overtaken s t S) = CreateSession S"
  "DeleteSession (overtaken s t S) = DeleteSession S"
  "DeleteSessionsByUserID (overtaken s t S) = DeleteSessionsByUserID S"
  by (simp_all add: overtaken_def)

text \<open>Requests in the order of their writes, each with the positions, among the states of the store so far, of those that
  answer its lookups. The limiter and the audit file see the requests in the same order; elsewhere that is left open
  (\<open>interleaved\<close>).\<close>

fun serve_over :: "'l libs \<Rightarrow> 's store_ops \<Rightarrow> (reqenv \<times> request \<times> nat \<times> nat) list \<Rightarrow>
    's list \<times> ('s, 'l) world \<Rightarrow> 's list \<times> ('s, 'l) world" where
  "serve_over L S [] p = p"
| "serve_over L S ((E, r, i, j) # qs) (past, w) =
     (let w' = serve L (overtaken (past ! i) (past ! j) S) (E, r) w in serve_over L S qs (past @ [h_store w'], w'))"

text \<open>What the clients of a run see.\<close>

fun responses ::
  "'l libs \<Rightarrow> 's store_ops \<Rightarrow> (reqenv \<times> request) list \<Rightarrow> ('s, 'l) world \<Rightarrow> response_writer list" where
  "responses L S [] w = []"
| "responses L S (q # qs) w = h_out (serve L S q w) # responses L S qs (serve L S q w)"

definition new_world :: "'s \<Rightarrow> 'l \<Rightarrow> ('s, 'l) world" where
  "new_world s lim = \<lparr>h_store = s, h_limiter = lim, h_audit = [], h_out = new_writer,
     h_panic = False, h_requests = []\<rparr>"

section \<open>The tables are unambiguous\<close>

fun disjoint_patterns :: "pattern \<Rightarrow> pattern \<Rightarrow> bool" where
  "disjoint_patterns (Lit a # p) (Lit b # q) = (a \<noteq> b \<or> disjoint_patterns p q)"
| "disjoint_patterns [] (_ # _) = True"
| "disjoint_patterns (_ # _) [] = True"
| "disjoint_patterns _ _ = False"

lemma disjoint_patterns:
  "disjoint_patterns p q \<Longrightarrow> match_pattern p path \<noteq> None \<Longrightarrow> match_pattern q path = None"
proof (induction p q arbitrary: path rule: disjoint_patterns.induct)
  case (1 a p b q)
  then show ?case
    by (auto simp: Let_def split: if_splits prod.splits)
qed (auto split: if_splits)

fun pairwise_disjoint :: "pattern list \<Rightarrow> bool" where
  "pairwise_disjoint [] = True"
| "pairwise_disjoint (p # ps) = ((\<forall>q \<in> set ps. disjoint_patterns p q) \<and> pairwise_disjoint ps)"

lemma main_routes_disjoint: "pairwise_disjoint (map fst (main_routes L S E))"
  by (simp add: main_routes_def Let_def)

lemma route_unique:
  "pairwise_disjoint (map fst rs) \<Longrightarrow> (pat, h) \<in> set rs \<Longrightarrow> match_pattern pat path = Some pvs \<Longrightarrow>
    route rs path = Some (pat, h, pvs)"
proof (induction rs)
  case (Cons x rs)
  obtain p k where x: "x = (p, k)" by (cases x)
  show ?case
  proof (cases "(pat, h) = x")
    case False
    with Cons.prems x have "pat \<in> fst ` set rs" "(pat, h) \<in> set rs" by force+
    with Cons.prems have "match_pattern p path = None"
      by (auto simp: x dest!: bspec dest: disjoint_patterns split: option.splits)
    with Cons.IH Cons.prems \<open>(pat, h) \<in> set rs\<close> show ?thesis by (simp add: x)
  qed (use Cons.prems x in auto)
qed simp

end
