(* ===== verification/Mem_Store.thy ===== *)
theory Mem_Store
  imports Store_Iface
begin

text \<open>
  \<open>InMemoryStore\<close> (\<open>internal/store/store.go\<close>): two Go maps and two counters behind one mutex. Each
  method is one definition with the code's loops and error messages; \<open>mem_ops\<close> collects them into
  a \<open>Store\<close>. The invariant \<open>mem_inv\<close> says that keys are the IDs of the entries, below the counters,
  and that no two users have one name; under it the store keeps the contract \<open>store\<close>.

  Users are values here. In Go, \<open>GetUserByUsername\<close> and the other lookups return the pointer to the stored user, which
  \<open>UpdateUser\<close> changes in place. While one request is served alone nothing tells the difference: no handler reads a
  user it looked up after its own update of it but through the result of that update. It would matter for handlers that
  overlap; what is stated about those is stated over \<open>SQLiteStore\<close>, the store that \<open>main\<close> deploys.
\<close>

record mem =
  m_users :: "user gomap"
  m_nextID :: int
  m_sessions :: "session gomap"
  m_nextSessionID :: int

definition NewInMemoryStore :: mem where
  "NewInMemoryStore = \<lparr>m_users = [], m_nextID = 1, m_sessions = [], m_nextSessionID = 1\<rparr>"

section \<open>Users\<close>

definition mem_CreateUser :: "senv \<Rightarrow> string \<Rightarrow> string \<Rightarrow> string \<Rightarrow> mem \<Rightarrow> user res \<times> mem" where
  "mem_CreateUser e username passwordHash role s =
     (if \<exists>(_, u) \<in> set (shuffle (se_order e) (m_users s)). U_Username u = username then
        (Inl (''user with username '' @ [CHR 0x27] @ username @ [CHR 0x27] @ '' already exists''), s)
      else
        (let now = se_now e;
             user = \<lparr>U_ID = m_nextID s, U_Username = username, U_PasswordHash = passwordHash,
                     U_Role = role, U_CreatedAt = now, U_UpdatedAt = now\<rparr>
         in (Inr user,
             s\<lparr>m_users := AList.update (m_nextID s) user (m_users s),
               m_nextID := wrap64 (m_nextID s + 1)\<rparr>)))"

definition mem_GetUser :: "int \<Rightarrow> mem \<Rightarrow> user res" where
  "mem_GetUser i s =
     (case map_of (m_users s) i of
        None \<Rightarrow> Inl (''user with ID '' @ show_int i @ '' not found'')
      | Some user \<Rightarrow> Inr user)"

definition mem_GetUserByUsername :: "senv \<Rightarrow> string \<Rightarrow> mem \<Rightarrow> user res" where
  "mem_GetUserByUsername e username s =
     (case find (\<lambda>(_, u). U_Username u = username) (shuffle (se_order e) (m_users s)) of
        Some (_, u) \<Rightarrow> Inr u
      | None \<Rightarrow> Inl (''user with username '' @ [CHR 0x27] @ username @ [CHR 0x27] @ '' not found''))"

definition mem_ListUsers :: "senv \<Rightarrow> string \<Rightarrow> mem \<Rightarrow> user list res" where
  "mem_ListUsers e role s =
     Inr (filter (\<lambda>u. role = [] \<or> U_Role u = role) (map snd (shuffle (se_order e) (m_users s))))"

definition mem_UpdateUser ::
  "senv \<Rightarrow> int \<Rightarrow> string \<Rightarrow> string \<Rightarrow> string \<Rightarrow> mem \<Rightarrow> user res \<times> mem" where
  "mem_UpdateUser e i username passwordHash role s =
     (case map_of (m_users s) i of
        None \<Rightarrow> (Inl (''user with ID '' @ show_int i @ '' not found for update''), s)
      | Some user \<Rightarrow>
          if \<exists>(_, u) \<in> set (shuffle (se_order e) (m_users s)). U_Username u = username \<and> U_ID u \<noteq> i
          then (Inl (''username '' @ [CHR 0x27] @ username @ [CHR 0x27]
                       @ '' is already taken by another user''), s)
          else
            (let user' = user\<lparr>U_Username := username, U_PasswordHash := passwordHash,
                              U_Role := role, U_UpdatedAt := se_now e\<rparr>
             in (Inr user', s\<lparr>m_users := AList.update i user' (m_users s)\<rparr>)))"

definition mem_DeleteUser :: "int \<Rightarrow> mem \<Rightarrow> unit res \<times> mem" where
  "mem_DeleteUser i s =
     (case map_of (m_users s) i of
        None \<Rightarrow> (Inl (''user with ID '' @ show_int i @ '' not found for deletion''), s)
      | Some _ \<Rightarrow> (Inr (), s\<lparr>m_users := AList.delete i (m_users s)\<rparr>))"

section \<open>Sessions\<close>

definition mem_CreateSession ::
  "senv \<Rightarrow> int \<Rightarrow> string \<Rightarrow> string \<Rightarrow> duration \<Rightarrow> mem \<Rightarrow> session res \<times> mem" where
  "mem_CreateSession e userID username role ttl s =
     (if ttl \<le> 0 then (Inl (''session TTL must be positive, got '' @ Duration_String ttl), s)
      else case se_rand e of
          Inl err \<Rightarrow> (Inl (''failed to generate session token: '' @ err), s)
        | Inr b \<Rightarrow>
            (let now = se_now e;
                 session = \<lparr>S_ID = m_nextSessionID s, S_UserID = userID, S_Username = username,
                            S_Role = role, S_Token = EncodeToString b, S_CreatedAt = now,
                            S_ExpiresAt = now + ttl\<rparr>
             in (Inr session,
                 s\<lparr>m_sessions := AList.update (m_nextSessionID s) session (m_sessions s),
                   m_nextSessionID := wrap64 (m_nextSessionID s + 1)\<rparr>)))"

definition mem_GetSessionByToken :: "senv \<Rightarrow> string \<Rightarrow> mem \<Rightarrow> session res" where
  "mem_GetSessionByToken e token s =
     (case find (\<lambda>(_, x). S_Token x = token) (shuffle (se_order e) (m_sessions s)) of
        Some (_, x) \<Rightarrow> Inr x
      | None \<Rightarrow> Inl ''session not found'')"

definition mem_GetSessionByID :: "int \<Rightarrow> mem \<Rightarrow> session res" where
  "mem_GetSessionByID i s =
     (case map_of (m_sessions s) i of
        None \<Rightarrow> Inl (''session with ID '' @ show_int i @ '' not found'')
      | Some session \<Rightarrow> Inr session)"

definition mem_DeleteSession :: "int \<Rightarrow> mem \<Rightarrow> unit res \<times> mem" where
  "mem_DeleteSession i s =
     (case map_of (m_sessions s) i of
        None \<Rightarrow> (Inl (''session with ID '' @ show_int i @ '' not found for deletion''), s)
      | Some _ \<Rightarrow> (Inr (), s\<lparr>m_sessions := AList.delete i (m_sessions s)\<rparr>))"

definition mem_DeleteSessionsByUserID :: "senv \<Rightarrow> int \<Rightarrow> string \<Rightarrow> mem \<Rightarrow> unit res \<times> mem" where
  "mem_DeleteSessionsByUserID e userID excludeToken s =
     (Inr (),
      s\<lparr>m_sessions := delete_where (se_order e)
          (\<lambda>x. S_UserID x = userID \<and> S_Token x \<noteq> excludeToken) (m_sessions s)\<rparr>)"

text \<open>
  \<open>sort.Slice\<close> is not stable, and it starts from a list in the map's arbitrary order: the results it
  can return are the stable sorts of the permutations of that list.
\<close>

definition mem_ListSessionsByUserID :: "senv \<Rightarrow> int \<Rightarrow> mem \<Rightarrow> session list res" where
  "mem_ListSessionsByUserID e userID s =
     (let now = se_now e;
          xs = filter (\<lambda>x. S_UserID x = userID \<and> now < S_ExpiresAt x)
                 (map snd (shuffle (se_order e) (m_sessions s)))
      in Inr (sort_key (\<lambda>x. - S_CreatedAt x) xs))"

definition mem_DeleteExpiredSessions :: "senv \<Rightarrow> mem \<Rightarrow> int res \<times> mem" where
  "mem_DeleteExpiredSessions e s =
     (let now = se_now e; expired = (\<lambda>x. S_ExpiresAt x < now)
      in (Inr (fold (\<lambda>(_, x) count. if expired x then count + 1 else count)
                 (shuffle (se_order e) (m_sessions s)) 0),
          s\<lparr>m_sessions := delete_where (se_order e) expired (m_sessions s)\<rparr>))"

definition mem_ops :: "mem store_ops" where
  "mem_ops =
     \<lparr>CreateUser = mem_CreateUser, GetUser = mem_GetUser, GetUserByUsername = mem_GetUserByUsername,
      ListUsers = mem_ListUsers, UpdateUser = mem_UpdateUser, DeleteUser = mem_DeleteUser,
      CreateSession = mem_CreateSession, GetSessionByToken = mem_GetSessionByToken,
      GetSessionByID = mem_GetSessionByID, DeleteSession = mem_DeleteSession,
      DeleteSessionsByUserID = mem_DeleteSessionsByUserID,
      ListSessionsByUserID = mem_ListSessionsByUserID,
      DeleteExpiredSessions = mem_DeleteExpiredSessions\<rparr>"

lemmas mem_user_defs = mem_CreateUser_def mem_GetUser_def mem_GetUserByUsername_def
  mem_ListUsers_def mem_UpdateUser_def mem_DeleteUser_def
lemmas mem_session_defs = mem_CreateSession_def mem_GetSessionByToken_def mem_GetSessionByID_def
  mem_DeleteSession_def mem_DeleteSessionsByUserID_def mem_ListSessionsByUserID_def
  mem_DeleteExpiredSessions_def

lemmas [store_defs] = mem_user_defs mem_session_defs mem_ops_def

section \<open>The invariant\<close>

definition unique_on :: "('a \<Rightarrow> 'b) \<Rightarrow> 'a gomap \<Rightarrow> bool" where
  "unique_on f m \<longleftrightarrow> (\<forall>(i, a) \<in> set m. \<forall>(j, b) \<in> set m. f a = f b \<longrightarrow> i = j)"

definition keyed :: "('a \<Rightarrow> int) \<Rightarrow> int \<Rightarrow> 'a gomap \<Rightarrow> bool" where
  "keyed f n m \<longleftrightarrow> distinct (map fst m) \<and> (\<forall>(i, a) \<in> set m. f a = i \<and> 0 < i \<and> i < n)"

definition mem_inv :: "nat \<Rightarrow> mem \<Rightarrow> bool" where
  "mem_inv l s \<longleftrightarrow> keyed U_ID (m_nextID s) (m_users s) \<and> unique_on U_Username (m_users s)
     \<and> keyed S_ID (m_nextSessionID s) (m_sessions s)
     \<and> 1 \<le> m_nextID s \<and> 1 \<le> m_nextSessionID s
     \<and> m_nextID s + int l < 2 ^ 63 \<and> m_nextSessionID s + int l < 2 ^ 63"

lemma keyed_iff:
  "keyed f n m \<longleftrightarrow> distinct (map fst m) \<and> (\<forall>i a. map_of m i = Some a \<longrightarrow> f a = i \<and> 0 < i \<and> i < n)"
proof (cases "distinct (map fst m)")
  case True
  then have "(i, a) \<in> set m \<longleftrightarrow> map_of m i = Some a" for i a by simp
  with True show ?thesis by (auto simp: keyed_def)
qed (simp add: keyed_def)

lemma unique_on_iff:
  "distinct (map fst m) \<Longrightarrow>
    unique_on f m \<longleftrightarrow> (\<forall>i j a b. map_of m i = Some a \<longrightarrow> map_of m j = Some b \<longrightarrow> f a = f b \<longrightarrow> i = j)"
  by (auto simp: unique_on_def)

lemma keyed_distinct: "keyed f n m \<Longrightarrow> distinct (map fst m)"
  by (simp add: keyed_def)

lemma keyed_get: "keyed f n m \<Longrightarrow> map_of m i = Some a \<Longrightarrow> f a = i \<and> 0 < i \<and> i < n"
  by (simp add: keyed_iff)

lemma keyed_fresh: "keyed f n m \<Longrightarrow> map_of m n = None"
  using keyed_get [of f n m n] by (cases "map_of m n") auto

lemma keyed_insert:
  "keyed f n m \<Longrightarrow> 1 \<le> n \<Longrightarrow> f a = n \<Longrightarrow> keyed f (n + 1) (AList.update n a m)"
  by (force simp: keyed_iff distinct_update)

lemma keyed_update:
  "keyed f n m \<Longrightarrow> map_of m i \<noteq> None \<Longrightarrow> f a = i \<Longrightarrow> keyed f n (AList.update i a m)"
  by (auto simp: keyed_iff distinct_update)

lemma keyed_delete: "keyed f n m \<Longrightarrow> keyed f n (AList.delete i m)"
  by (auto simp: keyed_iff distinct_delete)

lemma keyed_filter: "keyed f n m \<Longrightarrow> keyed f n (filter P m)"
  by (auto simp: keyed_def)

lemma unique_update:
  assumes "distinct (map fst m)" "unique_on f m" "\<And>j b. map_of m j = Some b \<Longrightarrow> f b = f a \<Longrightarrow> j = i"
  shows "unique_on f (AList.update i a m)"
proof -
  have u: "\<And>j k b c. map_of m j = Some b \<Longrightarrow> map_of m k = Some c \<Longrightarrow> f b = f c \<Longrightarrow> j = k"
    using assms(1,2) by (simp add: unique_on_iff)
  have d: "distinct (map fst (AList.update i a m))" using assms(1) by (rule distinct_update)
  show ?thesis unfolding unique_on_iff [OF d]
    using u assms(3) by (auto split: if_splits)
qed

lemma unique_delete: "unique_on f m \<Longrightarrow> unique_on f (AList.delete i m)"
  by (auto simp: unique_on_def AList.delete_eq)

lemma map_of_filter_snd:
  "distinct (map fst m) \<Longrightarrow>
    map_of (filter (\<lambda>(k, v). P v) m) i = (case map_of m i of None \<Rightarrow> None | Some v \<Rightarrow> if P v then Some v else None)"
  by (induction m) (auto simp: map_of_eq_None_iff image_iff split: option.splits)

lemma ex_value: "distinct (map fst m) \<Longrightarrow> (\<exists>(_, a) \<in> set m. P a) \<longleftrightarrow> (\<exists>i a. map_of m i = Some a \<and> P a)"
  by auto

lemma mem_inv_New: "l < 2 ^ 63 - 1 \<Longrightarrow> mem_inv l NewInMemoryStore"
  by (simp add: mem_inv_def NewInMemoryStore_def keyed_def unique_on_def)

section \<open>Each operation under the invariant\<close>

lemma mem_invD:
  assumes "mem_inv l s"
  shows "distinct (map fst (m_users s))" "distinct (map fst (m_sessions s))"
    "\<And>i u. map_of (m_users s) i = Some u \<Longrightarrow> U_ID u = i \<and> 0 < i"
    "\<And>i j u v. map_of (m_users s) i = Some u \<Longrightarrow> map_of (m_users s) j = Some v \<Longrightarrow>
      U_Username u = U_Username v \<Longrightarrow> i = j"
    "\<And>i x. map_of (m_sessions s) i = Some x \<Longrightarrow> S_ID x = i \<and> 0 < i"
proof -
  show d: "distinct (map fst (m_users s))" "distinct (map fst (m_sessions s))"
    using assms by (auto simp: mem_inv_def dest: keyed_distinct)
  show "\<And>i u. map_of (m_users s) i = Some u \<Longrightarrow> U_ID u = i \<and> 0 < i"
    "\<And>i x. map_of (m_sessions s) i = Some x \<Longrightarrow> S_ID x = i \<and> 0 < i"
    using assms by (auto simp: mem_inv_def dest: keyed_get)
  show "\<And>i j u v. map_of (m_users s) i = Some u \<Longrightarrow> map_of (m_users s) j = Some v \<Longrightarrow>
      U_Username u = U_Username v \<Longrightarrow> i = j"
    using assms d(1) by (simp add: mem_inv_def unique_on_iff)
qed

lemma mem_CreateUser_ok:
  assumes "mem_inv (Suc l) s" "mem_CreateUser e n h r s = (Inr u, s')"
  shows "mem_inv l s' \<and> map_of (m_users s) (U_ID u) = None \<and> (\<forall>v \<in> ran (map_of (m_users s)). U_Username v \<noteq> n)
      \<and> u = \<lparr>U_ID = U_ID u, U_Username = n, U_PasswordHash = h, U_Role = r,
              U_CreatedAt = se_now e, U_UpdatedAt = se_now e\<rparr>
      \<and> map_of (m_users s') = (map_of (m_users s))(U_ID u \<mapsto> u) \<and> m_sessions s' = m_sessions s"
proof -
  note inv = mem_invD [OF assms(1)]
  let ?k = "m_nextID s"
  from assms(2) have new: "\<And>v. v \<in> ran (map_of (m_users s)) \<Longrightarrow> U_Username v \<noteq> n"
    and u: "u = \<lparr>U_ID = ?k, U_Username = n, U_PasswordHash = h, U_Role = r,
              U_CreatedAt = se_now e, U_UpdatedAt = se_now e\<rparr>"
    and s': "s' = s\<lparr>m_users := AList.update ?k u (m_users s), m_nextID := wrap64 (?k + 1)\<rparr>"
    by (auto simp: mem_CreateUser_def Let_def ran_map_of [OF inv(1)] split: if_splits)
  have k: "keyed U_ID ?k (m_users s)" "1 \<le> ?k" "wrap64 (?k + 1) = ?k + 1"
    using assms(1) by (auto simp: mem_inv_def intro: wrap64_succ)
  have new': "map_of (m_users s) j = Some b \<Longrightarrow> U_Username b \<noteq> n" for j b
    by (rule new) (rule ranI)
  have "mem_inv l s'"
    using assms(1) k new'
    by (auto simp: mem_inv_def s' u intro!: keyed_insert unique_update inv(1))
  with new k show ?thesis by (simp add: s' u keyed_fresh)
qed

lemma mem_UpdateUser_ok:
  assumes "mem_inv l s" "mem_UpdateUser e i n h r s = (Inr u, s')"
  shows "(\<exists>v. map_of (m_users s) i = Some v
        \<and> u = v\<lparr>U_Username := n, U_PasswordHash := h, U_Role := r, U_UpdatedAt := se_now e\<rparr>)
      \<and> (\<forall>j w. map_of (m_users s) j = Some w \<longrightarrow> U_Username w = n \<longrightarrow> j = i)
      \<and> mem_inv l s' \<and> map_of (m_users s') = (map_of (m_users s))(i \<mapsto> u) \<and> m_sessions s' = m_sessions s"
proof -
  note inv = mem_invD [OF assms(1)]
  from assms(2) obtain v where v: "map_of (m_users s) i = Some v"
    and u: "u = v\<lparr>U_Username := n, U_PasswordHash := h, U_Role := r, U_UpdatedAt := se_now e\<rparr>"
    and s': "s' = s\<lparr>m_users := AList.update i u (m_users s)\<rparr>"
    and no: "\<not> (\<exists>(_, u) \<in> set (m_users s). U_Username u = n \<and> U_ID u \<noteq> i)"
    by (auto simp: mem_UpdateUser_def Let_def split: option.splits if_splits)
  have no': "j = i" if "map_of (m_users s) j = Some w" "U_Username w = n" for j w
    using no inv(3) [OF that(1)] that by (auto dest!: map_of_SomeD)
  have "mem_inv l s'"
    using assms(1) v no' inv(3) [OF v]
    by (auto simp: mem_inv_def s' u intro!: keyed_update unique_update inv(1))
  with v no' show ?thesis by (auto simp: s' u)
qed

lemma mem_CreateSession_ok:
  assumes "mem_inv (Suc l) s" "mem_CreateSession e uid n r ttl s = (Inr x, s')"
  shows "mem_inv l s' \<and> map_of (m_sessions s) (S_ID x) = None
      \<and> (\<exists>b. se_rand e = Inr b
        \<and> x = \<lparr>S_ID = S_ID x, S_UserID = uid, S_Username = n, S_Role = r, S_Token = EncodeToString b,
                S_CreatedAt = se_now e, S_ExpiresAt = se_now e + ttl\<rparr>)
      \<and> map_of (m_sessions s') = (map_of (m_sessions s))(S_ID x \<mapsto> x) \<and> m_users s' = m_users s"
proof -
  let ?k = "m_nextSessionID s"
  from assms(2) obtain b where b: "se_rand e = Inr b"
    and x: "x = \<lparr>S_ID = ?k, S_UserID = uid, S_Username = n, S_Role = r, S_Token = EncodeToString b,
                S_CreatedAt = se_now e, S_ExpiresAt = se_now e + ttl\<rparr>"
    and s': "s' = s\<lparr>m_sessions := AList.update ?k x (m_sessions s), m_nextSessionID := wrap64 (?k + 1)\<rparr>"
    by (auto simp: mem_CreateSession_def Let_def split: if_splits sum.splits)
  have k: "keyed S_ID ?k (m_sessions s)" "1 \<le> ?k" "wrap64 (?k + 1) = ?k + 1"
    using assms(1) by (auto simp: mem_inv_def intro: wrap64_succ)
  have "mem_inv l s'" using assms(1) k by (auto simp: mem_inv_def s' x intro!: keyed_insert)
  with b k show ?thesis by (simp add: s' x keyed_fresh)
qed

section \<open>The store keeps the contract\<close>

lemma stored_id [simp]: "stored_user (\<lambda>t. t) u = u" "stored_session (\<lambda>t. t) x = x"
  by (simp_all add: stored_user_def stored_session_def)

lemma mem_find_user:
  assumes "mem_inv l s" "map_of (m_users s) i = Some u"
  shows "find (\<lambda>(_, v). U_Username v = U_Username u) (shuffle ks (m_users s)) = Some (i, u)"
proof (rule find_the)
  note inv = mem_invD [OF assms(1)]
  show "(i, u) \<in> set (shuffle ks (m_users s))" using assms(2) by (simp add: map_of_SomeD)
  fix y assume y: "y \<in> set (shuffle ks (m_users s))" "case y of (_, v) \<Rightarrow> U_Username v = U_Username u"
  obtain j v where "y = (j, v)" by (cases y)
  with y have "map_of (m_users s) j = Some v" "U_Username v = U_Username u" using inv(1) by auto
  with inv(4) assms(2) show "y = (i, u)" by (metis \<open>y = (j, v)\<close> option.inject)
qed simp

lemma mem_list_set:
  assumes "distinct (map fst m)"
  shows "set (filter P (map snd (shuffle ks m))) = {a \<in> ran (map_of m). P a}"
  by (auto simp: ran_map_of [OF assms])

lemma distinct_values:
  assumes "keyed f n m" shows "distinct (map snd (shuffle ks m))"
proof -
  have "inj_on snd (set m)"
  proof (rule inj_onI)
    fix p q assume "p \<in> set m" "q \<in> set m" "snd p = snd q"
    moreover from this assms have "f (snd p) = fst p" "f (snd q) = fst q"
      by (auto simp: keyed_def)
    ultimately show "p = q" by (metis prod_eq_iff)
  qed
  moreover have "distinct m" using assms by (auto simp: keyed_def distinct_map)
  ultimately show ?thesis by (simp add: distinct_map)
qed

lemma count_loop:
  "fold (\<lambda>(_, x) c. if P x then c + 1 else c) xs (k :: int) = k + int (length (filter (\<lambda>(_, x). P x) xs))"
  by (induction xs arbitrary: k) auto

lemma count_keys:
  assumes "distinct (map fst m)"
  shows "length (filter (\<lambda>(_, x). P x) (shuffle ks m)) = card {i. \<exists>x. map_of m i = Some x \<and> P x}"
proof -
  have "mset (filter (\<lambda>(_, x). P x) (shuffle ks m)) = mset (filter (\<lambda>(_, x). P x) m)"
    by (simp add: mset_filter)
  then have "length (filter (\<lambda>(_, x). P x) (shuffle ks m)) = length (filter (\<lambda>(_, x). P x) m)"
    by (rule mset_eq_length)
  also have "\<dots> = card (fst ` set (filter (\<lambda>(_, x). P x) m))"
    using distinct_card [of "map fst (filter (\<lambda>(_, x). P x) m)"] assms by simp
  also have "fst ` set (filter (\<lambda>(_, x). P x) m) = {i. \<exists>x. map_of m i = Some x \<and> P x}"
    using assms by force
  finally show ?thesis .
qed

lemma mem_ListUsers_ok:
  assumes "mem_inv l s" "mem_ListUsers e r s = Inr us"
  shows "distinct us \<and> set us = {u \<in> ran (map_of (m_users s)). r = [] \<or> U_Role u = r}"
proof -
  have "keyed U_ID (m_nextID s) (m_users s)" using assms(1) by (simp add: mem_inv_def)
  then have "distinct (map snd (shuffle (se_order e) (m_users s)))" by (rule distinct_values)
  moreover have us: "us = filter (\<lambda>u. r = [] \<or> U_Role u = r) (map snd (shuffle (se_order e) (m_users s)))"
    using assms(2) by (simp add: mem_ListUsers_def)
  ultimately have "distinct us" by (simp only: us distinct_filter)
  moreover have "set us = {u \<in> ran (map_of (m_users s)). r = [] \<or> U_Role u = r}"
    unfolding us by (rule mem_list_set) (rule mem_invD [OF assms(1)])
  ultimately show ?thesis by simp
qed

lemma mem_list_sessions_ok:
  assumes "mem_inv l s" "mem_ListSessionsByUserID e uid s = Inr xs"
  shows "distinct xs \<and> sorted_wrt (\<lambda>x y. S_CreatedAt y \<le> S_CreatedAt x) xs
      \<and> set xs = {x \<in> ran (map_of (m_sessions s)). S_UserID x = uid \<and> se_now e < S_ExpiresAt x}"
proof -
  define P where "P = (\<lambda>x :: session. S_UserID x = uid \<and> se_now e < S_ExpiresAt x)"
  define ys where "ys = filter P (map snd (shuffle (se_order e) (m_sessions s)))"
  have xs: "xs = sort_key (\<lambda>x. - S_CreatedAt x) ys"
    using assms(2) by (simp add: mem_ListSessionsByUserID_def Let_def ys_def P_def)
  have "keyed S_ID (m_nextSessionID s) (m_sessions s)" using assms(1) by (simp add: mem_inv_def)
  then have "distinct ys" unfolding ys_def by (intro distinct_filter distinct_values)
  moreover have "sorted_wrt (\<lambda>x y. S_CreatedAt y \<le> S_CreatedAt x) xs"
    using sorted_sort_key [of "\<lambda>x. - S_CreatedAt x" ys] by (simp add: xs sorted_map)
  moreover have "set ys = {x \<in> ran (map_of (m_sessions s)). P x}"
    unfolding ys_def by (rule mem_list_set) (rule mem_invD [OF assms(1)])
  ultimately show ?thesis by (simp add: xs P_def)
qed

lemma mem_DeleteExpiredSessions_ok:
  assumes "mem_inv l s" "mem_DeleteExpiredSessions e s = (Inr k, s')"
  shows "mem_inv l s' \<and> m_users s' = m_users s
      \<and> map_of (m_sessions s') = (\<lambda>i. case map_of (m_sessions s) i of None \<Rightarrow> None
          | Some x \<Rightarrow> if S_ExpiresAt x < se_now e then None else Some x)
      \<and> k = int (card {i. \<exists>x. map_of (m_sessions s) i = Some x \<and> S_ExpiresAt x < se_now e})"
proof -
  note inv = mem_invD [OF assms(1)]
  have s': "s' = s\<lparr>m_sessions := filter (\<lambda>(_, x). \<not> S_ExpiresAt x < se_now e) (m_sessions s)\<rparr>"
    and k: "k = int (length (filter (\<lambda>(_, x). S_ExpiresAt x < se_now e) (shuffle (se_order e) (m_sessions s))))"
    using assms(2)
    by (auto simp: mem_DeleteExpiredSessions_def Let_def delete_where_filter [OF inv(2)] count_loop)
  have "mem_inv l s'" using assms(1) by (auto simp: mem_inv_def s' intro: keyed_filter)
  moreover have "map_of (m_sessions s') = (\<lambda>i. case map_of (m_sessions s) i of None \<Rightarrow> None
          | Some x \<Rightarrow> if S_ExpiresAt x < se_now e then None else Some x)"
    by (auto simp: s' fun_eq_iff map_of_filter_snd [OF inv(2)] split: option.splits)
  ultimately show ?thesis by (simp add: s' k count_keys [OF inv(2)])
qed

lemma mem_DeleteSessionsByUserID_ok:
  assumes "mem_inv l s" "mem_DeleteSessionsByUserID e uid t s = (y, s')"
  shows "mem_inv l s' \<and> m_users s' = m_users s
      \<and> map_of (m_sessions s') = (\<lambda>i. case map_of (m_sessions s) i of None \<Rightarrow> None
          | Some x \<Rightarrow> if S_UserID x = uid \<and> S_Token x \<noteq> t then None else Some x)"
proof -
  note inv = mem_invD [OF assms(1)]
  have s': "s' = s\<lparr>m_sessions := filter (\<lambda>(_, x). \<not> (S_UserID x = uid \<and> S_Token x \<noteq> t)) (m_sessions s)\<rparr>"
    using assms(2) by (auto simp: mem_DeleteSessionsByUserID_def delete_where_filter [OF inv(2)])
  have "mem_inv l s'" using assms(1) by (auto simp: mem_inv_def s' intro: keyed_filter)
  then show ?thesis
    by (auto simp: s' fun_eq_iff map_of_filter_snd [OF inv(2)] split: option.splits)
qed

interpretation mem: store mem_ops mem_inv "\<lambda>_. True" "\<lambda>_. True" "\<lambda>t. t"
  "\<lambda>s. map_of (m_users s)" "\<lambda>s. map_of (m_sessions s)"
proof (unfold_locales, goal_cases)
  case 1 then show ?case by (auto simp: mem_inv_def)
next
  case (2 l s i u) then show ?case by (rule mem_invD(3))
next
  case (3 l s i u j v) then show ?case by (rule mem_invD(4))
next
  case (4 l s i x) then show ?case by (rule mem_invD(5))
next
  case (5 l s e n h r u s') then show ?case
    using mem_CreateUser_ok [of l s e n h r u s'] by (simp add: mem_ops_def)
next
  case (6 l s e n h r m s') then show ?case
    by (auto simp: mem_ops_def mem_CreateUser_def Let_def split: if_splits)
next
  case (7 l s v n e h r) then show ?case
    by (auto simp: mem_ops_def mem_CreateUser_def ran_map_of [OF mem_invD(1)])
next
  case (8 l s n e h r) then show ?case
    by (auto simp: mem_ops_def mem_CreateUser_def ran_map_of [OF mem_invD(1)] Let_def)
next
  case (9 l s i u) then show ?case by (simp add: mem_ops_def mem_GetUser_def split: option.splits)
next
  case (10 l s i u) then show ?case by (simp add: mem_ops_def mem_GetUser_def)
next
  case (11 l s i) then show ?case
    by (auto simp: mem_ops_def mem_GetUser_def)
next
  case (12 l s e n u) then show ?case
    using mem_invD [OF 12(1)]
    by (auto simp: mem_ops_def mem_GetUserByUsername_def split: option.splits dest!: find_shuffle_SomeD)
next
  case (13 l s i u n e) then show ?case
    using mem_find_user [OF 13(1) 13(3)] by (simp add: mem_ops_def mem_GetUserByUsername_def)
next
  case (14 l s e r us) then show ?case
    using mem_ListUsers_ok by (simp add: mem_ops_def)
next
  case 15 then show ?case by (simp add: mem_ops_def mem_ListUsers_def)
next
  case (16 l s e i n h r u s') then show ?case
    using mem_UpdateUser_ok [of l s e i n h r u s'] by (simp add: mem_ops_def)
next
  case 17 then show ?case
    by (auto simp: mem_ops_def mem_UpdateUser_def Let_def split: if_splits option.splits)
next
  case (18 l s e i j w n h r)
  then have "(j, w) \<in> set (m_users s)" "U_ID w \<noteq> i"
    using mem_invD(3) [OF 18(1)] by (auto dest: map_of_SomeD)
  with 18 show ?case by (auto simp: mem_ops_def mem_UpdateUser_def)
next
  case (19 l s e i n h r)
  then have "\<not> (\<exists>(j, u) \<in> set (m_users s). U_Username u = n \<and> U_ID u \<noteq> i)"
    using mem_invD(1,3) [OF 19(1)] by auto
  with 19 show ?case by (auto simp: mem_ops_def mem_UpdateUser_def Let_def)
next
  case (20 l s i y s') then show ?case
    by (auto simp: mem_ops_def mem_DeleteUser_def mem_inv_def intro: keyed_delete unique_delete
      split: option.splits)
next
  case 21 then show ?case by (auto simp: mem_ops_def mem_DeleteUser_def split: option.splits)
next
  case (22 l s e ttl uid n r x s') then show ?case
    using mem_CreateSession_ok [of l s e uid n r ttl x s'] by (simp add: mem_ops_def)
next
  case 23 then show ?case
    by (auto simp: mem_ops_def mem_CreateSession_def Let_def split: if_splits sum.splits)
next
  case 24 then show ?case by (auto simp: mem_ops_def mem_CreateSession_def Let_def)
next
  case 25 then show ?case by (simp add: mem_ops_def mem_GetSessionByID_def split: option.splits)
next
  case 26 then show ?case by (simp add: mem_ops_def mem_GetSessionByID_def)
next
  case (27 l s e t x) then show ?case
    using mem_invD [OF 27(1)]
    by (auto simp: mem_ops_def mem_GetSessionByToken_def split: option.splits dest!: find_shuffle_SomeD)
next
  case (28 l s i x t e)
  then have "find (\<lambda>(_, x). S_Token x = t) (shuffle (se_order e) (m_sessions s)) \<noteq> None"
    by (auto simp: find_None_iff dest: map_of_SomeD)
  then show ?case by (auto simp: mem_ops_def mem_GetSessionByToken_def)
next
  case 29 then show ?case
    by (auto simp: mem_ops_def mem_DeleteSession_def mem_inv_def intro: keyed_delete split: option.splits)
next
  case 30 then show ?case by (auto simp: mem_ops_def mem_DeleteSession_def split: option.splits)
next
  case (31 l s e uid t y s') then show ?case
    using mem_DeleteSessionsByUserID_ok [of l s e uid t "Inr y" s'] by (simp add: mem_ops_def)
next
  case 32 then show ?case by (simp add: mem_ops_def mem_DeleteSessionsByUserID_def)
next
  case 33 then show ?case using mem_list_sessions_ok by (simp add: mem_ops_def)
next
  case 34 then show ?case by (simp add: mem_ops_def mem_ListSessionsByUserID_def Let_def)
next
  case (35 l s e k s') then show ?case
    using mem_DeleteExpiredSessions_ok [of l s e k s'] by (simp add: mem_ops_def)
qed

end
