(* ===== verification/Auth_Facts.thy ===== *)
theory Auth_Facts
  imports Server Mem_Store
begin

text \<open>
  What the handlers of \<open>Handlers_Auth\<close> do, proved once for every store that keeps the contract
  \<open>store\<close>: the reply and the effect on the stored users and sessions, on the accepting path and on
  the others.
\<close>


definition good_env :: "(instant \<Rightarrow> bool) \<Rightarrow> reqenv \<Rightarrow> bool" where
  "good_env repr E \<longleftrightarrow>
     (\<forall>k. repr (se_now (store_env E k)) \<and> repr (se_now (store_env E k) + sessionTTL (getenv E)))"

lemma good_envD: "good_env repr E \<Longrightarrow> repr (se_now (store_env E k))"
  "good_env repr E \<Longrightarrow> repr (se_now (store_env E k) + sessionTTL (getenv E))"
  by (simp_all add: good_env_def)

lemma login_status:
  assumes "fresh (h_out w)" "status (h_out (LoginHandler L S E r w)) = 200"
  shows "\<exists>req u tok x s'. fst (limiter_Allow L (t_limiter E) (h_limiter w)) \<and> r_method r = ''POST''
    \<and> HasPrefix (Header_Get r ''Content-Type'') ''application/json''
    \<and> Decode False [''username'', ''password''] (r_body r) = Some req
    \<and> \<not> blank (str_field req ''username'') \<and> \<not> blank (str_field req ''password'')
    \<and> GetUserByUsername S (store_env E 0) (str_field req ''username'') (h_store w) = Inr u
    \<and> bcrypt_CompareHashAndPassword L (U_PasswordHash u) (str_field req ''password'')
    \<and> GenerateToken L E (U_Role u) (U_Username u) = Inr tok
    \<and> CreateSession S (store_env E 1) (U_ID u) (U_Username u) (U_Role u) (sessionTTL (getenv E)) (h_store w)
       = (Inr x, s')
    \<and> h_store (LoginHandler L S E r w) = s'
    \<and> w_body (h_out (LoginHandler L S E r w)) = [JsonLine (login_response tok (S_Token x))]"
  using assms(2)
  by (auto simp: LoginHandler_def Let_def assms(1) split: prod.splits if_splits option.splits sum.splits)

text \<open>The session a login opens for a user.\<close>

definition session_for :: "senv \<Rightarrow> duration \<Rightarrow> user \<Rightarrow> session \<Rightarrow> bool" where
  "session_for e ttl u x \<longleftrightarrow> S_UserID x = U_ID u \<and> S_Username x = U_Username u \<and> S_Role x = U_Role u
     \<and> (\<exists>b. se_rand e = Inr b \<and> S_Token x = EncodeToString b)
     \<and> S_CreatedAt x = se_now e \<and> S_ExpiresAt x = se_now e + ttl"

definition credentials :: "request \<Rightarrow> string \<Rightarrow> string \<Rightarrow> bool" where
  "credentials r name pw \<longleftrightarrow>
     r_method r = ''POST'' \<and> HasPrefix (Header_Get r ''Content-Type'') ''application/json''
     \<and> (\<exists>req. Decode False [''username'', ''password''] (r_body r) = Some req
          \<and> str_field req ''username'' = name \<and> str_field req ''password'' = pw)
     \<and> \<not> blank name \<and> \<not> blank pw"

text \<open>The stored user whose name the token's claims carry.\<close>

definition caller :: "(int \<rightharpoonup> user) \<Rightarrow> request \<Rightarrow> user \<Rightarrow> bool" where
  "caller us r u \<longleftrightarrow>
     (\<exists>c. request_claims r = Some c \<and> us (U_ID u) = Some u \<and> U_Username u = C_Username c)"

text \<open>Session \<open>i\<close> of the path is one the caller may delete.\<close>

definition deletable :: "(int \<rightharpoonup> user) \<Rightarrow> (int \<rightharpoonup> session) \<Rightarrow> request \<Rightarrow> int \<Rightarrow> bool" where
  "deletable us ss r i \<longleftrightarrow>
     (\<exists>u x. caller us r u \<and> ParseInt (PathValue r ''id'') = Some i \<and> ss i = Some x \<and> S_UserID x = U_ID u)"

context store begin

lemma caller_lookup:
  assumes "inv l s" "up s" "request_claims r = Some c"
  shows "caller (users s) r u \<longleftrightarrow> GetUserByUsername S e (C_Username c) s = Inr u"
  using assms by (auto simp: caller_def dest: get_by_name_ok intro: get_by_name_total)

lemma login_ok:
  assumes "fresh (h_out w)" "inv (Suc l) (h_store w)" "good_env repr E"
    and "status (h_out (LoginHandler L S E r w)) = 200"
    and w'_def: "w' = LoginHandler L S E r w"
  shows "\<exists>name pw u tok x. credentials r name pw \<and> users (h_store w) (U_ID u) = Some u \<and> U_Username u = name
    \<and> bcrypt_CompareHashAndPassword L (U_PasswordHash u) pw
    \<and> GenerateToken L E (U_Role u) name = Inr tok
    \<and> session_for (store_env E 1) (sessionTTL (getenv E)) u x
    \<and> sessions (h_store w) (S_ID x) = None
    \<and> inv l (h_store w') \<and> users (h_store w') = users (h_store w)
    \<and> sessions (h_store w') = (sessions (h_store w))(S_ID x \<mapsto> stored_session res x)
    \<and> w_body (h_out w') = [JsonLine (login_response tok (S_Token x))]"
proof -
  obtain req u tok x s' where l: "r_method r = ''POST''"
     "HasPrefix (Header_Get r ''Content-Type'') ''application/json''"
     "Decode False [''username'', ''password''] (r_body r) = Some req"
     "\<not> blank (str_field req ''username'')" "\<not> blank (str_field req ''password'')"
    and g: "GetUserByUsername S (store_env E 0) (str_field req ''username'') (h_store w) = Inr u"
    and b: "bcrypt_CompareHashAndPassword L (U_PasswordHash u) (str_field req ''password'')"
    "GenerateToken L E (U_Role u) (U_Username u) = Inr tok"
    and c: "CreateSession S (store_env E 1) (U_ID u) (U_Username u) (U_Role u) (sessionTTL (getenv E)) (h_store w)
       = (Inr x, s')"
    and o: "h_store w' = s'" "w_body (h_out w') = [JsonLine (login_response tok (S_Token x))]"
    using login_status [OF assms(1,4)] by (auto simp: w'_def)
  note u = get_by_name_ok [OF assms(2) g]
  note x = create_session_ok [OF assms(2) good_envD [OF assms(3)] c]
  have "session_for (store_env E 1) (sessionTTL (getenv E)) u x"
    using x by (auto simp: session_for_def) (metis session.select_convs)+
  then show ?thesis using l u b x o by (auto simp: credentials_def intro!: exI [of _ u] exI [of _ x] exI [of _ tok])
qed


text \<open>Any other reply leaves the store as it was.\<close>

lemma login_failed:
  assumes "fresh (h_out w)" "inv l (h_store w)" "up (h_store w)"
    and "status (h_out (LoginHandler L S E r w)) \<noteq> 200"
    and w'_def: "w' = LoginHandler L S E r w"
  shows "inv l (h_store w') \<and> users (h_store w') = users (h_store w) \<and> sessions (h_store w') = sessions (h_store w)"
  unfolding w'_def using assms(4)
  by (auto simp: LoginHandler_def Let_def assms(1,2) dest: create_session_err [OF assms(2,3)]
    split: prod.splits if_splits option.splits sum.splits)

text \<open>A name nobody has and a wrong password get the same reply.\<close>

lemma login_refused:
  assumes "inv l (h_store w)" "up (h_store w)" "credentials r name pw"
    and "fst (limiter_Allow L (t_limiter E) (h_limiter w))"
    and "\<forall>u \<in> ran (users (h_store w)). U_Username u = name \<longrightarrow> \<not> bcrypt_CompareHashAndPassword L (U_PasswordHash u) pw"
  shows "h_out (LoginHandler L S E r w) = jsonError ''Unauthorized'' 401 (h_out w)"
proof -
  from assms(3) obtain req where req: "r_method r = ''POST''"
      "HasPrefix (Header_Get r ''Content-Type'') ''application/json''"
      "Decode False [''username'', ''password''] (r_body r) = Some req"
      "str_field req ''username'' = name" "str_field req ''password'' = pw"
      "\<not> blank name" "\<not> blank pw"
    by (auto simp: credentials_def)
  have "\<not> bcrypt_CompareHashAndPassword L (U_PasswordHash u) pw"
    if "GetUserByUsername S (store_env E 0) name (h_store w) = Inr u" for u
    using assms(5) get_by_name_ok [OF assms(1) that] by (auto simp: ran_def)
  with req assms(4) show ?thesis
    by (auto simp: LoginHandler_def Let_def split: prod.splits sum.splits)
qed

text \<open>The right password of a stored user is accepted.\<close>

lemma login_accepted:
  assumes "fresh (h_out w)" "inv (Suc l) (h_store w)" "up (h_store w)" "credentials r name pw"
    and "fst (limiter_Allow L (t_limiter E) (h_limiter w))"
    and "users (h_store w) i = Some u" "U_Username u = name"
    and "bcrypt_CompareHashAndPassword L (U_PasswordHash u) pw"
    and "GenerateToken L E (U_Role u) name = Inr tok"
    and "0 < sessionTTL (getenv E)" "se_rand (store_env E 1) = Inr b"
    and "\<forall>y \<in> ran (sessions (h_store w)). S_Token y \<noteq> EncodeToString b"
  shows "status (h_out (LoginHandler L S E r w)) = 200"
proof -
  from assms(4) obtain req where req: "r_method r = ''POST''"
      "HasPrefix (Header_Get r ''Content-Type'') ''application/json''"
      "Decode False [''username'', ''password''] (r_body r) = Some req"
      "str_field req ''username'' = name" "str_field req ''password'' = pw"
      "\<not> blank name" "\<not> blank pw"
    by (auto simp: credentials_def)
  obtain lim where lim: "limiter_Allow L (t_limiter E) (h_limiter w) = (True, lim)"
    using assms(5) by (cases "limiter_Allow L (t_limiter E) (h_limiter w)") auto
  note g = get_by_name_total [OF inv_less [OF assms(2)] assms(3,6,7)]
  obtain x s' where c: "CreateSession S (store_env E 1) (U_ID u) name (U_Role u) (sessionTTL (getenv E)) (h_store w)
      = (Inr x, s')"
    using create_session_total [OF assms(2,3,10,11,12), of "U_ID u" name "U_Role u"] by (auto simp: fst_def split: prod.splits)
  show ?thesis
    by (simp add: LoginHandler_def Let_def req lim g assms(1,7,8,9) c del: One_nat_def)
qed


lemma sessions_listed:
  assumes "fresh (h_out w)" "inv l (h_store w)" "up (h_store w)" "good_env repr E"
    and "r_method r = ''GET''" "caller (users (h_store w)) r u"
    and w'_def: "w' = SessionsHandler S E r w"
  shows "status (h_out w') = 200 \<and> h_store w' = h_store w
    \<and> (\<exists>xs. w_body (h_out w') = [JsonLine (JArr (map session_response xs))] \<and> distinct xs
        \<and> sorted_wrt (\<lambda>x y. S_CreatedAt y \<le> S_CreatedAt x) xs
        \<and> set xs = {x \<in> ran (sessions (h_store w)).
             S_UserID x = U_ID u \<and> res (se_now (store_env E 1)) < S_ExpiresAt x})"
proof -
  from assms(6) obtain c where c: "request_claims r = Some c" by (auto simp: caller_def)
  have g: "GetUserByUsername S (store_env E 0) (C_Username c) (h_store w) = Inr u"
    by (rule iffD1 [OF caller_lookup [OF assms(2,3) c] assms(6)])
  obtain xs where xs: "ListSessionsByUserID S (store_env E 1) (U_ID u) (h_store w) = Inr xs"
    using list_sessions_up [OF assms(2,3) good_envD(1) [OF assms(4)]] by blast
  note list = list_sessions_ok [OF assms(2) good_envD(1) [OF assms(4)] xs]
  have "w' = reply (Write (JsonLine (JArr (map session_response xs))) \<circ> WriteHeader StatusOK \<circ> json_type) w"
    by (simp add: w'_def SessionsHandler_def assms(5) c g xs del: One_nat_def)
  with list assms(1) show ?thesis by (auto simp del: One_nat_def)
qed

lemma session_deleted:
  assumes "fresh (h_out w)" "inv l (h_store w)" "up (h_store w)" "r_method r = ''DELETE''"
    and "deletable (users (h_store w)) (sessions (h_store w)) r i"
    and w'_def: "w' = DeleteSessionHandler S E r w"
  shows "status (h_out w') = 204 \<and> inv l (h_store w') \<and> users (h_store w') = users (h_store w)
    \<and> sessions (h_store w') = (sessions (h_store w))(i := None)"
proof -
  from assms(5) obtain u x c where u: "caller (users (h_store w)) r u" "ParseInt (PathValue r ''id'') = Some i"
      "sessions (h_store w) i = Some x" "S_UserID x = U_ID u" and c: "request_claims r = Some c"
    by (auto simp: deletable_def caller_def)
  have g: "GetUserByUsername S (store_env E 0) (C_Username c) (h_store w) = Inr u"
    by (rule iffD1 [OF caller_lookup [OF assms(2,3) c] u(1)])
  have i: "0 < i" using sessions_id [OF assms(2) u(3)] by simp
  have ne: "PathValue r ''id'' \<noteq> []" using u(2) by (auto simp: ParseInt_def)
  obtain s' where d: "DeleteSession S i (h_store w) = (Inr (), s')"
    using delete_session_err [OF assms(2,3), of i] u(3)
    by (cases "DeleteSession S i (h_store w)" rule: call_cases) auto
  have "w' = reply (WriteHeader StatusNoContent) (w\<lparr>h_store := s'\<rparr>)"
    using i by (simp add: w'_def DeleteSessionHandler_def assms(4) c ne u g get_session_total [OF assms(2,3) u(3)] d)
  with delete_session_ok [OF assms(2) d] assms(1) show ?thesis by simp
qed

lemma session_kept:
  assumes "fresh (h_out w)" "inv l (h_store w)" "up (h_store w)"
    and "\<nexists>i. r_method r = ''DELETE'' \<and> deletable (users (h_store w)) (sessions (h_store w)) r i"
    and w'_def: "w' = DeleteSessionHandler S E r w"
  shows "status (h_out w') \<noteq> 204 \<and> h_store w' = h_store w"
proof (cases "request_claims r")
  case None
  then show ?thesis
    by (simp add: w'_def DeleteSessionHandler_def http_unauthorized_def assms(1))
next
  case (Some c)
  note look = caller_lookup [OF assms(2,3) Some, where e = "store_env E 0"]
  have no: "False" if "r_method r = ''DELETE''" "ParseInt (PathValue r ''id'') = Some i"
    "GetUserByUsername S (store_env E 0) (C_Username c) (h_store w) = Inr u"
    "GetSessionByID S i (h_store w) = Inr x" "S_UserID x = U_ID u" for i u x
    using assms(4) that get_session_ok [OF assms(2) that(4)] by (auto simp: deletable_def look)
  show ?thesis
    by (auto simp: w'_def DeleteSessionHandler_def Some assms(1) dest: no
      split: option.splits sum.splits if_splits)
qed

lemma other_sessions_deleted:
  assumes "fresh (h_out w)" "inv l (h_store w)" "up (h_store w)" "r_method r = ''DELETE''"
    and "caller (users (h_store w)) r u" "Header_Get r ''X-Session-Token'' = t" "t \<noteq> []"
    and w'_def: "w' = DeleteAllSessionsHandler S E r w"
  shows "status (h_out w') = 204 \<and> inv l (h_store w') \<and> users (h_store w') = users (h_store w)
    \<and> sessions (h_store w') = (\<lambda>i. case sessions (h_store w) i of None \<Rightarrow> None
          | Some x \<Rightarrow> if S_UserID x = U_ID u \<and> S_Token x \<noteq> t then None else Some x)"
proof -
  from assms(5) obtain c where c: "request_claims r = Some c" by (auto simp: caller_def)
  have g: "GetUserByUsername S (store_env E 0) (C_Username c) (h_store w) = Inr u"
    by (rule iffD1 [OF caller_lookup [OF assms(2,3) c] assms(5)])
  obtain s' where d: "DeleteSessionsByUserID S (store_env E 1) (U_ID u) t (h_store w) = (Inr (), s')"
    using call_okE [OF delete_by_user_up [OF assms(2,3)]] by (metis (full_types) old.unit.exhaust)
  have "w' = reply (WriteHeader StatusNoContent) (w\<lparr>h_store := s'\<rparr>)"
    by (simp add: w'_def DeleteAllSessionsHandler_def assms(4,6,7) c g d Let_def del: One_nat_def)
  with delete_by_user_ok [OF assms(2) d] assms(1) show ?thesis by simp
qed

lemma other_sessions_kept:
  assumes "fresh (h_out w)" "inv l (h_store w)" "up (h_store w)"
    and "\<not> (r_method r = ''DELETE'' \<and> Header_Get r ''X-Session-Token'' \<noteq> [] \<and> (\<exists>u. caller (users (h_store w)) r u))"
    and w'_def: "w' = DeleteAllSessionsHandler S E r w"
  shows "status (h_out w') \<noteq> 204 \<and> h_store w' = h_store w"
proof (cases "request_claims r")
  case None
  then show ?thesis
    by (simp add: w'_def DeleteAllSessionsHandler_def http_unauthorized_def assms(1))
next
  case (Some c)
  note look = caller_lookup [OF assms(2,3) Some, where e = "store_env E 0"]
  show ?thesis using assms(4)
    by (auto simp: w'_def DeleteAllSessionsHandler_def Let_def Some look assms(1) split: sum.splits)
qed

end

end
