(* ===== verification/Service_Spec.thy ===== *)
theory Service_Spec
  imports Auth_Facts
begin

text \<open>
  The abstract service. Its state \<open>accounts\<close> is the map of users and the map of sessions; its
  actions are what a request can do to them (\<open>perform\<close>), each with the authority it needs
  (\<open>permitted\<close>). \<open>refines\<close> says that a step of an implementation is one permitted action. The lemmas
  show it for the handlers of \<open>Handlers_Auth\<close> over any store that keeps the contract \<open>store\<close>.
\<close>

section \<open>Actions and their authority\<close>

type_synonym accounts = "(int \<rightharpoonup> user) \<times> (int \<rightharpoonup> session)"

datatype action =
    Keep
  | OpenSession session
  | ChangePassword int string instant
  | CreateAccount user
  | EditAccount int user
  | RemoveAccount int
  | CloseSession int
  | CloseOtherSessions int string

fun perform :: "action \<Rightarrow> accounts \<Rightarrow> accounts" where
  "perform Keep (U, X) = (U, X)"
| "perform (OpenSession x) (U, X) = (U, X(S_ID x \<mapsto> x))"
| "perform (ChangePassword i h t) (U, X) =
     (U(i := map_option (\<lambda>u. u\<lparr>U_PasswordHash := h, U_UpdatedAt := t\<rparr>) (U i)), X)"
| "perform (CreateAccount u) (U, X) = (U(U_ID u \<mapsto> u), X)"
| "perform (EditAccount i u) (U, X) = (U(i \<mapsto> u), X)"
| "perform (RemoveAccount i) (U, X) = (U(i := None), X)"
| "perform (CloseSession i) (U, X) = (U, X(i := None))"
| "perform (CloseOtherSessions i t) (U, X) =
     (U, \<lambda>j. case X j of None \<Rightarrow> None
        | Some x \<Rightarrow> if S_UserID x = i \<and> S_Token x \<noteq> t then None else Some x)"

definition is_admin :: "request \<Rightarrow> bool" where
  "is_admin r \<longleftrightarrow> (\<exists>c. request_claims r = Some c \<and> C_Role c = ''admin'')"

definition password_request :: "request \<Rightarrow> string \<Rightarrow> string \<Rightarrow> bool" where
  "password_request r current new \<longleftrightarrow>
     (\<exists>req. Decode False [''currentpassword'', ''newpassword''] (r_body r) = Some req
        \<and> str_field req ''currentpassword'' = current \<and> str_field req ''newpassword'' = new)"

fun permitted :: "'l libs \<Rightarrow> request \<Rightarrow> action \<Rightarrow> accounts \<Rightarrow> bool" where
  "permitted L r Keep (U, X) = True"
| "permitted L r (OpenSession x) (U, X) =
     (\<exists>u pw. U (S_UserID x) = Some u \<and> S_Username x = U_Username u \<and> S_Role x = U_Role u
        \<and> credentials r (U_Username u) pw \<and> bcrypt_CompareHashAndPassword L (U_PasswordHash u) pw
        \<and> X (S_ID x) = None)"
| "permitted L r (ChangePassword i h t) (U, X) =
     (\<exists>u current new k z. caller U r u \<and> i = U_ID u \<and> password_request r current new
        \<and> bcrypt_CompareHashAndPassword L (U_PasswordHash u) current
        \<and> bcrypt_GenerateFromPassword L new k z = Inr h)"
| "permitted L r (CreateAccount u) (U, X) =
     (is_admin r \<and> valid_role (U_Role u) \<and> U (U_ID u) = None
        \<and> (\<forall>v \<in> ran U. U_Username v \<noteq> U_Username u))"
| "permitted L r (EditAccount i u) (U, X) =
     (is_admin r \<and> U_ID u = i
        \<and> (\<exists>v. U i = Some v \<and> U_CreatedAt u = U_CreatedAt v \<and> (valid_role (U_Role u) \<or> U_Role u = U_Role v))
        \<and> (\<forall>j v. U j = Some v \<longrightarrow> U_Username v = U_Username u \<longrightarrow> j = i))"
| "permitted L r (RemoveAccount i) (U, X) = (is_admin r \<and> U i \<noteq> None)"
| "permitted L r (CloseSession i) (U, X) =
     (\<exists>u x. caller U r u \<and> X i = Some x \<and> S_UserID x = U_ID u)"
| "permitted L r (CloseOtherSessions i t) (U, X) = (\<exists>u. caller U r u \<and> i = U_ID u \<and> t \<noteq> [])"

text \<open>The actions only an administrator may perform.\<close>

fun needs_admin :: "action \<Rightarrow> bool" where
  "needs_admin (CreateAccount u) = True"
| "needs_admin (EditAccount i u) = True"
| "needs_admin (RemoveAccount i) = True"
| "needs_admin _ = False"

section \<open>Refinement\<close>

text \<open>A step is one permitted action; \<open>adm\<close> says whether the action may be one for administrators.\<close>

definition view_of :: "('s \<Rightarrow> (int \<rightharpoonup> user)) \<Rightarrow> ('s \<Rightarrow> (int \<rightharpoonup> session)) \<Rightarrow> 's \<Rightarrow> accounts" where
  "view_of us ss s = (us s, ss s)"

definition refines ::
  "bool \<Rightarrow> ('s \<Rightarrow> bool) \<Rightarrow> ('s \<Rightarrow> accounts) \<Rightarrow> 'l libs \<Rightarrow> request \<Rightarrow> 's \<Rightarrow> 's \<Rightarrow> bool" where
  "refines adm ok view L r s s' \<longleftrightarrow> ok s'
     \<and> (\<exists>a. (needs_admin a \<longrightarrow> adm) \<and> permitted L r a (view s) \<and> view s' = perform a (view s))"

context store begin

abbreviation "view \<equiv> view_of users sessions"

lemma refinesI:
  "inv l s' \<Longrightarrow> needs_admin a \<longrightarrow> adm \<Longrightarrow> permitted L r a (users s, sessions s) \<Longrightarrow>
    (users s', sessions s') = perform a (users s, sessions s) \<Longrightarrow> refines adm (inv l) view L r s s'"
  unfolding refines_def view_of_def by blast

lemma refines_keep: "inv (Suc l) s \<Longrightarrow> refines adm (inv l) view L r s s"
  by (rule refinesI [of _ _ Keep]) (auto dest: inv_less)

lemma refines_same:
  "inv l s' \<and> users s' = users s \<and> sessions s' = sessions s \<Longrightarrow> refines adm (inv l) view L r s s'"
  by (rule refinesI [of _ _ Keep]) auto

text \<open>Each handler of \<open>auth.go\<close> performs a permitted action.\<close>

lemma refines_login:
  assumes "inv (Suc l) s" "up s" "good_env repr E" "h_store w = s"
  shows "refines adm (inv l) view L r s (h_store (LoginHandler L S E r w))"
proof (cases "status (h_out (LoginHandler L S E r (w\<lparr>h_out := new_writer\<rparr>))) = 200")
  case True
  obtain name pw u tok x where "credentials r name pw" "users s (U_ID u) = Some u"
     "U_Username u = name" "bcrypt_CompareHashAndPassword L (U_PasswordHash u) pw"
     "session_for (store_env E 1) (sessionTTL (getenv E)) u x" "sessions s (S_ID x) = None"
     "inv l (h_store (LoginHandler L S E r (w\<lparr>h_out := new_writer\<rparr>)))"
     "users (h_store (LoginHandler L S E r (w\<lparr>h_out := new_writer\<rparr>))) = users s"
     "sessions (h_store (LoginHandler L S E r (w\<lparr>h_out := new_writer\<rparr>))) = (sessions s)(S_ID x \<mapsto> stored_session res x)"
    using login_ok [OF _ _ assms(3) True refl, of l] assms by auto
  moreover have "h_store (LoginHandler L S E r (w\<lparr>h_out := new_writer\<rparr>)) = h_store (LoginHandler L S E r w)"
    by (auto simp: LoginHandler_def Let_def split: prod.splits option.splits sum.splits)
  ultimately show ?thesis
    by (intro refinesI [of _ _ "OpenSession (stored_session res x)"]) (auto simp: session_for_def)
next
  case False
  have "h_store (LoginHandler L S E r (w\<lparr>h_out := new_writer\<rparr>)) = h_store (LoginHandler L S E r w)"
    by (auto simp: LoginHandler_def Let_def split: prod.splits option.splits sum.splits)
  with login_failed [OF _ _ _ False refl, of l] assms show ?thesis
    by (intro refines_same) (simp add: inv_less)
qed

lemma refines_sessions: 
  assumes "inv (Suc l) s" "h_store w = s"
  shows "refines adm (inv l) view L r s (h_store (SessionsHandler S E r w))"
  using refines_keep [OF assms(1)] assms(2)
  by (auto simp: SessionsHandler_def http_unauthorized_def split: option.splits sum.splits)


lemma refines_delete_session:
  assumes "inv (Suc l) s" "up s" "h_store w = s"
  shows "refines adm (inv l) view L r s (h_store (DeleteSessionHandler S E r w))"
proof -
  note inv = inv_less [OF assms(1)]
  let ?w = "w\<lparr>h_out := new_writer\<rparr>"
  have same: "h_store (DeleteSessionHandler S E r ?w) = h_store (DeleteSessionHandler S E r w)"
    by (auto simp: DeleteSessionHandler_def http_unauthorized_def split: prod.splits option.splits sum.splits)
  show ?thesis
  proof (cases "\<exists>i. r_method r = ''DELETE'' \<and> deletable (users s) (sessions s) r i")
    case True
    then obtain i where i: "r_method r = ''DELETE''" "deletable (users s) (sessions s) r i" by blast
    show ?thesis
      using session_deleted [of ?w l r i _ E, OF _ _ _ i(1) _ refl] inv assms i(2) same
      by (intro refinesI [of _ _ "CloseSession i"]) (auto simp: deletable_def)
  next
    case False
    then show ?thesis
      using session_kept [of ?w l r _ E, OF _ _ _ _ refl] inv assms same refines_keep [OF assms(1)] by auto
  qed
qed

lemma refines_delete_all:
  assumes "inv (Suc l) s" "up s" "h_store w = s"
  shows "refines adm (inv l) view L r s (h_store (DeleteAllSessionsHandler S E r w))"
proof -
  note inv = inv_less [OF assms(1)]
  let ?w = "w\<lparr>h_out := new_writer\<rparr>"
  have same: "h_store (DeleteAllSessionsHandler S E r ?w) = h_store (DeleteAllSessionsHandler S E r w)"
    by (auto simp: DeleteAllSessionsHandler_def http_unauthorized_def Let_def split: prod.splits option.splits sum.splits)
  show ?thesis
  proof (cases "r_method r = ''DELETE'' \<and> Header_Get r ''X-Session-Token'' \<noteq> [] \<and> (\<exists>u. caller (users s) r u)")
    case True
    then obtain u where u: "r_method r = ''DELETE''" "Header_Get r ''X-Session-Token'' \<noteq> []" "caller (users s) r u"
      by blast
    show ?thesis
      using other_sessions_deleted [of ?w l r u _ _ E, OF _ _ _ u(1) _ refl u(2) refl] inv assms u same
      by (intro refinesI [of _ _ "CloseOtherSessions (U_ID u) (Header_Get r ''X-Session-Token'')"]) auto
  next
    case False
    then show ?thesis
      using other_sessions_kept [of ?w l r _ E, OF _ _ _ _ refl] inv assms same refines_keep [OF assms(1)] by auto
  qed
qed

lemma refines_password:
  assumes "inv (Suc l) s" "up s" "good_env repr E" "h_store w = s"
  shows "refines adm (inv l) view L r s (h_store (PasswordChangeHandler L S E r w))"
proof -
  note inv = inv_less [OF assms(1)]
  have step: "refines adm (inv l) view L r s s'"
    if c: "request_claims r = Some c" and d: "Decode False [''currentpassword'', ''newpassword''] (r_body r) = Some req"
      and g: "GetUserByUsername S (store_env E 0) (C_Username c) s = Inr u"
      and b: "bcrypt_CompareHashAndPassword L (U_PasswordHash u) (str_field req ''currentpassword'')"
      and h: "bcrypt_GenerateFromPassword L (str_field req ''newpassword'') k z = Inr h"
      and U: "UpdateUser S (store_env E 1) (U_ID u) (U_Username u) h (U_Role u) s = (y, s')"
    for c req u h k z y s'
  proof (cases y)
    case (Inl m)
    with U update_user_err [OF inv assms(2) good_envD(1) [OF assms(3)]] show ?thesis by (auto intro: refines_same)
  next
    case (Inr v)
    have call: "caller (users s) r u" using get_by_name_ok [OF inv g] c by (auto simp: caller_def)
    then have u: "users s (U_ID u) = Some u" by (auto simp: caller_def)
    note upd = update_user_ok [OF inv good_envD(1) [OF assms(3)] U [unfolded Inr]]
    have same: "u\<lparr>U_Username := U_Username u, U_PasswordHash := h, U_Role := U_Role u, U_UpdatedAt := t\<rparr>
        = u\<lparr>U_PasswordHash := h, U_UpdatedAt := t\<rparr>" for t
      by simp
    have "users s' = (users s)(U_ID u := map_option (\<lambda>u. u\<lparr>U_PasswordHash := h,
        U_UpdatedAt := res (se_now (store_env E 1))\<rparr>) (users s (U_ID u)))"
      using upd by (simp only: u same option.inject option.map ex_simps simp_thms)
    moreover have "password_request r (str_field req ''currentpassword'') (str_field req ''newpassword'')"
      using d by (simp add: password_request_def)
    ultimately show ?thesis
      using upd call b h
      by (intro refinesI [of _ _ "ChangePassword (U_ID u) h (res (se_now (store_env E 1)))"]) (simp, simp, simp, blast, simp)
  qed
  show ?thesis
    using refines_keep [OF assms(1)]
    by (auto simp: PasswordChangeHandler_def http_unauthorized_def assms(4) intro: step
      split: option.splits sum.splits prod.splits)
qed

end

end
