(* ===== verification/Admin_Facts.thy ===== *)
theory Admin_Facts
  imports Service_Spec
begin

text \<open>
  What the handlers of \<open>Handlers_Admin\<close> do over any store that keeps the contract: the reply and
  the effect of each, and that each performs an action of \<open>Service_Spec\<close> which an administrator may
  perform.
\<close>

text \<open>The fields of a well-formed request to create a user.\<close>

definition user_request :: "request \<Rightarrow> string \<Rightarrow> string \<Rightarrow> string \<Rightarrow> bool" where
  "user_request r name pw role \<longleftrightarrow>
     r_method r = ''POST'' \<and> HasPrefix (Header_Get r ''Content-Type'') ''application/json''
     \<and> (\<exists>req. Decode False [''username'', ''password'', ''role''] (r_body r) = Some req
          \<and> str_field req ''username'' = name \<and> str_field req ''password'' = pw
          \<and> str_field req ''role'' = role)
     \<and> \<not> blank name \<and> \<not> blank pw \<and> \<not> blank role \<and> valid_role role"

text \<open>The user that an update request asks for: the fields it names, the others as they were.\<close>

definition updated_user ::
  "'l libs \<Rightarrow> reqenv \<Rightarrow> (string \<rightharpoonup> string) \<Rightarrow> user \<Rightarrow> instant \<Rightarrow> user option" where
  "updated_user L E req v t =
     (let name = (case req ''username'' of None \<Rightarrow> U_Username v | Some n \<Rightarrow> n);
          role = (case req ''role'' of None \<Rightarrow> U_Role v | Some ro \<Rightarrow> ro);
          user = (\<lambda>h. v\<lparr>U_Username := name, U_PasswordHash := h, U_Role := role, U_UpdatedAt := t\<rparr>)
      in if req ''role'' \<noteq> None \<and> \<not> valid_role role then None
         else case req ''password'' of
             None \<Rightarrow> Some (user (U_PasswordHash v))
           | Some p \<Rightarrow>
               (case bcrypt_GenerateFromPassword L p (getBcryptCost L (getenv E)) (salt E) of
                  Inl _ \<Rightarrow> None | Inr h \<Rightarrow> Some (user h)))"

lemma path_user_id_iff:
  "path_user_id r = Inr i \<longleftrightarrow> ParseInt (PathValue r ''id'') = Some i \<and> 0 < i"
  by (auto simp: path_user_id_def ParseInt_def split: option.splits)

context store begin

lemma user_created:
  assumes "fresh (h_out w)" "inv (Suc l) (h_store w)" "up (h_store w)" "good_env repr E"
    and "user_request r name pw role" "\<forall>v \<in> ran (users (h_store w)). U_Username v \<noteq> name"
    and "bcrypt_GenerateFromPassword L pw (getBcryptCost L (getenv E)) (salt E) = Inr h"
    and w'_def: "w' = CreateUserHandler L S E r w"
  shows "\<exists>u. status (h_out w') = 201 \<and> w_body (h_out w') = [JsonLine (user_response u)]
    \<and> U_Username u = name \<and> U_PasswordHash u = h \<and> U_Role u = role
    \<and> users (h_store w) (U_ID u) = None \<and> inv l (h_store w')
    \<and> users (h_store w') = (users (h_store w))(U_ID u \<mapsto> stored_user res u)
    \<and> sessions (h_store w') = sessions (h_store w)"
proof -
  from assms(5) obtain req where req: "r_method r = ''POST''"
      "HasPrefix (Header_Get r ''Content-Type'') ''application/json''"
      "Decode False [''username'', ''password'', ''role''] (r_body r) = Some req"
      "str_field req ''username'' = name" "str_field req ''password'' = pw" "str_field req ''role'' = role"
      "\<not> blank name" "\<not> blank pw" "\<not> blank role" "valid_role role"
    by (auto simp: user_request_def)
  obtain u s' where c: "CreateUser S (store_env E 0) name h role (h_store w) = (Inr u, s')"
    using call_okE [OF create_user_total [OF assms(2,3,6)]] by metis
  have "w' = reply (Write (JsonLine (user_response u)) \<circ> WriteHeader StatusCreated \<circ> json_type) (w\<lparr>h_store := s'\<rparr>)"
    by (simp add: w'_def CreateUserHandler_def req assms(7) c)
  moreover have "U_Username u = name" "U_PasswordHash u = h" "U_Role u = role"
    using create_user_ok [OF assms(2) good_envD(1) [OF assms(4)] c] by (metis user.select_convs)+
  ultimately show ?thesis
    using create_user_ok [OF assms(2) good_envD(1) [OF assms(4)] c] assms(1)
    by (intro exI [of _ u]) auto
qed

lemma user_name_taken:
  assumes "fresh (h_out w)" "inv l (h_store w)" "up (h_store w)"
    and "user_request r name pw role" "v \<in> ran (users (h_store w))" "U_Username v = name"
    and "bcrypt_GenerateFromPassword L pw (getBcryptCost L (getenv E)) (salt E) = Inr h"
    and w'_def: "w' = CreateUserHandler L S E r w"
  shows "status (h_out w') = 409 \<and> inv l (h_store w')
    \<and> users (h_store w') = users (h_store w) \<and> sessions (h_store w') = sessions (h_store w)"
proof -
  from assms(4) obtain req where req: "r_method r = ''POST''"
      "HasPrefix (Header_Get r ''Content-Type'') ''application/json''"
      "Decode False [''username'', ''password'', ''role''] (r_body r) = Some req"
      "str_field req ''username'' = name" "str_field req ''password'' = pw" "str_field req ''role'' = role"
      "\<not> blank name" "\<not> blank pw" "\<not> blank role" "valid_role role"
    by (auto simp: user_request_def)
  obtain m s' where c: "CreateUser S (store_env E 0) name h role (h_store w) = (Inl m, s')"
      and m: "Contains m ''already exists''"
    using create_user_dup [OF assms(2,3,5,6)] by (metis prod.collapse)
  have "w' = reply (jsonError m StatusConflict) (w\<lparr>h_store := s'\<rparr>)"
    by (simp add: w'_def CreateUserHandler_def req assms(7) c m)
  with create_user_err [OF assms(2,3) c] assms(1) show ?thesis by auto
qed

lemma refines_create_user:
  assumes "inv (Suc l) s" "up s" "good_env repr E" "h_store w = s" "is_admin r"
  shows "refines True (inv l) view L r s (h_store (CreateUserHandler L S E r w))"
proof -
  note inv = inv_less [OF assms(1)]
  have step: "refines True (inv l) view L r s s'"
    if v: "valid_role ro" and c: "CreateUser S e n h ro s = (y, s')" and e: "e = store_env E 0" for e n h ro y s'
  proof (cases y)
    case (Inl m)
    with c create_user_err [OF inv assms(2)] show ?thesis by (auto intro: refines_same)
  next
    case (Inr u)
    note new = create_user_ok [OF assms(1) good_envD(1) [OF assms(3)] c [unfolded Inr e]]
    have "U_Username u = n" "U_Role u = ro" using new by (metis user.select_convs)+
    with new v assms(5) show ?thesis
      by (intro refinesI [of _ _ "CreateAccount (stored_user res u)"]) auto
  qed
  show ?thesis
    using refines_keep [OF assms(1)]
    by (auto simp: CreateUserHandler_def assms(4) intro: step split: option.splits sum.splits prod.splits)
qed

lemma user_updated:
  assumes "fresh (h_out w)" "inv l (h_store w)" "up (h_store w)" "good_env repr E"
    and "r_method r = ''PUT''" "path_user_id r = Inr i" "users (h_store w) i = Some v"
    and "Decode True [''username'', ''password'', ''role''] (r_body r) = Some req"
    and "updated_user L E req v (res (se_now (store_env E 0))) = Some u"
    and "\<forall>j x. users (h_store w) j = Some x \<longrightarrow> U_Username x = U_Username u \<longrightarrow> j = i"
    and w'_def: "w' = UpdateUserHandler L S E r w"
  shows "status (h_out w') = 200 \<and> w_body (h_out w') = [JsonLine (user_response u)]
    \<and> inv l (h_store w') \<and> users (h_store w') = (users (h_store w))(i \<mapsto> u)
    \<and> sessions (h_store w') = sessions (h_store w)"
proof -
  let ?n = "U_Username u" and ?h = "U_PasswordHash u" and ?ro = "U_Role u" and ?t = "res (se_now (store_env E 0))"
  have u: "u = v\<lparr>U_Username := ?n, U_PasswordHash := ?h, U_Role := ?ro, U_UpdatedAt := ?t\<rparr>"
    using assms(9) by (auto simp: updated_user_def Let_def split: if_splits option.splits sum.splits)
  obtain x s' where c: "UpdateUser S (store_env E 0) i ?n ?h ?ro (h_store w) = (Inr x, s')"
    using call_okE [OF update_user_total [OF assms(2,3) good_envD(1) [OF assms(4)] _ assms(10)]] assms(7) by (metis option.distinct(1))
  note upd = update_user_ok [OF assms(2) good_envD(1) [OF assms(4)] c]
  have x: "x = u" using upd assms(7) u by auto
  have "w' = reply (Write (JsonLine (user_response u)) \<circ> json_type) (w\<lparr>h_store := s'\<rparr>)"
    using assms(9) c
    by (auto simp: w'_def UpdateUserHandler_def assms(5,6,8) get_user_total [OF assms(2,3,7)] x updated_user_def Let_def
      split: if_splits option.splits sum.splits)
  with upd assms(1) x show ?thesis by auto
qed

lemma refines_update_user:
  assumes "inv (Suc l) s" "up s" "good_env repr E" "h_store w = s" "is_admin r"
  shows "refines True (inv l) view L r s (h_store (UpdateUserHandler L S E r w))"
proof -
  note inv = inv_less [OF assms(1)]
  have step: "refines True (inv l) view L r s s'"
    if g: "GetUser S i s = Inr v" and ro: "valid_role ro \<or> ro = U_Role v"
      and c: "UpdateUser S (store_env E 0) i n h ro s = (y, s')" for i v n h ro y s'
  proof (cases y)
    case (Inl m)
    with c update_user_err [OF inv assms(2) good_envD(1) [OF assms(3)]] show ?thesis by (auto intro: refines_same)
  next
    case (Inr u)
    note upd = update_user_ok [OF inv good_envD(1) [OF assms(3)] c [unfolded Inr]]
    have v: "users s i = Some v" "U_ID v = i" using get_user_ok [OF inv g] users_id [OF inv] by auto
    with upd have u: "u = v\<lparr>U_Username := n, U_PasswordHash := h, U_Role := ro, U_UpdatedAt := res (se_now (store_env E 0))\<rparr>"
      by auto
    have f: "U_ID u = i" "U_CreatedAt u = U_CreatedAt v" "U_Role u = ro" "U_Username u = n"
      by (simp_all add: u v(2))
    have uniq: "\<forall>j w. users s j = Some w \<longrightarrow> U_Username w = n \<longrightarrow> j = i" using upd by (elim conjE)
    have "permitted L r (EditAccount i u) (users s, sessions s)"
      using v(1) ro assms(5) uniq by (simp only: permitted.simps f) auto
    moreover have "inv l s'" "users s' = (users s)(i \<mapsto> u)" "sessions s' = sessions s"
      using upd by - (elim conjE, assumption)+
    ultimately show ?thesis by (intro refinesI [of _ _ "EditAccount i u"]) simp_all
  qed
  have handled: "refines True (inv l) view L r s (h_store (UpdateUserHandler L S E r w))"
    if i: "path_user_id r = Inr i" and g: "GetUser S i s = Inr v"
      and d: "Decode True [''username'', ''password'', ''role''] (r_body r) = Some req" for i v req
  proof (cases "\<exists>ro. req ''role'' = Some ro \<and> \<not> valid_role ro")
    case True
    then show ?thesis
      using refines_keep [OF assms(1)] by (auto simp: UpdateUserHandler_def assms(4) i g d Let_def)
  next
    case False
    then have ro: "valid_role (case req ''role'' of None \<Rightarrow> U_Role v | Some ro \<Rightarrow> ro)
        \<or> (case req ''role'' of None \<Rightarrow> U_Role v | Some ro \<Rightarrow> ro) = U_Role v"
      by (auto split: option.split)
    note step = step [OF g ro]
    show ?thesis
      using refines_keep [OF assms(1)] False
      by (simp add: UpdateUserHandler_def assms(4) i g d Let_def split: sum.split prod.split option.split)
        (auto split: if_splits intro: step)
  qed
  show ?thesis
  proof (cases "\<exists>i v req. path_user_id r = Inr i \<and> GetUser S i s = Inr v
      \<and> Decode True [''username'', ''password'', ''role''] (r_body r) = Some req")
    case True
    then show ?thesis using handled by blast
  next
    case False
    then have "h_store (UpdateUserHandler L S E r w) = s"
      by (auto simp: UpdateUserHandler_def assms(4) split: sum.split option.split)
    then show ?thesis using refines_keep [OF assms(1)] by simp
  qed
qed


lemma user_removed:
  assumes "fresh (h_out w)" "inv l (h_store w)" "up (h_store w)" "r_method r = ''DELETE''" "path_user_id r = Inr i"
    and w'_def: "w' = DeleteUserHandler S r w"
  shows "status (h_out w') = (if users (h_store w) i = None then 404 else 204)
    \<and> inv l (h_store w') \<and> users (h_store w') = (users (h_store w))(i := None)
    \<and> sessions (h_store w') = sessions (h_store w)"
proof (cases "DeleteUser S i (h_store w)" rule: call_cases)
  case (err m s')
  note d = delete_user_err [OF assms(2,3) err]
  have "w' = reply (jsonError m StatusNotFound) (w\<lparr>h_store := s'\<rparr>)"
    using d by (simp add: w'_def DeleteUserHandler_def assms(4,5) err)
  with d assms(1) show ?thesis by auto
next
  case (ok y s')
  note d = delete_user_ok [OF assms(2) ok]
  have "w' = reply (WriteHeader StatusNoContent) (w\<lparr>h_store := s'\<rparr>)"
    by (simp add: w'_def DeleteUserHandler_def assms(4,5) ok)
  with d assms(1) show ?thesis by auto
qed

lemma refines_delete_user:
  assumes "inv (Suc l) s" "up s" "h_store w = s" "is_admin r"
  shows "refines True (inv l) view L r s (h_store (DeleteUserHandler S r w))"
proof -
  note inv = inv_less [OF assms(1)]
  have step: "refines True (inv l) view L r s s'" if c: "DeleteUser S i s = (y, s')" for i y s'
  proof (cases y)
    case (Inl m)
    with c delete_user_err [OF inv assms(2)] show ?thesis by (auto intro: refines_same)
  next
    case (Inr u)
    show ?thesis
      using delete_user_ok [OF inv c [unfolded Inr]] assms(4)
      by (intro refinesI [of _ _ "RemoveAccount i"]) auto
  qed
  show ?thesis
    using refines_keep [OF assms(1)]
    by (auto simp: DeleteUserHandler_def assms(3) intro: step split: option.splits sum.splits prod.splits)
qed

lemma user_read:
  assumes "fresh (h_out w)" "inv l (h_store w)" "up (h_store w)" "r_method r = ''GET''" "path_user_id r = Inr i"
    and w'_def: "w' = GetUserHandler S E r w"
  shows "h_store w' = h_store w
    \<and> (case users (h_store w) i of None \<Rightarrow> status (h_out w') = 404
        | Some u \<Rightarrow> status (h_out w') = 200 \<and> w_body (h_out w') = [JsonLine (user_response u)])"
proof (cases "users (h_store w) i")
  case None
  then obtain m where "GetUser S i (h_store w) = Inl m" "Contains m ''not found''"
    using get_user_missing [OF assms(2,3)] by blast
  with None assms(1,4,5) show ?thesis by (simp add: w'_def GetUserHandler_def)
next
  case (Some u)
  with get_user_total [OF assms(2,3) Some] assms(1,4,5) show ?thesis by (simp add: w'_def GetUserHandler_def)
qed

lemma users_listed:
  assumes "fresh (h_out w)" "inv l (h_store w)" "up (h_store w)" "r_method r = ''GET''"
    and w'_def: "w' = ListUsersHandler S E r w"
  shows "h_store w' = h_store w \<and> status (h_out w') = 200
    \<and> (\<exists>us. w_body (h_out w') = [JsonLine (JArr (map user_json us))] \<and> distinct us
        \<and> set us = {u \<in> ran (users (h_store w)). Query_Get r ''role'' = [] \<or> U_Role u = Query_Get r ''role''})"
proof -
  obtain us where us: "ListUsers S (store_env E 0) (Query_Get r ''role'') (h_store w) = Inr us"
    using list_users_up [OF assms(2,3)] by blast
  note list = list_users_ok [OF assms(2) us]
  show ?thesis using list assms(1,4) by (auto simp: w'_def ListUsersHandler_def us)
qed

lemma refines_read_user:
  assumes "inv (Suc l) s" "h_store w = s"
  shows "refines True (inv l) view L r s (h_store (GetUserHandler S E r w))"
    and "refines True (inv l) view L r s (h_store (ListUsersHandler S E r w))"
  using refines_keep [OF assms(1)] assms(2)
  by (auto simp: GetUserHandler_def ListUsersHandler_def split: sum.splits)

end

end
