(* ===== verification/Server_Facts.thy ===== *)
theory Server_Facts
  imports Admin_Facts
begin

text \<open>
  The server as a whole, over any store that keeps the contract: every request it serves, whatever
  its route, performs one action of \<open>Service_Spec\<close> that the request has the authority for, where
  claims come from a bearer token that \<open>ValidateToken\<close> accepted (\<open>server_step\<close>). The middleware is
  described by its two outcomes.
\<close>

text \<open>The request carries a bearer token that the server accepts, with claims \<open>c\<close>.\<close>

definition authenticated :: "'l libs \<Rightarrow> reqenv \<Rightarrow> request \<Rightarrow> claims \<Rightarrow> bool" where
  "authenticated L E r c \<longleftrightarrow> HasPrefix (Header_Get r ''Authorization'') ''Bearer ''
     \<and> ValidateToken L E (TrimPrefix (Header_Get r ''Authorization'') ''Bearer '') = Inr c"

lemma AuthMiddleware_cases:
  obtains (refused) "AuthMiddleware L E next r w = reply (jsonError ''Unauthorized'' 401) w"
      "\<nexists>c. authenticated L E r c"
  | (passed) c where "authenticated L E r c"
      "AuthMiddleware L E next r w = next (r\<lparr>r_claims := Some (Some c)\<rparr>) w"
proof (cases "\<exists>c. authenticated L E r c")
  case True
  then obtain c where c: "authenticated L E r c" by blast
  then have "Header_Get r ''Authorization'' \<noteq> []" by (auto simp: authenticated_def)
  with c show ?thesis by (intro passed [of c]) (auto simp: authenticated_def AuthMiddleware_def Let_def)
next
  case False
  then show ?thesis
    by (intro refused) (auto simp: authenticated_def AuthMiddleware_def Let_def split: sum.splits)
qed

lemma RequireRole_cases:
  obtains (refused) ev f where "RequireRole E role next r w = reply f (audit E ev w)"
      "ev_Result ev = ''deny''"
      "\<And>u. fresh u \<Longrightarrow> agrees (f u) \<and> status (f u) \<in> {401, 403}"
      "\<nexists>c. request_claims r = Some c \<and> C_Role c = role"
  | (passed) c where "request_claims r = Some c" "C_Role c = role"
      "RequireRole E role next r w = next r (audit E
        \<lparr>ev_Timestamp = [], ev_User = C_Subject c, ev_Role = role, ev_Action = ''ACCESS_ROLE_'' @ role,
         ev_Resource = r_path r, ev_Result = ''allow''\<rparr> w)"
proof (cases "request_claims r")
  case None
  then have "RequireRole E role next r w = reply (jsonError ''Unauthorized'' 401)
      (audit E \<lparr>ev_Timestamp = [], ev_User = ''UNKNOWN'', ev_Role = ''UNKNOWN'',
        ev_Action = ''ACCESS_ROLE_'' @ role, ev_Resource = r_path r, ev_Result = ''deny''\<rparr> w)"
    by (simp add: RequireRole_def)
  then show ?thesis by (rule refused) (simp_all add: None)
next
  case (Some c)
  show ?thesis
  proof (cases "C_Role c = role")
    case True
    show ?thesis by (rule passed [OF Some True]) (simp add: RequireRole_def Some Let_def True)
  next
    case False
    with Some have "RequireRole E role next r w = reply (jsonError ''Forbidden'' 403)
        (audit E \<lparr>ev_Timestamp = [], ev_User = C_Subject c, ev_Role = C_Role c,
          ev_Action = ''ACCESS_ROLE_'' @ role, ev_Resource = r_path r, ev_Result = ''deny''\<rparr> w)"
      by (simp add: RequireRole_def Let_def)
    then show ?thesis by (rule refused) (simp_all add: Some False)
  qed
qed

lemma h_audit_admin:
  "h_audit (ListUsersHandler S E r w) = h_audit w" "h_audit (CreateUserHandler L S E r w) = h_audit w"
  "h_audit (GetUserHandler S E r w) = h_audit w" "h_audit (DeleteUserHandler S r w) = h_audit w"
  by (simp_all add: ListUsersHandler_def CreateUserHandler_def GetUserHandler_def DeleteUserHandler_def
    split: sum.split option.split prod.split)

lemma h_audit_update: "h_audit (UpdateUserHandler L S E r w) = h_audit w"
proof -
  have last: "h_audit (case UpdateUser S e i n h ro s of
      (Inl err, s') \<Rightarrow> if Contains err ''already taken''
          then reply (jsonError err StatusConflict) (w\<lparr>h_store := s'\<rparr>)
          else reply (jsonError ''Internal server error'' StatusInternalServerError) (w\<lparr>h_store := s'\<rparr>)
    | (Inr user, s') \<Rightarrow> reply (Write (JsonLine (user_response user)) \<circ> json_type) (w\<lparr>h_store := s'\<rparr>)) = h_audit w"
    for e i n h ro s
    by (simp split: sum.split prod.split)
  show ?thesis by (simp add: UpdateUserHandler_def Let_def last split: sum.split option.split)
qed

lemma h_audit_admin_routes:
  "h_audit (admin_users_route L S E r w) = h_audit w" "h_audit (admin_user_route L S E r w) = h_audit w"
  by (simp_all add: admin_users_route_def admin_user_route_def h_audit_admin h_audit_update)

lemma request_claims_path [simp]: "request_claims (r\<lparr>r_path_values := p\<rparr>) = request_claims r"
  by (simp add: request_claims_def)

lemma h_store_basic [simp]:
  "h_store (HealthHandler r w) = h_store w" "h_store (WhoamiHandler r w) = h_store w"
  "h_store (ProjectsHandler r w) = h_store w" "h_store (MeHandler r w) = h_store w"
  by (auto simp: HealthHandler_def WhoamiHandler_def ProjectsHandler_def MeHandler_def http_unauthorized_def Let_def
    split: option.splits)

lemma h_store_projects [simp]: "h_store (projects_route E r w) = h_store w"
  by (auto simp: projects_route_def RequirePermission_def Let_def split: option.splits)

lemma h_store_protected [simp]: "h_store (ServeMux (protected_routes E) r w) = h_store w"
  by (rule ServeMux_cases [of "protected_routes E" r w]) (auto simp: protected_routes_def)

lemma h_store_logger [simp]:
  "h_store (RequestLogger h r w) = h_store (h r (w\<lparr>h_out := new_writer\<rparr>))"
  by (simp add: RequestLogger_def Let_def)

text \<open>\<open>r'\<close> is \<open>r\<close> as a handler sees it: with path values, and with claims only from an accepted token.\<close>

definition served_as :: "'l libs \<Rightarrow> reqenv \<Rightarrow> request \<Rightarrow> request \<Rightarrow> bool" where
  "served_as L E r r' \<longleftrightarrow> (\<exists>c p. r' = r\<lparr>r_claims := c, r_path_values := p\<rparr>)
     \<and> (\<forall>c. request_claims r' = Some c \<longrightarrow> authenticated L E r c)"

lemma authenticated_path [simp]:
  "authenticated L E (r\<lparr>r_path_values := p\<rparr>) = authenticated L E r"
  by (simp add: authenticated_def Header_Get_def fun_eq_iff)

lemma served_as_plain:
  assumes "r_claims r = None" shows "served_as L E r (r\<lparr>r_path_values := p\<rparr>)"
  unfolding served_as_def using assms
  by (intro conjI exI [of _ "r_claims r"] exI [of _ p]) (auto simp: request_claims_def)

lemma served_as_claims:
  assumes "authenticated L E r c" shows "served_as L E r (r\<lparr>r_claims := Some (Some c), r_path_values := p\<rparr>)"
  unfolding served_as_def using assms
  by (intro conjI exI [of _ "Some (Some c)"] exI [of _ p]) (auto simp: request_claims_def)

lemma claims_path: "r\<lparr>r_path_values := p, r_claims := c\<rparr> = r\<lparr>r_claims := c, r_path_values := p\<rparr>"
  by (cases r) simp

text \<open>The audit file got exactly one line for the request, saying that an administrator was let in.\<close>

definition audited :: "reqenv \<Rightarrow> request \<Rightarrow> request \<Rightarrow> ('s, 'l) world \<Rightarrow> ('s, 'l) world \<Rightarrow> bool" where
  "audited E r r' w w' \<longleftrightarrow>
     (audit_fault E = None \<longrightarrow> (\<exists>c. request_claims r' = Some c \<and> h_audit w' = h_audit w @
        [\<lparr>ev_Timestamp = Format (t_audit E), ev_User = C_Subject c, ev_Role = ''admin'',
          ev_Action = ''ACCESS_ROLE_admin'', ev_Resource = r_path r, ev_Result = ''allow''\<rparr>]))"

context store begin

definition step_ok :: "'l libs \<Rightarrow> reqenv \<Rightarrow> nat \<Rightarrow> request \<Rightarrow> ('s, 'l) world \<Rightarrow> ('s, 'l) world \<Rightarrow> bool" where
  "step_ok L E l r w w' \<longleftrightarrow>
     (\<exists>r' adm. served_as L E r r' \<and> refines adm (inv l) view L r' (h_store w) (h_store w')
        \<and> (adm \<longrightarrow> audited E r r' w w'))"

lemma step_keep:
  "r_claims r = None \<Longrightarrow> inv (Suc l) (h_store w) \<Longrightarrow> h_store w' = h_store w \<Longrightarrow> step_ok L E l r w w'"
  unfolding step_ok_def using served_as_plain [of r L E "[]"] refines_keep by metis

lemma step_auth:
  assumes "r_claims r = None" "inv (Suc l) (h_store w)"
    and "\<And>c. authenticated L E r c \<Longrightarrow>
      \<exists>q adm. refines adm (inv l) view L (r\<lparr>r_claims := Some (Some c), r_path_values := q\<rparr>) (h_store w)
          (h_store (h (r\<lparr>r_claims := Some (Some c), r_path_values := p\<rparr>) w))
        \<and> (adm \<longrightarrow> audited E r (r\<lparr>r_claims := Some (Some c), r_path_values := q\<rparr>) w
              (h (r\<lparr>r_claims := Some (Some c), r_path_values := p\<rparr>) w))"
  shows "step_ok L E l r w (AuthMiddleware L E h (r\<lparr>r_path_values := p\<rparr>) w)"
proof (rule AuthMiddleware_cases [of L E h "r\<lparr>r_path_values := p\<rparr>" w], goal_cases refused passed)
  case refused
  with assms(1,2) show ?case by (intro step_keep) simp_all
next
  case (passed c)
  then have a: "authenticated L E r c" by simp
  from assms(3) [OF a] obtain q adm where
    "refines adm (inv l) view L (r\<lparr>r_claims := Some (Some c), r_path_values := q\<rparr>) (h_store w)
      (h_store (AuthMiddleware L E h (r\<lparr>r_path_values := p\<rparr>) w))"
    "adm \<longrightarrow> audited E r (r\<lparr>r_claims := Some (Some c), r_path_values := q\<rparr>) w
      (AuthMiddleware L E h (r\<lparr>r_path_values := p\<rparr>) w)"
    unfolding passed(2) claims_path by blast
  with served_as_claims [OF a] show ?case unfolding step_ok_def by blast
qed

lemma refines_admin:
  assumes "inv (Suc l) s" "up s" "good_env repr E" "h_store w = s"
    and w'_def: "w' = RequireRole E ''admin'' (ServeMux (admin_routes L S E)) r w"
  shows "\<exists>p adm. refines adm (inv l) view L (r\<lparr>r_path_values := p\<rparr>) s (h_store w')
    \<and> (adm \<longrightarrow> audited E r (r\<lparr>r_path_values := p\<rparr>) w w')"
proof -
  note keep = refines_keep [OF assms(1), where L = L and adm = False]
  have quiet: ?thesis if "h_store w' = s"
    using keep that by (intro exI [of _ "[]"] exI [of _ False]) simp
  show ?thesis
  proof (rule RequireRole_cases [of E "''admin''" "ServeMux (admin_routes L S E)" r w], goal_cases refused passed)
    case (refused ev f)
    then show ?case using assms(4) by (intro quiet) (simp add: w'_def)
  next
    case (passed c)
    let ?w = "audit E \<lparr>ev_Timestamp = [], ev_User = C_Subject c, ev_Role = ''admin'',
      ev_Action = ''ACCESS_ROLE_'' @ ''admin'', ev_Resource = r_path r, ev_Result = ''allow''\<rparr> w"
    have w: "h_store ?w = s" using assms(4) by simp
    have adm: "is_admin (r\<lparr>r_path_values := p\<rparr>)" for p using passed by (simp add: is_admin_def)
    show ?case
    proof (rule ServeMux_cases [of "admin_routes L S E" r ?w], goal_cases own handler)
      case (own f)
      then show ?case using assms(4) by (intro quiet) (simp add: w'_def passed(3))
    next
      case (handler pat h pvs)
      then have h: "h = admin_users_route L S E \<or> h = admin_user_route L S E" by (auto simp: admin_routes_def)
      note keep = refines_keep [OF assms(1), where L = L and adm = True]
      have "refines True (inv l) view L (r\<lparr>r_path_values := pvs\<rparr>) s (h_store (h (r\<lparr>r_path_values := pvs\<rparr>) ?w))"
        using h keep refines_read_user [OF assms(1) w, where L = L] refines_create_user [OF assms(1,2,3) w adm]
          refines_update_user [OF assms(1,2,3) w adm] refines_delete_user [OF assms(1,2) w adm, where L = L] assms(4)
        by (elim disjE) (simp_all add: admin_users_route_def admin_user_route_def)
      moreover have "audited E r (r\<lparr>r_path_values := pvs\<rparr>) w (h (r\<lparr>r_path_values := pvs\<rparr>) ?w)"
        using h passed(1)
        by (elim disjE) (simp_all add: audited_def h_audit_admin_routes h_audit_audit)
      ultimately show ?case unfolding w'_def passed(3) handler(3) by blast
    qed
  qed
qed

lemma server_step:
  assumes "inv (Suc l) (h_store w)" "up (h_store w)" "good_env repr E" "r_claims r = None"
  shows "step_ok L E l r w (ServerHandler L S E r w)"
proof -
  let ?w = "w\<lparr>h_out := new_writer\<rparr>"
  have w: "h_store ?w = h_store w" by simp
  have "step_ok L E l r ?w (ServeMux (main_routes L S E) r ?w)"
  proof (rule ServeMux_cases [of "main_routes L S E" r ?w], goal_cases own handler)
    case (own f)
    then show ?case using assms by (intro step_keep) simp_all
  next
    case (handler pat h pvs)
    let ?r = "\<lambda>c. r\<lparr>r_claims := Some (Some c), r_path_values := pvs\<rparr>"
    have plain: "step_ok L E l r ?w (h (r\<lparr>r_path_values := pvs\<rparr>) ?w)"
      if "refines False (inv l) view L (r\<lparr>r_path_values := pvs\<rparr>) (h_store w) (h_store (h (r\<lparr>r_path_values := pvs\<rparr>) ?w))"
      unfolding step_ok_def using served_as_plain [OF assms(4)] that by (metis w)
    note keep = refines_keep [OF assms(1), where L = L]
    from handler(1) consider "h = HealthHandler" | "h = LoginHandler L S E"
      | g where "h = AuthMiddleware L E g" "g = ServeMux (protected_routes E) \<or> g = MeHandler
          \<or> g = PasswordChangeHandler L S E \<or> g = sessions_route S E \<or> g = DeleteSessionHandler S E"
      | "h = AuthMiddleware L E (RequireRole E ''admin'' (ServeMux (admin_routes L S E)))"
      by (auto simp: main_routes_def Let_def)
    then have "step_ok L E l r ?w (h (r\<lparr>r_path_values := pvs\<rparr>) ?w)"
    proof cases
      case 1
      then show ?thesis using keep by (intro plain) simp
    next
      case 2
      then show ?thesis using refines_login [OF assms(1-3) w] by (intro plain) simp
    next
      case (3 g)
      have "refines False (inv l) view L (?r c) (h_store ?w) (h_store (g (?r c) ?w))" for c
        using 3(2) keep refines_password [OF assms(1-3) w] refines_delete_session [OF assms(1,2) w, where L = L]
          refines_delete_all [OF assms(1,2) w, where L = L] refines_sessions [OF assms(1) w, where L = L]
        by (auto simp: sessions_route_def)
      then have "\<exists>q adm. refines adm (inv l) view L (?r c\<lparr>r_path_values := q\<rparr>) (h_store ?w) (h_store (g (?r c) ?w))
          \<and> (adm \<longrightarrow> audited E r (?r c\<lparr>r_path_values := q\<rparr>) ?w (g (?r c) ?w))" for c
        by (intro exI [of _ pvs] exI [of _ False]) simp
      then show ?thesis unfolding 3(1) using assms by (intro step_auth) simp_all
    next
      case 4
      have "\<exists>q adm. refines adm (inv l) view L (?r c\<lparr>r_path_values := q\<rparr>) (h_store ?w)
            (h_store (RequireRole E ''admin'' (ServeMux (admin_routes L S E)) (?r c) ?w))
          \<and> (adm \<longrightarrow> audited E r (?r c\<lparr>r_path_values := q\<rparr>) ?w
                (RequireRole E ''admin'' (ServeMux (admin_routes L S E)) (?r c) ?w))" for c
        using refines_admin [OF assms(1-3) w refl, of L "?r c"] by (simp add: audited_def)
      then show ?thesis unfolding 4 using assms by (intro step_auth) simp_all
    qed
    then show ?case by (simp only: handler(3))
  qed
  then show ?thesis by (simp add: step_ok_def ServerHandler_def audited_def RequestLogger_def Let_def)
qed

end

end
