(* ===== verification/Runs.thy ===== *)
theory Runs
  imports Server_Facts
begin

text \<open>
  Runs of the server against runs of the abstract service, over a store whose medium always answers: serving a list of
  requests performs, for each of them in order, one action that it has the authority for.
\<close>

inductive authorised_run :: "'l libs \<Rightarrow> (reqenv \<times> request) list \<Rightarrow> accounts \<Rightarrow> accounts \<Rightarrow> bool" for L where
  Finished: "authorised_run L [] st st"
| Act: "served_as L E (incoming r) r' \<Longrightarrow> permitted L r' a st \<Longrightarrow> authorised_run L qs (perform a st) st' \<Longrightarrow>
    authorised_run L ((E, r) # qs) st st'"

inductive_simps authorised_run_simps [simp]: "authorised_run L [] st st'"

text \<open>What every permitted action keeps, every run keeps.\<close>

lemma authorised_invariant:
  assumes "authorised_run L qs st st'" "P st" "\<And>r a st. P st \<Longrightarrow> permitted L r a st \<Longrightarrow> P (perform a st)"
  shows "P st'"
  using assms(1,2) by (induction rule: authorised_run.induct) (auto intro: assms(3))

locale reliable_store = store +
  assumes always_up: "up s"
begin

lemma serve_all_refines:
  assumes "inv (length qs + l) (h_store w)" "\<forall>(E, r) \<in> set qs. good_env repr E"
  shows "inv l (h_store (serve_all L S qs w))
    \<and> authorised_run L qs (view (h_store w)) (view (h_store (serve_all L S qs w)))"
  using assms
proof (induction qs arbitrary: w)
  case (Cons q qs)
  obtain E r where q: "q = (E, r)" by (cases q)
  let ?v = "ServerHandler L S E (incoming r) w"
  have inv: "inv (Suc (length qs + l)) (h_store w)" and good: "good_env repr E" using Cons.prems by (auto simp: q)
  have "r_claims (incoming r) = None" by (simp add: incoming_def)
  from server_step [OF inv always_up good this, of L] obtain r' a where
    a: "served_as L E (incoming r) r'" "permitted L r' a (view (h_store w))" "inv (length qs + l) (h_store ?v)"
      "view (h_store ?v) = perform a (view (h_store w))"
    unfolding step_ok_def refines_def by blast
  from Cons.IH [OF a(3)] Cons.prems(2) have "inv l (h_store (serve_all L S qs ?v))
      \<and> authorised_run L qs (perform a (view (h_store w))) (view (h_store (serve_all L S qs ?v)))"
    by (simp add: a(4))
  with a(1,2) show ?case by (auto simp: q serve_def intro: authorised_run.Act)
qed (auto intro: authorised_run.Finished)

end

interpretation mem_reliable: reliable_store mem_ops mem_inv "\<lambda>_. True" "\<lambda>_. True" "\<lambda>t. t"
    "\<lambda>s. map_of (m_users s)" "\<lambda>s. map_of (m_sessions s)"
  by unfold_locales simp

end
