(* ===== verification/Go_Duration.thy ===== *)
theory Go_Duration
  imports Go_Time
begin

text \<open>
  \<open>time.ParseDuration\<close>, which reads \<open>CLEANUP_INTERVAL\<close>: its scanners, its unit table, its overflow checks on
  \<open>uint64\<close>, and the \<open>float64\<close> product it takes for the fraction of a unit. \<open>None\<close> is a non-nil error.
\<close>

section \<open>Scanners\<close>

definition is_digit :: "char \<Rightarrow> bool" where
  "is_digit c \<longleftrightarrow> digit_val c \<noteq> None"

fun leading_int :: "int \<Rightarrow> string \<Rightarrow> (int \<times> string) option" where
  "leading_int x [] = Some (x, [])"
| "leading_int x (c # s) =
     (case digit_val c of
        None \<Rightarrow> Some (x, c # s)
      | Some v \<Rightarrow>
          if 2 ^ 63 div 10 < x then None
          else (let y = x * 10 + v in if 2 ^ 63 < y then None else leading_int y s))"

text \<open>The digits after the point, the power of ten they are counted in, and the rest. Digits that do not fit are
  skipped.\<close>

fun leading_fraction :: "int \<Rightarrow> int \<Rightarrow> bool \<Rightarrow> string \<Rightarrow> int \<times> int \<times> string" where
  "leading_fraction x scale overflow [] = (x, scale, [])"
| "leading_fraction x scale overflow (c # s) =
     (case digit_val c of
        None \<Rightarrow> (x, scale, c # s)
      | Some v \<Rightarrow>
          if overflow \<or> (2 ^ 63 - 1) div 10 < x \<or> 2 ^ 63 < x * 10 + v then leading_fraction x scale True s
          else leading_fraction (x * 10 + v) (scale * 10) False s)"

definition unit_map :: "(string \<times> int) list" where
  "unit_map = [(''ns'', 1), (''us'', 1000), ([CHR 0xC2, CHR 0xB5, CHR ''s''], 1000),
     ([CHR 0xCE, CHR 0xBC, CHR ''s''], 1000), (''ms'', 1000000), (''s'', Second), (''m'', Minute), (''h'', Hour)]"

section \<open>The fraction\<close>

text \<open>The nearest \<open>float64\<close> to \<open>p / q\<close>, ties to even, as a multiple of \<open>2 ^ - 116\<close>. The numbers that occur lie
  between \<open>2 ^ - 64\<close> and \<open>2 ^ 64\<close>, so their 53 bits of precision are whole multiples.\<close>

function bits :: "int \<Rightarrow> nat" where
  "bits n = (if n \<le> 0 then 0 else Suc (bits (n div 2)))"
  by pat_completeness auto

termination
  by (relation "measure nat") auto

declare bits.simps [simp del]

definition float64 :: "int \<Rightarrow> int \<Rightarrow> int" where
  "float64 p q =
     (let P = p * 2 ^ 116;
          u = 2 ^ (bits (P div q) - 53);
          m = P div (q * u);
          r = P mod (q * u)
      in (if q * u < 2 * r \<or> q * u = 2 * r \<and> odd m then m + 1 else m) * u)"

text \<open>\<open>uint64(float64(f) * (float64(unit) / scale))\<close>.\<close>

definition scaled :: "int \<Rightarrow> int \<Rightarrow> int \<Rightarrow> int" where
  "scaled f unit scale = float64 (float64 f 1 * float64 unit scale) (2 ^ 116 * 2 ^ 116) div 2 ^ 116"

section \<open>The parser\<close>

text \<open>A number with an optional fraction, and whether it has a digit.\<close>

definition number :: "string \<Rightarrow> (int \<times> int \<times> int \<times> string) option" where
  "number s =
     (case leading_int 0 s of
        None \<Rightarrow> None
      | Some (v, s1) \<Rightarrow>
          (let pre = length s \<noteq> length s1;
               (f, scale, s2, post) =
                 (case s1 of
                    c # t \<Rightarrow> if c = CHR ''.''
                             then (let (f, scale, s2) = leading_fraction 0 1 False t in (f, scale, s2, length t \<noteq> length s2))
                             else (0, 1, s1, False)
                  | [] \<Rightarrow> (0, 1, s1, False))
           in if \<not> pre \<and> \<not> post then None else Some (v, f, scale, s2)))"

definition unit_end :: "char \<Rightarrow> bool" where
  "unit_end c \<longleftrightarrow> c = CHR ''.'' \<or> is_digit c"

lemma leading_int_length: "leading_int x s = Some (v, t) \<Longrightarrow> length t \<le> length s"
  by (induction x s rule: leading_int.induct) (fastforce simp: Let_def split: option.splits if_splits)+

lemma leading_fraction_length: "leading_fraction x sc ov s = (f, sc', t) \<Longrightarrow> length t \<le> length s"
  by (induction x sc ov s rule: leading_fraction.induct) (fastforce split: option.splits if_splits)+

lemma number_length: "number s = Some (v, f, sc, t) \<Longrightarrow> length t \<le> length s"
  by (fastforce simp: number_def Let_def split: option.splits list.splits if_splits prod.splits
    dest: leading_int_length leading_fraction_length)

text \<open>One turn of the loop: a number with its unit.\<close>

definition duration_term :: "int \<Rightarrow> string \<Rightarrow> (int \<times> string) option" where
  "duration_term d s =
     (if \<not> unit_end (hd s) then None
      else case number s of
          None \<Rightarrow> None
        | Some (v, f, scale, s2) \<Rightarrow>
            (let u = takeWhile (\<lambda>c. \<not> unit_end c) s2
             in if u = [] then None
                else case map_of unit_map u of
                    None \<Rightarrow> None
                  | Some unit \<Rightarrow>
                      if 2 ^ 63 div unit < v then None
                      else (let v' = (if 0 < f then v * unit + scaled f unit scale else v * unit);
                                d' = (d + v') mod 2 ^ 64
                            in if 0 < f \<and> 2 ^ 63 < v' \<or> 2 ^ 63 < d' then None
                               else Some (d', dropWhile (\<lambda>c. \<not> unit_end c) s2))))"

lemma duration_term_shorter: "duration_term d s = Some (d', t) \<Longrightarrow> length t < length s"
proof -
  assume "duration_term d s = Some (d', t)"
  then obtain v f sc s2 where n: "number s = Some (v, f, sc, s2)" and u: "takeWhile (\<lambda>c. \<not> unit_end c) s2 \<noteq> []"
      and t: "t = dropWhile (\<lambda>c. \<not> unit_end c) s2"
    by (auto simp: duration_term_def Let_def split: option.splits prod.splits if_splits)
  have "length s2 = length (takeWhile (\<lambda>c. \<not> unit_end c) s2) + length t"
    unfolding t by (metis length_append takeWhile_dropWhile_id)
  with u number_length [OF n] show ?thesis by (cases "takeWhile (\<lambda>c. \<not> unit_end c) s2") auto
qed

lemma duration_term_bounds: "duration_term d s = Some (d', t) \<Longrightarrow> 0 \<le> d' \<and> d' \<le> 2 ^ 63"
  by (auto simp: duration_term_def Let_def not_less split: option.splits prod.splits if_splits)

function parse_units :: "int \<Rightarrow> string \<Rightarrow> int option" where
  "parse_units d s =
     (if s = [] then Some d
      else case duration_term d s of None \<Rightarrow> None | Some (d', t) \<Rightarrow> parse_units d' t)"
  by pat_completeness auto

termination
  by (relation "measure (\<lambda>(_, s). length s)") (auto dest: duration_term_shorter)

declare parse_units.simps [simp del]

lemma parse_units_bounds: "parse_units d s = Some v \<Longrightarrow> 0 \<le> d \<Longrightarrow> d \<le> 2 ^ 63 \<Longrightarrow> 0 \<le> v \<and> v \<le> 2 ^ 63"
proof (induction d s rule: parse_units.induct)
  case (1 d s)
  show ?case
  proof (cases "s = []")
    case True
    with 1 show ?thesis by (simp add: parse_units.simps)
  next
    case False
    with 1(2) obtain d' t where "duration_term d s = Some (d', t)" "parse_units d' t = Some v"
      by (subst (asm) parse_units.simps) (auto split: option.splits prod.splits)
    with 1(1) [OF False this(1) refl] duration_term_bounds show ?thesis by blast
  qed
qed

definition ParseDuration :: "string \<Rightarrow> duration option" where
  "ParseDuration orig =
     (let (neg, s) = (case orig of c # t \<Rightarrow> if c = CHR ''-'' \<or> c = CHR ''+'' then (c = CHR ''-'', t) else (False, orig)
                      | [] \<Rightarrow> (False, orig))
      in if s = ''0'' then Some 0
         else if s = [] then None
         else case parse_units 0 s of
             None \<Rightarrow> None
           | Some d \<Rightarrow> if neg then Some (- d) else if 2 ^ 63 - 1 < d then None else Some d)"

text \<open>The result is an \<open>int64\<close>.\<close>

lemma ParseDuration_in_int64: "ParseDuration s = Some d \<Longrightarrow> in_int64 d"
  by (auto simp: ParseDuration_def Let_def in_int64_def split: list.splits if_splits option.splits prod.splits
    dest: parse_units_bounds)

text \<open>A whole number of one unit is read exactly, as long as it is an \<open>int64\<close> of nanoseconds.\<close>

lemma parse_digits_mono: "parse_digits x s = Some y \<Longrightarrow> 0 \<le> x \<Longrightarrow> x \<le> y"
proof (induction x s rule: parse_digits.induct)
  case (2 x c s)
  then obtain v where v: "digit_val c = Some v" "parse_digits (10 * x + v) s = Some y" by (auto split: option.splits)
  then have "0 \<le> v" by (auto simp: digit_val_def Let_def split: if_splits)
  with 2 v show ?case by fastforce
qed simp

lemma leading_int_digits:
  "parse_digits x ds = Some y \<Longrightarrow> 0 \<le> x \<Longrightarrow> y \<le> 2 ^ 63 \<Longrightarrow> leading_int x (ds @ t) = leading_int y t"
proof (induction x ds rule: parse_digits.induct)
  case (2 x c s)
  then obtain v where v: "digit_val c = Some v" "parse_digits (10 * x + v) s = Some y" by (auto split: option.splits)
  then have "0 \<le> v" by (auto simp: digit_val_def Let_def split: if_splits)
  with v 2 have "leading_int (10 * x + v) (s @ t) = leading_int y t" "10 * x + v \<le> 2 ^ 63"
    using parse_digits_mono [OF v(2)] by auto
  with v \<open>0 \<le> v\<close> show ?case by (auto simp: Let_def algebra_simps)
qed simp

lemma number_whole:
  assumes "int n \<le> 2 ^ 63" "list_all (\<lambda>c. \<not> unit_end c) u" "u \<noteq> []"
  shows "number (show_nat n @ u) = Some (int n, 0, 1, u)"
proof -
  obtain k where "parse_digits 0 (show_nat n) = Some (int n)" using parse_digits_show_nat [of 0 n] by auto
  from leading_int_digits [OF this _ assms(1)] have "leading_int 0 (show_nat n @ u) = leading_int (int n) u" by simp
  moreover from assms(2,3) obtain c t where u: "u = c # t" "\<not> unit_end c" by (cases u) auto
  then have "leading_int (int n) u = Some (int n, u)" by (simp add: unit_end_def is_digit_def)
  moreover have "c \<noteq> CHR ''.''" using u by (auto simp: unit_end_def)
  ultimately show ?thesis using show_nat_nonempty [of n] u by (simp add: number_def)
qed

lemma ParseDuration_whole:
  assumes "(u, k) \<in> set unit_map" "int n * k < 2 ^ 63"
  shows "ParseDuration (show_nat n @ u) = Some (int n * k)"
proof -
  have "list_all (\<lambda>(u, k). u \<noteq> [] \<and> list_all (\<lambda>c. \<not> unit_end c) u \<and> map_of unit_map u = Some k \<and> 0 < k) unit_map"
    by code_simp
  with assms(1) have u: "u \<noteq> []" "list_all (\<lambda>c. \<not> unit_end c) u" "map_of unit_map u = Some k" "0 < k"
    by (auto simp: list_all_iff)
  have "int n * 1 \<le> int n * k" using u(4) by (intro mult_left_mono) auto
  with assms(2) have n: "int n \<le> 2 ^ 63" by linarith
  have div: "\<not> 2 ^ 63 div k < int n"
    using zdiv_mono1 [of "int n * k" "2 ^ 63" k] assms(2) u(4) by simp
  obtain d s where s: "show_nat n = digit_char d # s" "d < 10"
    using show_nat_nonempty [of n] show_nat_chars by (metis list.exhaust list.set_intros(1))
  have hd: "unit_end (hd (show_nat n @ u))" by (simp add: s unit_end_def is_digit_def)
  have take: "takeWhile (\<lambda>c. \<not> unit_end c) u = u" "dropWhile (\<lambda>c. \<not> unit_end c) u = []"
    using u(2) by (auto simp: list_all_iff)
  have "duration_term 0 (show_nat n @ u) = Some (int n * k, [])"
    using hd number_whole [OF n u(2,1)] u div assms(2)
    by (simp add: duration_term_def take Let_def)
  then have "parse_units 0 (show_nat n @ u) = Some (int n * k)"
    using s by (simp add: parse_units.simps)
  moreover have "digit_char d \<noteq> CHR ''-''" "digit_char d \<noteq> CHR ''+''" using digit_char_no_sign [OF s(2)] by auto
  ultimately show ?thesis using s assms(2) u(1) by (simp add: ParseDuration_def)
qed

end
