(* ===== verification/Worker.thy ===== *)
theory Worker
  imports Go_Duration Server
begin

text \<open>
  \<open>CleanupWorker\<close> (\<open>internal/worker/cleanup.go\<close>): the goroutine that \<open>Start\<close> launches, as a state machine. Its loop
  selects between a tick of its ticker, on which it reads the users and logs the stale ones, and the channel
  \<open>done\<close>, on which it returns. It runs beside the server: requests, ticks and the closing of \<open>done\<close> come in
  any order between its steps. Its log lines are kept as data.

  Handlers overlap. Each writes to the store at most once, after its lookups (\<open>Store_Calls.server_writes\<close>), so a request is
  an event at the moment of its write, with the two states of the store so far that answered its lookups
  (\<open>overtaken\<close>). So the states of the store are those of any interleaving of the handlers' calls, for a store that hands
  out copies of what it holds, as \<open>SQLiteStore\<close> does.
\<close>

section \<open>The worker\<close>

record 's cleanup_worker =
  cw_store :: "'s store_ops"
  cw_interval :: duration

definition NewCleanupWorker :: "'s store_ops \<Rightarrow> duration \<Rightarrow> 's cleanup_worker" where
  "NewCleanupWorker s interval = \<lparr>cw_store = s, cw_interval = interval\<rparr>"

datatype worker_line = ListFailed string | StaleUser int instant | WorkerStopped

text \<open>\<open>time.Since\<close>, which saturates at the bounds of an \<open>int64\<close>.\<close>

definition Since :: "instant \<Rightarrow> instant \<Rightarrow> duration" where
  "Since now t = max (- (2 ^ 63)) (min (2 ^ 63 - 1) (now - t))"

text \<open>The loop over the users, with the reading of the clock for each.\<close>

fun report :: "(nat \<Rightarrow> instant) \<Rightarrow> nat \<Rightarrow> user list \<Rightarrow> worker_line list" where
  "report clock i [] = []"
| "report clock i (u # us) =
     (if 24 * Hour < Since (clock i) (U_UpdatedAt u) then [StaleUser (U_ID u) (U_UpdatedAt u)] else [])
     @ report clock (Suc i) us"

definition pass_lines :: "'s cleanup_worker \<Rightarrow> senv \<Rightarrow> (nat \<Rightarrow> instant) \<Rightarrow> 's \<Rightarrow> worker_line list" where
  "pass_lines W e clock s =
     (case ListUsers (cw_store W) e [] s of
        Inl err \<Rightarrow> [ListFailed err]
      | Inr users \<Rightarrow> report clock 0 users)"

section \<open>The goroutine\<close>

text \<open>\<open>Starting\<close> is before \<open>time.NewTicker\<close>, which panics when the interval is not positive; the panic ends the
  process.\<close>

datatype pc = Starting | Selecting | Returned | Panicked

record ('s, 'l) system =
  wk_pc :: pc
  wk_tick :: bool                \<comment> \<open>a tick waits in \<open>ticker.C\<close>\<close>
  wk_done :: bool                \<comment> \<open>\<open>done\<close> is closed\<close>
  wk_lines :: "worker_line list"
  wk_world :: "('s, 'l) world"   \<comment> \<open>the server beside it\<close>
  wk_past :: "'s list"           \<comment> \<open>the states of the store so far\<close>

definition Start :: "('s, 'l) world \<Rightarrow> ('s, 'l) system" where
  "Start w = \<lparr>wk_pc = Starting, wk_tick = False, wk_done = False, wk_lines = [], wk_world = w, wk_past = [h_store w]\<rparr>"

datatype worker_event = NewTicker | Tick | Pass senv "nat \<Rightarrow> instant" | Close | Stop | Request reqenv request nat nat | Idle

inductive worker_step ::
  "'l libs \<Rightarrow> 's cleanup_worker \<Rightarrow> worker_event \<Rightarrow> ('s, 'l) system \<Rightarrow> ('s, 'l) system \<Rightarrow> bool" for L W where
  NewTicker: "wk_pc x = Starting \<Longrightarrow>
    worker_step L W NewTicker x (x\<lparr>wk_pc := if cw_interval W \<le> 0 then Panicked else Selecting\<rparr>)"
| Tick: "wk_pc x = Selecting \<Longrightarrow> worker_step L W Tick x (x\<lparr>wk_tick := True\<rparr>)"
| Pass: "wk_pc x = Selecting \<Longrightarrow> wk_tick x \<Longrightarrow>
    worker_step L W (Pass e clock) x
      (x\<lparr>wk_tick := False, wk_lines := wk_lines x @ pass_lines W e clock (h_store (wk_world x))\<rparr>)"
| Stop: "wk_pc x = Selecting \<Longrightarrow> wk_done x \<Longrightarrow>
    worker_step L W Stop x (x\<lparr>wk_pc := Returned, wk_lines := wk_lines x @ [WorkerStopped]\<rparr>)"
| Close: "wk_pc x \<noteq> Panicked \<Longrightarrow> \<not> wk_done x \<Longrightarrow> worker_step L W Close x (x\<lparr>wk_done := True\<rparr>)"
| Request: "wk_pc x \<noteq> Panicked \<Longrightarrow> i \<le> j \<Longrightarrow> j < length (wk_past x) \<Longrightarrow>
    w = serve L (overtaken (wk_past x ! i) (wk_past x ! j) (cw_store W)) (E, r) (wk_world x) \<Longrightarrow>
    worker_step L W (Request E r i j) x (x\<lparr>wk_world := w, wk_past := wk_past x @ [h_store w]\<rparr>)"
| Idle: "worker_step L W Idle x x"

inductive_cases worker_stepE: "worker_step L W ev x y"

inductive_simps worker_step_simps [simp]:
  "worker_step L W NewTicker x y" "worker_step L W Tick x y" "worker_step L W (Pass e clock) x y"
  "worker_step L W Close x y" "worker_step L W Stop x y" "worker_step L W (Request E r i j) x y" "worker_step L W Idle x y"

inductive worker_run ::
  "'l libs \<Rightarrow> 's cleanup_worker \<Rightarrow> worker_event list \<Rightarrow> ('s, 'l) system \<Rightarrow> ('s, 'l) system \<Rightarrow> bool" for L W where
  Nothing: "worker_run L W [] x x"
| Then: "worker_step L W ev x y \<Longrightarrow> worker_run L W evs y z \<Longrightarrow> worker_run L W (ev # evs) x z"

section \<open>What it does\<close>

lemma Since_stale: "24 * Hour < Since now t \<longleftrightarrow> t + 24 * Hour < now"
  by (auto simp: Since_def duration_units)

text \<open>With a clock that reads from \<open>t0\<close> to \<open>t1\<close> during the loop.\<close>

lemma report_spec:
  assumes "\<And>i. t0 \<le> clock i \<and> clock i \<le> t1"
  shows "\<exists>vs. report clock i us = map (\<lambda>u. StaleUser (U_ID u) (U_UpdatedAt u)) vs \<and> (distinct us \<longrightarrow> distinct vs)
    \<and> {u \<in> set us. U_UpdatedAt u + 24 * Hour < t0} \<subseteq> set vs \<and> set vs \<subseteq> {u \<in> set us. U_UpdatedAt u + 24 * Hour < t1}"
proof (induction us arbitrary: i)
  case (Cons u us)
  from Cons [of "Suc i"] obtain vs where vs: "report clock (Suc i) us = map (\<lambda>u. StaleUser (U_ID u) (U_UpdatedAt u)) vs"
    "distinct us \<longrightarrow> distinct vs" "{u \<in> set us. U_UpdatedAt u + 24 * Hour < t0} \<subseteq> set vs"
    "set vs \<subseteq> {u \<in> set us. U_UpdatedAt u + 24 * Hour < t1}" by blast
  show ?case
    using vs assms [of i]
    by (intro exI [of _ "if U_UpdatedAt u + 24 * Hour < clock i then u # vs else vs"]) (auto simp: Since_stale)
qed simp

fun requests :: "worker_event list \<Rightarrow> (reqenv \<times> request \<times> nat \<times> nat) list" where
  "requests [] = []"
| "requests (Request E r i j # evs) = (E, r, i, j) # requests evs"
| "requests (_ # evs) = requests evs"

lemma run_world:
  "worker_run L W evs x y \<Longrightarrow>
    (wk_past y, wk_world y) = serve_over L (cw_store W) (requests evs) (wk_past x, wk_world x)"
proof (induction rule: worker_run.induct)
  case (Then ev x y evs z)
  then show ?case by (cases ev) (auto simp: Let_def)
qed simp

text \<open>Worker steps that can still come once \<open>done\<close> is closed: a pass for the tick that waits and for each tick to
  come, and the return.\<close>

definition own :: "worker_event \<Rightarrow> bool" where
  "own ev \<longleftrightarrow> (case ev of NewTicker \<Rightarrow> True | Pass _ _ \<Rightarrow> True | Stop \<Rightarrow> True | _ \<Rightarrow> False)"

definition budget :: "('s, 'l) system \<Rightarrow> nat" where
  "budget x = (case wk_pc x of Starting \<Rightarrow> 2 | Selecting \<Rightarrow> 1 | _ \<Rightarrow> 0)
     + (if wk_tick x \<and> wk_pc x \<noteq> Returned \<and> wk_pc x \<noteq> Panicked then 1 else 0)"

lemma step_budget:
  "worker_step L W ev x y \<Longrightarrow> (if own ev then 1 else 0) + budget y \<le> budget x + (if ev = Tick then 1 else 0)"
  by (cases ev) (auto simp: own_def budget_def split: pc.splits)

lemma run_budget:
  "worker_run L W evs x y \<Longrightarrow> length (filter own evs) + budget y \<le> budget x + length (filter (\<lambda>ev. ev = Tick) evs)"
proof (induction rule: worker_run.induct)
  case (Then ev x y evs z)
  from step_budget [OF Then(1)] Then(3) show ?case by (auto split: if_splits)
qed simp

lemma done_stays: "worker_step L W ev x y \<Longrightarrow> wk_done x \<Longrightarrow> wk_done y"
  by (cases ev) auto

lemma returned_stays: "worker_step L W ev x y \<Longrightarrow> wk_pc x = Returned \<Longrightarrow> wk_pc y = Returned \<and> wk_lines y = wk_lines x"
  by (cases ev) auto

lemma panicked_stays: "worker_step L W ev x y \<Longrightarrow> wk_pc x = Panicked \<Longrightarrow> y = x \<and> ev = Idle"
  by (cases ev) auto

section \<open>Fair executions\<close>

definition execution :: "'l libs \<Rightarrow> 's cleanup_worker \<Rightarrow> (nat \<Rightarrow> worker_event) \<Rightarrow> (nat \<Rightarrow> ('s, 'l) system) \<Rightarrow> bool" where
  "execution L W lab sys \<longleftrightarrow> (\<forall>n. worker_step L W (lab n) (sys n) (sys (Suc n)))"

definition enabled :: "'l libs \<Rightarrow> 's cleanup_worker \<Rightarrow> worker_event \<Rightarrow> ('s, 'l) system \<Rightarrow> bool" where
  "enabled L W ev x \<longleftrightarrow> (\<exists>y. worker_step L W ev x y)"

text \<open>The scheduler runs the goroutine, and \<open>select\<close> does not pass over a ready channel for ever.\<close>

definition fair :: "'l libs \<Rightarrow> 's cleanup_worker \<Rightarrow> (nat \<Rightarrow> worker_event) \<Rightarrow> (nat \<Rightarrow> ('s, 'l) system) \<Rightarrow> bool" where
  "fair L W lab sys \<longleftrightarrow> (\<forall>ev \<in> {NewTicker, Stop}. \<forall>n. (\<forall>m \<ge> n. enabled L W ev (sys m)) \<longrightarrow> (\<exists>m \<ge> n. lab m = ev))"

lemma execution_step: "execution L W lab sys \<Longrightarrow> worker_step L W (lab n) (sys n) (sys (Suc n))"
  by (simp add: execution_def)

lemma execution_stays:
  assumes "execution L W lab sys" "P (sys n)" "\<And>ev x y. worker_step L W ev x y \<Longrightarrow> P x \<Longrightarrow> P y"
  shows "m \<ge> n \<Longrightarrow> P (sys m)"
proof (induction m rule: dec_induct)
  case (step k)
  with assms(3) [OF execution_step [OF assms(1)]] show ?case by blast
qed (rule assms(2))

lemma started:
  assumes "execution L W lab sys" "fair L W lab sys"
  shows "\<exists>m \<ge> n. wk_pc (sys m) \<noteq> Starting"
proof (rule ccontr)
  assume "\<not> ?thesis"
  then have s: "\<And>m. m \<ge> n \<Longrightarrow> wk_pc (sys m) = Starting" by auto
  then have "\<forall>m \<ge> n. enabled L W NewTicker (sys m)" by (simp add: enabled_def)
  with assms(2) obtain m where "m \<ge> n" "lab m = NewTicker" unfolding fair_def by blast
  with execution_step [OF assms(1), of m] s [of m] s [of "Suc m"] show False by (auto split: if_splits)
qed

lemma fair_returns:
  assumes "execution L W lab sys" "fair L W lab sys" "wk_done (sys n)" "wk_pc (sys n) \<noteq> Panicked" "0 < cw_interval W"
  shows "\<exists>m \<ge> n. wk_pc (sys m) = Returned"
proof (rule ccontr)
  assume "\<not> ?thesis"
  then have r: "\<And>m. m \<ge> n \<Longrightarrow> wk_pc (sys m) \<noteq> Returned" by auto
  have p: "wk_pc (sys m) \<noteq> Panicked" if "m \<ge> n" for m
  proof (rule execution_stays [where P = "\<lambda>x. wk_pc x \<noteq> Panicked", OF assms(1) assms(4) _ that])
    show "wk_pc y \<noteq> Panicked" if "worker_step L W ev x y" "wk_pc x \<noteq> Panicked" for ev x y
      using that assms(5) by (cases ev) auto
  qed
  have d: "wk_done (sys m)" if "m \<ge> n" for m
    by (rule execution_stays [where P = wk_done, OF assms(1,3) done_stays that])
  from started [OF assms(1,2)] obtain k where k: "k \<ge> n" "wk_pc (sys k) \<noteq> Starting" by blast
  have s: "wk_pc (sys m) = Selecting" if "m \<ge> k" for m
  proof -
    have "wk_pc (sys m) \<noteq> Starting"
    proof (rule execution_stays [where P = "\<lambda>x. wk_pc x \<noteq> Starting", OF assms(1) k(2) _ that])
      show "wk_pc y \<noteq> Starting" if "worker_step L W ev x y" "wk_pc x \<noteq> Starting" for ev x y
        using that by (cases ev) auto
    qed
    with r [of m] p [of m] that k(1) show ?thesis by (cases "wk_pc (sys m)") auto
  qed
  with d k(1) have "\<forall>m \<ge> k. enabled L W Stop (sys m)" by (simp add: enabled_def)
  with assms(2) obtain m where m: "m \<ge> k" "lab m = Stop" unfolding fair_def by blast
  with execution_step [OF assms(1), of m] r [of "Suc m"] k(1) show False by auto
qed

lemma fair_panics:
  assumes "execution L W lab sys" "fair L W lab sys" "wk_pc (sys 0) = Starting" "cw_interval W \<le> 0"
  shows "\<exists>m. \<forall>k \<ge> m. wk_pc (sys k) = Panicked \<and> lab k = Idle"
proof -
  have p: "wk_pc (sys m) = Starting \<or> wk_pc (sys m) = Panicked" for m
  proof (rule execution_stays [where P = "\<lambda>x. wk_pc x = Starting \<or> wk_pc x = Panicked", OF assms(1) _ _ le0 [of m]])
    show "wk_pc y = Starting \<or> wk_pc y = Panicked"
      if "worker_step L W ev x y" "wk_pc x = Starting \<or> wk_pc x = Panicked" for ev x y
      using that assms(4) by (cases ev) auto
  qed (use assms(3) in simp)
  from started [OF assms(1,2)] obtain m where "wk_pc (sys m) \<noteq> Starting" by blast
  with p have m: "wk_pc (sys m) = Panicked" by blast
  have "wk_pc (sys k) = Panicked" if "k \<ge> m" for k
    by (rule execution_stays [where P = "\<lambda>x. wk_pc x = Panicked", OF assms(1) m _ that]) (use panicked_stays in blast)
  then show ?thesis using panicked_stays [OF execution_step [OF assms(1)]] by blast
qed

end
