(* ===== verification/Response_Facts.thy ===== *)
theory Response_Facts
  imports Server_Facts
begin

text \<open>
  Responses: no handler sends a status other than the one the logger's wrapper recorded, and no
  handler of the server panics, so every request is logged once, with the status the client got.
\<close>

text \<open>A well-behaved handler: on a fresh response the status the wrapper recorded is the one
  the client sees, and it does not panic.\<close>

definition behaves :: "('s, 'l) handler \<Rightarrow> request \<Rightarrow> bool" where
  "behaves h r \<longleftrightarrow> (\<forall>w. fresh (h_out w) \<longrightarrow> agrees (h_out (h r w)) \<and> h_panic (h r w) = h_panic w
      \<and> h_requests (h r w) = h_requests w)"

lemma behavesD:
  "behaves h r \<Longrightarrow> fresh (h_out w) \<Longrightarrow> agrees (h_out (h r w)) \<and> h_panic (h r w) = h_panic w
    \<and> h_requests (h r w) = h_requests w"
  by (simp add: behaves_def)

lemma behaves_basic:
  "behaves HealthHandler r" "behaves ProjectsHandler r" "behaves MeHandler r"
  "r_claims r \<noteq> Some None \<Longrightarrow> behaves WhoamiHandler r"
  by (auto simp: behaves_def handler_defs Let_def split: option.splits)

text \<open>Every reply of the handlers below is one of these.\<close>

definition good_reply :: "('s, 'l) world \<Rightarrow> ('s, 'l) world \<Rightarrow> bool" where
  "good_reply w w' \<longleftrightarrow> agrees (h_out w') \<and> h_panic w' = h_panic w \<and> h_requests w' = h_requests w"

lemma good_reply_simps:
  "fresh (h_out v) \<Longrightarrow> h_panic v = h_panic w \<Longrightarrow> h_requests v = h_requests w \<Longrightarrow>
    good_reply w (reply (jsonError m c) v)"
  "fresh (h_out v) \<Longrightarrow> h_panic v = h_panic w \<Longrightarrow> h_requests v = h_requests w \<Longrightarrow>
    good_reply w (reply (WriteHeader c) v)"
  "fresh (h_out v) \<Longrightarrow> h_panic v = h_panic w \<Longrightarrow> h_requests v = h_requests w \<Longrightarrow>
    good_reply w (reply (Write b \<circ> json_type) v)"
  "fresh (h_out v) \<Longrightarrow> h_panic v = h_panic w \<Longrightarrow> h_requests v = h_requests w \<Longrightarrow>
    good_reply w (reply (Write b \<circ> WriteHeader c) v)"
  "fresh (h_out v) \<Longrightarrow> h_panic v = h_panic w \<Longrightarrow> h_requests v = h_requests w \<Longrightarrow>
    good_reply w (reply (Write b \<circ> WriteHeader c \<circ> json_type) v)"
  by (simp_all add: good_reply_def)

lemma behavesI: "(\<And>w. fresh (h_out w) \<Longrightarrow> good_reply w (h r w)) \<Longrightarrow> behaves h r"
  by (simp add: behaves_def good_reply_def)

lemma behaves_login: "behaves (LoginHandler L S E) r"
  by (rule behavesI) (simp add: LoginHandler_def Let_def good_reply_simps split: option.split sum.split prod.split)

lemma behaves_sessions:
  "behaves (SessionsHandler S E) r" "behaves (DeleteSessionHandler S E) r"
  "behaves (DeleteAllSessionsHandler S E) r"
  by (rule behavesI, simp add: SessionsHandler_def DeleteSessionHandler_def DeleteAllSessionsHandler_def
    http_unauthorized_def Let_def good_reply_def split: option.split sum.split prod.split)+

lemma behaves_password: "behaves (PasswordChangeHandler L S E) r"
  by (rule behavesI) (simp add: PasswordChangeHandler_def http_unauthorized_def Let_def good_reply_def
    split: option.split sum.split prod.split)

lemmas behaves_auth = behaves_login behaves_sessions behaves_password

lemma behaves_users:
  "behaves (ListUsersHandler S E) r" "behaves (GetUserHandler S E) r" "behaves (DeleteUserHandler S) r"
  by (rule behavesI, simp add: ListUsersHandler_def GetUserHandler_def DeleteUserHandler_def
    good_reply_simps split: option.split sum.split prod.split)+

lemma behaves_create: "behaves (CreateUserHandler L S E) r"
  by (rule behavesI) (simp add: CreateUserHandler_def good_reply_simps split: option.split sum.split prod.split)

lemma behaves_update: "behaves (UpdateUserHandler L S E) r"
proof (rule behavesI)
  fix w :: "('a, 'b) world" assume f: "fresh (h_out w)"
  have last: "good_reply w (case UpdateUser S e i n h ro s of
      (Inl err, s') \<Rightarrow> if Contains err ''already taken''
          then reply (jsonError err StatusConflict) (w\<lparr>h_store := s'\<rparr>)
          else reply (jsonError ''Internal server error'' StatusInternalServerError) (w\<lparr>h_store := s'\<rparr>)
    | (Inr user, s') \<Rightarrow> reply (Write (JsonLine (user_response user)) \<circ> json_type) (w\<lparr>h_store := s'\<rparr>))"
    for e i n h ro s
    using f by (simp add: good_reply_simps split: sum.split prod.split)
  show "good_reply w (UpdateUserHandler L S E r w)"
    using f by (simp add: UpdateUserHandler_def Let_def good_reply_simps last split: sum.split option.split)
qed

lemmas behaves_admin = behaves_users behaves_create behaves_update

lemma behaves_mux:
  assumes "\<And>pat h pvs. (pat, h) \<in> set rs \<Longrightarrow> behaves h (r\<lparr>r_path_values := pvs\<rparr>)"
  shows "behaves (ServeMux rs) r"
  unfolding behaves_def
proof (intro allI impI)
  fix w :: "('a, 'b) world" assume f: "fresh (h_out w)"
  show "agrees (h_out (ServeMux rs r w)) \<and> h_panic (ServeMux rs r w) = h_panic w
    \<and> h_requests (ServeMux rs r w) = h_requests w"
    using f assms
    by (rule_tac ServeMux_cases [of rs r w]) (simp_all add: behaves_def)
qed

lemma behaves_AuthMiddleware:
  assumes "\<And>c. behaves h (r\<lparr>r_claims := Some (Some c)\<rparr>)"
  shows "behaves (AuthMiddleware L E h) r"
  unfolding behaves_def
proof (intro allI impI)
  fix w :: "('a, 'b) world" assume f: "fresh (h_out w)"
  show "agrees (h_out (AuthMiddleware L E h r w)) \<and> h_panic (AuthMiddleware L E h r w) = h_panic w
    \<and> h_requests (AuthMiddleware L E h r w) = h_requests w"
    using f assms
    by (rule_tac AuthMiddleware_cases [of L E h r w]) (simp_all add: behaves_def)
qed

lemma behaves_RequireRole:
  assumes "behaves h r"
  shows "behaves (RequireRole E role h) r"
  unfolding behaves_def
proof (intro allI impI)
  fix w :: "('a, 'b) world" assume f: "fresh (h_out w)"
  show "agrees (h_out (RequireRole E role h r w)) \<and> h_panic (RequireRole E role h r w) = h_panic w
    \<and> h_requests (RequireRole E role h r w) = h_requests w"
    using f assms
    by (rule_tac RequireRole_cases [of E role h r w]) (simp_all add: behaves_def)
qed

lemma behaves_RequirePermission:
  "behaves h r \<Longrightarrow> behaves (RequirePermission E action resource h) r"
  by (auto simp: behaves_def RequirePermission_def Let_def split: option.split)

lemma behaves_if:
  "behaves h r \<Longrightarrow> behaves k r \<Longrightarrow> behaves (\<lambda>r w. if r_method r = m then h r w else k r w) r"
  by (simp add: behaves_def)

lemma behaves_not_allowed: "behaves (\<lambda>r. reply (main_jsonError m c)) r"
  by (simp add: behaves_def)

lemma behaves_routes:
  "behaves (projects_route E) r" "behaves (sessions_route S E) r" "behaves (admin_users_route L S E) r"
  "behaves (admin_user_route L S E) r"
  unfolding projects_route_def [abs_def] sessions_route_def [abs_def] admin_users_route_def [abs_def]
    admin_user_route_def [abs_def] Let_def
  by (intro behaves_if behaves_RequirePermission behaves_basic behaves_auth behaves_admin behaves_not_allowed)+

lemma behaves_main: "behaves (ServeMux (main_routes L S E)) r"
proof -
  have protected: "behaves (ServeMux (protected_routes E)) r" if "r_claims r \<noteq> Some None" for r
    using that by (intro behaves_mux) (auto simp: protected_routes_def behaves_routes intro: behaves_basic)
  have admin: "behaves (ServeMux (admin_routes L S E)) r" for r
    by (intro behaves_mux) (auto simp: admin_routes_def behaves_routes)
  show ?thesis
    by (intro behaves_mux)
      (auto simp: main_routes_def Let_def
        intro!: behaves_basic behaves_auth behaves_routes behaves_AuthMiddleware behaves_RequireRole protected admin)
qed

lemma server_logs:
  assumes "\<not> h_panic w"
  shows "h_requests (ServerHandler L S E r w)
     = h_requests w @ [(r_method r, r_path r, status (h_out (ServerHandler L S E r w)))]"
    "\<not> h_panic (ServerHandler L S E r w)" 
  using behaves_main [of L S E r] assms
  by (auto simp: behaves_def ServerHandler_def RequestLogger_def Let_def agrees_def)

end
