(* ===== verification/Route_Facts.thy ===== *)
theory Route_Facts
  imports Response_Facts
begin

text \<open>
  Which handler a path reaches, what a token signed by \<open>GenerateToken\<close> is worth later, and how the
  audit file grows.
\<close>

section \<open>Routing\<close>

lemma fixed_route:
  assumes "r_escaped_path r = p" "clean_path p = p" "route rs p = Some (pat, h, pvs)"
    and "\<not> slash_redirect rs p"
  shows "ServeMux rs r w = h (r\<lparr>r_path_values := pvs\<rparr>) w"
proof -
  have "clean_path ''*'' \<noteq> ''*''" by code_simp
  with assms(2) have "p \<noteq> ''*''" by auto
  with assms show ?thesis by (simp add: ServeMux_def Let_def)
qed

lemma projects_main_route:
  "r_escaped_path r = ''/projects'' \<Longrightarrow> ServeMux (main_routes L S E) r w
    = AuthMiddleware L E (ServeMux (protected_routes E)) (r\<lparr>r_path_values := []\<rparr>) w"
proof (rule fixed_route)
  show "clean_path ''/projects'' = ''/projects''" by code_simp
qed (simp_all add: main_routes_def Let_def first_segment_def path_unescape_def slash_redirect_def matches_exactly_def exact_match_def)

lemma projects_inner_route:
  "r_escaped_path r = ''/projects'' \<Longrightarrow>
    ServeMux (protected_routes E) r w = projects_route E (r\<lparr>r_path_values := []\<rparr>) w"
proof (rule fixed_route)
  show "clean_path ''/projects'' = ''/projects''" by code_simp
qed (simp_all add: protected_routes_def first_segment_def path_unescape_def slash_redirect_def matches_exactly_def exact_match_def)

lemma me_route:
  "r_escaped_path r = ''/me'' \<Longrightarrow> ServeMux (main_routes L S E) r w
    = AuthMiddleware L E MeHandler (r\<lparr>r_path_values := []\<rparr>) w"
proof (rule fixed_route)
  show "clean_path ''/me'' = ''/me''" by code_simp
qed (simp_all add: main_routes_def Let_def first_segment_def path_unescape_def slash_redirect_def matches_exactly_def exact_match_def)

lemma login_route:
  "r_escaped_path r = ''/auth/login'' \<Longrightarrow>
    ServeMux (main_routes L S E) r w = LoginHandler L S E (r\<lparr>r_path_values := []\<rparr>) w"
proof (rule fixed_route)
  show "clean_path ''/auth/login'' = ''/auth/login''" by code_simp
qed (simp_all add: main_routes_def Let_def first_segment_def path_unescape_def slash_redirect_def matches_exactly_def
  exact_match_def)

text \<open>The router unescapes segments, so that other texts of a path reach the login as well; it may redirect a path first.\<close>

definition login_path :: "request \<Rightarrow> bool" where
  "login_path r \<longleftrightarrow> match_pattern [Lit ''auth'', Lit ''login''] (r_escaped_path r) \<noteq> None"

lemma login_path_plain [simp]: "r_escaped_path r = ''/auth/login'' \<Longrightarrow> login_path r"
  by (simp add: login_path_def first_segment_def path_unescape_def)

lemma login_reached:
  fixes w :: "('s, 'l) world"
  assumes "login_path r"
  obtains (login) "ServeMux (main_routes L S E) r w = LoginHandler L S E (r\<lparr>r_path_values := []\<rparr>) w"
  | (own) f where "ServeMux (main_routes L S E) r w = reply f w" "\<And>u. fresh u \<Longrightarrow> status (f u) \<in> {301, 404}"
proof (cases rule: ServeMux_cases [of "main_routes L S E" r w])
  case (own f)
  have "r_escaped_path r \<noteq> ''*''" using assms by (auto simp: login_path_def first_segment_def path_unescape_def)
  with own show thesis by (intro that(2)) auto
next
  case (handler pat h pvs)
  let ?login = "[Lit ''auth'', Lit ''login'']"
  obtain q where q: "match_pattern ?login (r_escaped_path r) = Some q" using assms by (auto simp: login_path_def)
  then have "q = []" by (auto split: if_splits prod.splits)
  have "(?login, LoginHandler L S E) \<in> set (main_routes L S E)" by (simp add: main_routes_def Let_def)
  from route_unique [OF main_routes_disjoint this q] route_unique [OF main_routes_disjoint handler(1,2)] \<open>q = []\<close>
  have "h = LoginHandler L S E" "pvs = []" by simp_all
  with handler(3) show thesis by (intro that(1)) simp
qed

lemma AuthMiddleware_passes:
  assumes "authenticated L E r c" shows "AuthMiddleware L E h r w = h (r\<lparr>r_claims := Some (Some c)\<rparr>) w"
proof -
  have "Header_Get r ''Authorization'' \<noteq> []"
    using assms unfolding authenticated_def by (metis HasPrefix.simps(2))
  with assms show ?thesis by (simp add: AuthMiddleware_def authenticated_def Let_def)
qed

definition project_action :: "(string \<times> string) list" where
  "project_action = [(''GET'', ''read''), (''POST'', ''write''), (''DELETE'', ''delete'')]"

lemma RequirePermission_status:
  assumes "request_claims r = Some c" "fresh (h_out w)"
    and "\<And>v. fresh (h_out v) \<Longrightarrow> status (h_out (h r v)) = 200 \<and> h_audit (h r v) = h_audit v"
  shows "status (h_out (RequirePermission E act resource h r w)) = (if Authorize (C_Role c) act then 200 else 403)
    \<and> h_audit (RequirePermission E act resource h r w) = h_audit w @
      (if audit_fault E = None then
        [\<lparr>ev_Timestamp = Format (t_audit E), ev_User = C_Subject c, ev_Role = C_Role c, ev_Action = act,
          ev_Resource = resource, ev_Result = (if Authorize (C_Role c) act then ''allow'' else ''deny'')\<rparr>]
       else [])"
  using assms by (simp add: RequirePermission_def Let_def h_audit_audit)

section \<open>Tokens\<close>

lemma jwt_parse:
  assumes "jwt_laws L" "portable c" "jwt_SignedString L c k = Inr tok" "C_ExpiresAt c = Some e"
  shows "now < e \<Longrightarrow> jwt_ParseWithClaims L now tok k = Inr (Some c, True)"
    "e \<le> now \<Longrightarrow> \<exists>m. jwt_ParseWithClaims L now tok k = Inl m"
  using assms unfolding jwt_laws_def by blast+

lemma token_valid:
  assumes "jwt_laws L" "ascii role" "ascii name" "GenerateToken L E role name = Inr tok"
    and "jwtSecret (getenv E') = jwtSecret (getenv E)"
  shows "if t_validate E' < trunc_sec (t_expires E + 15 * Minute)
    then ValidateToken L E' tok = Inr \<lparr>C_Role = role, C_Username = name, C_Issuer = ''auth-service'', C_Subject = name,
      C_IssuedAt = Some (trunc_sec (t_issued E)), C_ExpiresAt = Some (trunc_sec (t_expires E + 15 * Minute))\<rparr>
    else \<exists>m. ValidateToken L E' tok = Inl m"
proof -
  let ?c = "\<lparr>C_Role = role, C_Username = name, C_Issuer = ''auth-service'', C_Subject = name,
      C_IssuedAt = Some (trunc_sec (t_issued E)), C_ExpiresAt = Some (trunc_sec (t_expires E + 15 * Minute))\<rparr>"
  have date: "jwt_NewNumericDate L t = trunc_sec t" for t using assms(1) by (simp add: jwt_laws_def)
  have s: "jwt_SignedString L ?c (jwtSecret (getenv E)) = Inr tok"
    using assms(4) by (simp add: GenerateToken_def Let_def date)
  have "trunc_sec (trunc_sec t) = trunc_sec t" for t
    by (simp add: trunc_sec_def unix_sec_def duration_units)
  moreover have "ascii ''auth-service''" by code_simp
  ultimately have p: "portable ?c" using assms(2,3) by (simp add: portable_def)
  note parse = jwt_parse [OF assms(1) p s, of "trunc_sec (t_expires E + 15 * Minute)" "t_validate E'"]
  show ?thesis
  proof (cases "t_validate E' < trunc_sec (t_expires E + 15 * Minute)")
    case True
    with parse(1) show ?thesis by (simp add: ValidateToken_def assms(5))
  next
    case False
    with parse(2) obtain m where "jwt_ParseWithClaims L (t_validate E') tok (jwtSecret (getenv E)) = Inl m" by auto
    with False show ?thesis by (simp add: ValidateToken_def assms(5))
  qed
qed


section \<open>Audit lines\<close>

definition audit_grows :: "nat \<Rightarrow> ('s, 'l) handler \<Rightarrow> request \<Rightarrow> bool" where
  "audit_grows n h r \<longleftrightarrow> (\<forall>w. \<exists>evs. h_audit (h r w) = h_audit w @ evs \<and> length evs \<le> n)"

lemma audit_grows_same: "(\<And>w. h_audit (h r w) = h_audit w) \<Longrightarrow> audit_grows n h r"
  by (simp add: audit_grows_def)

lemma h_audit_auth:
  "h_audit (LoginHandler L S E r w) = h_audit w" "h_audit (SessionsHandler S E r w) = h_audit w"
  "h_audit (DeleteSessionHandler S E r w) = h_audit w" "h_audit (DeleteAllSessionsHandler S E r w) = h_audit w"
  "h_audit (PasswordChangeHandler L S E r w) = h_audit w" "h_audit (MeHandler r w) = h_audit w"
  "h_audit (HealthHandler r w) = h_audit w" "h_audit (WhoamiHandler r w) = h_audit w"
  "h_audit (ProjectsHandler r w) = h_audit w"
  by (simp_all add: handler_defs Let_def split: option.split sum.split prod.split)

lemma grows_permission:
  "(\<And>w. h_audit (h r w) = h_audit w) \<Longrightarrow> audit_grows 1 (RequirePermission E a res h) r"
  by (auto simp: audit_grows_def RequirePermission_def Let_def h_audit_audit split: option.split)

lemma grows_role:
  assumes "\<And>w. h_audit (h r w) = h_audit w"
  shows "audit_grows 1 (RequireRole E role h) r"
  by (auto simp: audit_grows_def RequireRole_def Let_def h_audit_audit assms split: option.split)

lemma grows_auth:
  assumes "\<And>c. audit_grows n h (r\<lparr>r_claims := Some (Some c)\<rparr>)"
  shows "audit_grows n (AuthMiddleware L E h) r"
  unfolding audit_grows_def
proof
  fix w :: "('a, 'b) world"
  show "\<exists>evs. h_audit (AuthMiddleware L E h r w) = h_audit w @ evs \<and> length evs \<le> n"
    by (rule AuthMiddleware_cases [of L E h r w]) (use assms in \<open>auto simp: audit_grows_def\<close>)
qed

lemma grows_mux:
  assumes "\<And>pat h pvs. (pat, h) \<in> set rs \<Longrightarrow> audit_grows n h (r\<lparr>r_path_values := pvs\<rparr>)"
  shows "audit_grows n (ServeMux rs) r"
  unfolding audit_grows_def
proof
  fix w :: "('a, 'b) world"
  show "\<exists>evs. h_audit (ServeMux rs r w) = h_audit w @ evs \<and> length evs \<le> n"
    by (rule ServeMux_cases [of rs r w]) (use assms in \<open>auto simp: audit_grows_def\<close>)
qed

lemma h_audit_mux:
  assumes "\<And>pat h pvs w. (pat, h) \<in> set rs \<Longrightarrow> h_audit (h (r\<lparr>r_path_values := pvs\<rparr>) w) = h_audit w"
  shows "h_audit (ServeMux rs r w) = h_audit w"
  by (rule ServeMux_cases [of rs r w]) (use assms in auto)

lemma grows_projects: "audit_grows 1 (projects_route E :: ('s, 'l) handler) r"
proof -
  have p: "audit_grows 1 (RequirePermission E a res (ProjectsHandler :: ('s, 'l) handler)) r" for a res
    by (rule grows_permission) (rule h_audit_auth)
  have q: "audit_grows 1 (ProjectsHandler :: ('s, 'l) handler) r" by (rule audit_grows_same) (rule h_audit_auth)
  show ?thesis using p q by (simp add: audit_grows_def projects_route_def Let_def)
qed

lemma grows_main: "audit_grows 1 (ServeMux (main_routes L S E)) r"
proof -
  have whoami: "audit_grows 1 WhoamiHandler r" for r by (rule audit_grows_same) (rule h_audit_auth)
  have protected: "audit_grows 1 (ServeMux (protected_routes E)) r" for r
    by (rule grows_mux) (auto simp: protected_routes_def grows_projects whoami simp del: One_nat_def)
  have admin: "h_audit (ServeMux (admin_routes L S E) r w) = h_audit w" for r w
    by (rule h_audit_mux) (auto simp: admin_routes_def h_audit_admin_routes)
  have quiet: "audit_grows 1 HealthHandler r" "audit_grows 1 (LoginHandler L S E) r" "audit_grows 1 MeHandler r"
    "audit_grows 1 (PasswordChangeHandler L S E) r" "audit_grows 1 (DeleteSessionHandler S E) r"
    "audit_grows 1 (sessions_route S E) r" for r
    by (rule audit_grows_same, simp add: h_audit_auth sessions_route_def)+
  show ?thesis
    by (rule grows_mux)
      (auto simp: main_routes_def Let_def simp del: One_nat_def intro!: grows_auth grows_role protected quiet admin)
qed

text \<open>The audit file is append-only, and a request adds at most one line to it.\<close>

lemma audit_append_only:
  "\<exists>evs. h_audit (ServerHandler L S E r w) = h_audit w @ evs \<and> length evs \<le> 1"
proof -
  obtain evs where "h_audit (ServeMux (main_routes L S E) r (w\<lparr>h_out := new_writer\<rparr>))
      = h_audit (w\<lparr>h_out := new_writer\<rparr>) @ evs" "length evs \<le> 1"
    using grows_main [of L S E r] unfolding audit_grows_def by blast
  then show ?thesis by (simp add: ServerHandler_def RequestLogger_def Let_def)
qed

lemma serve_over_audit:
  "serve_over L S qs (past, w) = (past', w') \<Longrightarrow> \<exists>evs. h_audit w' = h_audit w @ evs \<and> length evs \<le> length qs"
proof (induction qs arbitrary: past w)
  case (Cons q qs)
  obtain E r i j where q: "q = (E, r, i, j)" by (cases q)
  let ?v = "serve L (overtaken (past ! i) (past ! j) S) (E, r) w"
  obtain evs where evs: "h_audit ?v = h_audit w @ evs" "length evs \<le> 1"
    using audit_append_only [of L "overtaken (past ! i) (past ! j) S" E "incoming r" w] by (auto simp: serve_def)
  from Cons.IH [of "past @ [h_store ?v]" ?v] Cons.prems obtain evs' where
    "h_audit w' = h_audit ?v @ evs'" "length evs' \<le> length qs" by (auto simp: q Let_def)
  with evs show ?case by (intro exI [of _ "evs @ evs'"]) simp
qed simp

end
