(* ===== verification/Password_Facts.thy ===== *)
theory Password_Facts
  imports Service_Spec
begin

text \<open>
  Changing a password over any store that keeps the contract: who may, what is stored, and that the
  new password then opens a session.
\<close>

text \<open>\<open>bcrypt\<close> accepts the password a hash was made from.\<close>

definition bcrypt_law :: "'l libs \<Rightarrow> bool" where
  "bcrypt_law L \<longleftrightarrow>
     (\<forall>p k z h. bcrypt_GenerateFromPassword L p k z = Inr h \<longrightarrow> bcrypt_CompareHashAndPassword L h p)"

definition password_change :: "request \<Rightarrow> string \<Rightarrow> string \<Rightarrow> bool" where
  "password_change r current new \<longleftrightarrow>
     r_method r = ''POST'' \<and> HasPrefix (Header_Get r ''Content-Type'') ''application/json''
     \<and> password_request r current new \<and> \<not> blank current \<and> \<not> blank new"

context store begin

lemma password_changed:
  assumes "fresh (h_out w)" "inv l (h_store w)" "up (h_store w)" "good_env repr E"
    and "password_change r current new" "caller (users (h_store w)) r u"
    and "bcrypt_CompareHashAndPassword L (U_PasswordHash u) current"
    and "bcrypt_GenerateFromPassword L new (getBcryptCost L (getenv E)) (salt E) = Inr h"
    and w'_def: "w' = PasswordChangeHandler L S E r w"
  shows "status (h_out w') = 200 \<and> inv l (h_store w') \<and> sessions (h_store w') = sessions (h_store w)
    \<and> users (h_store w') = (users (h_store w))(U_ID u \<mapsto>
        u\<lparr>U_PasswordHash := h, U_UpdatedAt := res (se_now (store_env E 1))\<rparr>)"
proof -
  from assms(5) obtain req where req: "r_method r = ''POST''"
      "HasPrefix (Header_Get r ''Content-Type'') ''application/json''"
      "Decode False [''currentpassword'', ''newpassword''] (r_body r) = Some req"
      "str_field req ''currentpassword'' = current" "str_field req ''newpassword'' = new"
      "\<not> blank current" "\<not> blank new"
    by (auto simp: password_change_def password_request_def)
  from assms(6) obtain c where c: "request_claims r = Some c" and u: "users (h_store w) (U_ID u) = Some u"
    by (auto simp: caller_def)
  have g: "GetUserByUsername S (store_env E 0) (C_Username c) (h_store w) = Inr u"
    by (rule iffD1 [OF caller_lookup [OF assms(2,3) c] assms(6)])
  have "\<forall>j x. users (h_store w) j = Some x \<longrightarrow> U_Username x = U_Username u \<longrightarrow> j = U_ID u"
    using users_unique [OF assms(2) _ u] by blast
  then obtain v s' where d: "UpdateUser S (store_env E 1) (U_ID u) (U_Username u) h (U_Role u) (h_store w) = (Inr v, s')"
    using call_okE [OF update_user_total [OF assms(2,3) good_envD(1) [OF assms(4)]]] u by (metis option.distinct(1))
  note upd = update_user_ok [OF assms(2) good_envD(1) [OF assms(4)] d]
  have v: "v = u\<lparr>U_PasswordHash := h, U_UpdatedAt := res (se_now (store_env E 1))\<rparr>"
    using upd by (elim conjE exE) (simp add: u)
  have "status (h_out w') = 200 \<and> h_store w' = s'"
    by (simp add: w'_def PasswordChangeHandler_def c req g assms(1,7,8) d del: One_nat_def)
  with upd v show ?thesis by (elim conjE exE) simp
qed

lemma password_kept:
  assumes "inv l (h_store w)" "up (h_store w)" "caller (users (h_store w)) r u" "password_request r current new"
    and "\<not> bcrypt_CompareHashAndPassword L (U_PasswordHash u) current"
    and w'_def: "w' = PasswordChangeHandler L S E r w"
  shows "h_store w' = h_store w"
proof -
  from assms(3) obtain c where c: "request_claims r = Some c" by (auto simp: caller_def)
  have g: "GetUserByUsername S (store_env E 0) (C_Username c) (h_store w) = Inr u"
    by (rule iffD1 [OF caller_lookup [OF assms(1,2) c] assms(3)])
  from assms(4) obtain req where req:
      "Decode False [''currentpassword'', ''newpassword''] (r_body r) = Some req"
      "str_field req ''currentpassword'' = current"
    by (auto simp: password_request_def)
  show ?thesis by (simp add: w'_def PasswordChangeHandler_def c g req assms(5))
qed

lemma change_then_login:
  assumes "fresh (h_out w)" "inv (Suc l) (h_store w)" "up (h_store w)" "good_env repr E" "bcrypt_law L"
    and "password_change r current new" "caller (users (h_store w)) r u"
    and "bcrypt_CompareHashAndPassword L (U_PasswordHash u) current"
    and "bcrypt_GenerateFromPassword L new (getBcryptCost L (getenv E)) (salt E) = Inr h"
    and "v = PasswordChangeHandler L S E r w" "up (h_store v)"
    and "credentials r' (U_Username u) new"
    and "fst (limiter_Allow L (t_limiter E') (h_limiter v))"
    and "GenerateToken L E' (U_Role u) (U_Username u) = Inr tok"
    and "0 < sessionTTL (getenv E')" "se_rand (store_env E' 1) = Inr b"
    and "\<forall>y \<in> ran (sessions (h_store w)). S_Token y \<noteq> EncodeToString b"
  shows "status (h_out (LoginHandler L S E' r' (v\<lparr>h_out := new_writer\<rparr>))) = 200"
proof -
  note ch = password_changed [OF assms(1,2,3,4,6,7,8,9,10)]
  let ?u = "u\<lparr>U_PasswordHash := h, U_UpdatedAt := res (se_now (store_env E 1))\<rparr>"
  have "bcrypt_CompareHashAndPassword L h new" using assms(5,9) by (auto simp: bcrypt_law_def)
  then show ?thesis
    using login_accepted [of "v\<lparr>h_out := new_writer\<rparr>" l r' "U_Username u" new L E' "U_ID u" ?u tok b]
      ch assms(11-17) by simp
qed

end

end
