(* ===== verification/Samples.thy ===== *)
theory Samples
  imports Route_Facts Password_Facts
begin

text \<open>
  Concrete values for the witnesses: an instance of the third-party packages that obeys their laws
  (a readable token format, a marker for a hashed password, a limiter that counts down), an
  environment, a store with an administrator and a viewer, and requests.
\<close>

abbreviation mem_users :: "(mem, 'l) world \<Rightarrow> int \<rightharpoonup> user" where
  "mem_users w \<equiv> map_of (m_users (h_store w))"

abbreviation mem_sessions :: "(mem, 'l) world \<Rightarrow> int \<rightharpoonup> session" where
  "mem_sessions w \<equiv> map_of (m_sessions (h_store w))"

section \<open>Packages\<close>

fun fields :: "string \<Rightarrow> string list" where
  "fields [] = [[]]"
| "fields (c # s) =
     (if c = CHR ''|'' then [] # fields s
      else case fields s of x # xs \<Rightarrow> (c # x) # xs | [] \<Rightarrow> [[c]])"

lemma fields_plain: "CHR ''|'' \<notin> set a \<Longrightarrow> fields a = [a]"
  by (induction a) auto

lemma fields_cons: "CHR ''|'' \<notin> set a \<Longrightarrow> fields (a @ CHR ''|'' # b) = a # fields b"
  by (induction a) auto

definition token_text :: "claims \<Rightarrow> string \<Rightarrow> instant \<Rightarrow> instant \<Rightarrow> string" where
  "token_text c k a e = C_Role c @ CHR ''|'' # C_Username c @ CHR ''|'' # C_Issuer c @ CHR ''|'' #
     C_Subject c @ CHR ''|'' # show_int a @ CHR ''|'' # show_int e @ CHR ''|'' # k"

definition sample_sign :: "claims \<Rightarrow> string \<Rightarrow> string res" where
  "sample_sign c k =
     (case (C_IssuedAt c, C_ExpiresAt c) of
        (Some a, Some e) \<Rightarrow>
          if in_int64 a \<and> in_int64 e \<and> (\<forall>s \<in> set [C_Role c, C_Username c, C_Issuer c, C_Subject c, k]. CHR ''|'' \<notin> set s)
          then Inr (token_text c k a e) else Inl ''cannot sign''
      | _ \<Rightarrow> Inl ''cannot sign'')"

definition sample_parse :: "instant \<Rightarrow> string \<Rightarrow> string \<Rightarrow> (claims option \<times> bool) res" where
  "sample_parse now tok key =
     (case fields tok of
        [r, u, i, s, a, e, k] \<Rightarrow>
          if k \<noteq> key then Inl ''token signature is invalid''
          else (case (ParseInt a, ParseInt e) of
              (Some at, Some et) \<Rightarrow>
                if et \<le> now then Inl ''token is expired''
                else Inr (Some \<lparr>C_Role = r, C_Username = u, C_Issuer = i, C_Subject = s,
                            C_IssuedAt = Some at, C_ExpiresAt = Some et\<rparr>, True)
            | _ \<Rightarrow> Inl ''token is malformed'')
      | _ \<Rightarrow> Inl ''token is malformed'')"

definition sample_libs :: "nat libs" where
  "sample_libs =
     \<lparr>bcrypt_DefaultCost = 10,
      bcrypt_GenerateFromPassword = (\<lambda>p c z. if 72 < length p then Inl ''password too long'' else Inr (CHR ''$'' # p)),
      bcrypt_CompareHashAndPassword = (\<lambda>h p. h = CHR ''$'' # p),
      jwt_NewNumericDate = trunc_sec,
      jwt_SignedString = sample_sign,
      jwt_ParseWithClaims = sample_parse,
      limiter_Allow = (\<lambda>t n. (0 < n, n - 1))\<rparr>"

lemma show_int_chars: "CHR ''|'' \<notin> set (show_int i)"
proof -
  have "digit_val (CHR ''|'') = None" by (simp add: digit_val_def)
  then have "CHR ''|'' \<notin> set (show_nat n)" for n
    using show_nat_chars [of "CHR ''|''" n] digit_val_digit_char by fastforce
  then show ?thesis by (simp add: show_int_def)
qed

lemma sample_parse_sign:
  assumes "sample_sign c k = Inr tok" "C_ExpiresAt c = Some e"
  shows "sample_parse now tok key =
    (if k \<noteq> key then Inl ''token signature is invalid''
     else if e \<le> now then Inl ''token is expired'' else Inr (Some c, True))"
proof -
  from assms obtain a where a: "C_IssuedAt c = Some a" "in_int64 a" "in_int64 e"
      "\<forall>s \<in> set [C_Role c, C_Username c, C_Issuer c, C_Subject c, k]. CHR ''|'' \<notin> set s"
      "tok = token_text c k a e"
    by (auto simp: sample_sign_def split: option.splits if_splits)
  then have "fields tok = [C_Role c, C_Username c, C_Issuer c, C_Subject c, show_int a, show_int e, k]"
    by (simp add: token_text_def fields_cons fields_plain show_int_chars)
  with a assms(2) show ?thesis by (simp add: sample_parse_def ParseInt_show_int)
qed

lemma sample_laws: "jwt_laws sample_libs"
  by (auto simp: jwt_laws_def sample_libs_def sample_parse_sign)

section \<open>Environment, store and requests\<close>

definition sample_senv :: senv where
  "sample_senv = \<lparr>se_now = 0, se_rand = Inr ''r'', se_order = []\<rparr>"

definition sample_env :: reqenv where
  "sample_env = \<lparr>getenv = (\<lambda>_. []), t_limiter = 0, t_validate = 0, t_issued = 0, t_expires = 0,
     t_audit = 0, salt = [], audit_fault = None, store_env = (\<lambda>_. sample_senv)\<rparr>"

definition root :: user where
  "root = \<lparr>U_ID = 1, U_Username = ''root'', U_PasswordHash = ''$toor'', U_Role = ''admin'',
     U_CreatedAt = 0, U_UpdatedAt = 0\<rparr>"

definition alice :: user where
  "alice = \<lparr>U_ID = 2, U_Username = ''alice'', U_PasswordHash = ''$pw'', U_Role = ''viewer'',
     U_CreatedAt = 0, U_UpdatedAt = 0\<rparr>"

definition session_of :: "int \<Rightarrow> user \<Rightarrow> string \<Rightarrow> session" where
  "session_of i u t = \<lparr>S_ID = i, S_UserID = U_ID u, S_Username = U_Username u, S_Role = U_Role u,
     S_Token = t, S_CreatedAt = 0, S_ExpiresAt = Hour\<rparr>"

definition sample_mem :: mem where
  "sample_mem = \<lparr>m_users = [(1, root), (2, alice)], m_nextID = 3,
     m_sessions = [(1, session_of 1 alice ''a''), (2, session_of 2 alice ''b''), (3, session_of 3 root ''c'')],
     m_nextSessionID = 4\<rparr>"

definition sample_world :: "(mem, nat) world" where
  "sample_world = new_world sample_mem 5"

definition json_request :: "string \<Rightarrow> string \<Rightarrow> (string \<times> string) list \<Rightarrow> request" where
  "json_request meth path kvs = \<lparr>r_method = meth, r_path = path, r_escaped_path = path, r_query = [],
     r_headers = [(''Content-Type'', ''application/json'')],
     r_body = Some (JObj (map (\<lambda>(k, v). (k, JStr v)) kvs)), r_claims = None, r_path_values = []\<rparr>"

definition claims_for :: "user \<Rightarrow> claims" where
  "claims_for u = \<lparr>C_Role = U_Role u, C_Username = U_Username u, C_Issuer = ''auth-service'',
     C_Subject = U_Username u, C_IssuedAt = Some 0, C_ExpiresAt = Some (15 * Minute)\<rparr>"

definition request_by :: "user \<Rightarrow> request \<Rightarrow> request" where
  "request_by u r = r\<lparr>r_claims := Some (Some (claims_for u))\<rparr>"

lemmas sample_defs = sample_libs_def sample_senv_def sample_env_def root_def alice_def session_of_def
  sample_mem_def sample_world_def new_world_def json_request_def claims_for_def request_by_def

lemma sample_libs_simps [simp]:
  "bcrypt_GenerateFromPassword sample_libs p k z = (if 72 < length p then Inl ''password too long'' else Inr (CHR ''$'' # p))"
  "bcrypt_CompareHashAndPassword sample_libs h p = (h = CHR ''$'' # p)"
  "jwt_SignedString sample_libs = sample_sign" "jwt_ParseWithClaims sample_libs = sample_parse"
  "jwt_NewNumericDate sample_libs = trunc_sec" "limiter_Allow sample_libs t n = (0 < n, n - 1)"
  by (simp_all add: sample_libs_def)

lemma sample_env_simps [simp]:
  "getenv sample_env v = []" "store_env sample_env k = sample_senv" "se_now sample_senv = 0"
  "se_rand sample_senv = Inr ''r''" "se_order sample_senv = []" "t_limiter sample_env = 0"
  "audit_fault sample_env = None"
  by (simp_all add: sample_env_def sample_senv_def)

lemma sample_users [simp]:
  "U_ID root = 1" "U_Username root = ''root''" "U_PasswordHash root = ''$toor''" "U_Role root = ''admin''"
  "U_ID alice = 2" "U_Username alice = ''alice''" "U_PasswordHash alice = ''$pw''" "U_Role alice = ''viewer''"
  by (simp_all add: root_def alice_def)

lemma sample_sessions [simp]:
  "S_ID (session_of i u t) = i" "S_UserID (session_of i u t) = U_ID u" "S_Username (session_of i u t) = U_Username u"
  "S_Role (session_of i u t) = U_Role u" "S_Token (session_of i u t) = t" "S_CreatedAt (session_of i u t) = 0"
  "S_ExpiresAt (session_of i u t) = Hour"
  by (simp_all add: session_of_def)

lemma sample_maps [simp]:
  "map_of (m_users sample_mem) = [2 \<mapsto> alice, 1 \<mapsto> root]"
  "map_of (m_sessions sample_mem)
    = [3 \<mapsto> session_of 3 root ''c'', 2 \<mapsto> session_of 2 alice ''b'', 1 \<mapsto> session_of 1 alice ''a'']"
  by (simp_all add: sample_mem_def)

lemma sample_ran [simp]:
  "ran (map_of (m_users sample_mem)) = {root, alice}"
  "ran (map_of (m_sessions sample_mem)) = {session_of 1 alice ''a'', session_of 2 alice ''b'', session_of 3 root ''c''}"
  unfolding sample_mem_def mem.simps by (subst ran_map_of, simp, auto)+

lemma sample_ttl [simp]: "sessionTTL (getenv sample_env) = 24 * Hour"
  by (simp add: sessionTTL_def)

lemma hour_pos [simp]: "0 < Hour"
  by (simp add: duration_units)

lemma sample_rand [simp]: "EncodeToString ''r'' = ''72''"
  by code_simp

lemma sample_request [simp]:
  "request_claims (request_by u r) = Some (claims_for u)" "C_Username (claims_for u) = U_Username u"
  "C_Role (claims_for u) = U_Role u" "C_Subject (claims_for u) = U_Username u"
  "r_method (request_by u r) = r_method r" "r_body (request_by u r) = r_body r"
  "Header_Get (request_by u r) k = Header_Get r k" "PathValue (request_by u r) k = PathValue r k"
  "r_method (json_request m p b) = m" "r_body (json_request m p b) = Some (JObj (map (\<lambda>(k, v). (k, JStr v)) b))"
  "Header_Get (json_request m p b) ''Content-Type'' = ''application/json''"
  by (simp_all add: request_by_def request_claims_def claims_for_def Header_Get_def PathValue_def json_request_def
    first_value_def)

lemma sample_inv: "mem_inv (Suc 5) sample_mem" "mem_inv 5 sample_mem"
  by (simp_all add: sample_defs mem_inv_def keyed_def unique_on_def)

lemma sample_store [simp]: "h_store sample_world = sample_mem" "h_out sample_world = new_writer"
    "h_limiter sample_world = 5"
  by (simp_all add: sample_world_def new_world_def)

lemma sample_text [simp]: "\<not> blank ''alice''" "\<not> blank ''pw''" "\<not> blank ''bob''" "\<not> blank ''new''"
    "\<not> blank ''viewer''" "\<not> blank ''no''"
  by (simp_all add: blank_def TrimSpace_def trim_left.simps utf8_spaces_def)

lemma sample_field [simp]:
  "field_for [''username'', ''password''] ''username'' = Some ''username''"
  "field_for [''username'', ''password''] ''password'' = Some ''password''"
  "field_for [''username'', ''password'', ''role''] ''username'' = Some ''username''"
  "field_for [''username'', ''password'', ''role''] ''password'' = Some ''password''"
  "field_for [''username'', ''password'', ''role''] ''role'' = Some ''role''"
  "field_for [''currentpassword'', ''newpassword''] ''currentpassword'' = Some ''currentpassword''"
  "field_for [''currentpassword'', ''newpassword''] ''newpassword'' = Some ''newpassword''"
  by (simp_all add: field_for_def)

definition login_request :: "string \<Rightarrow> string \<Rightarrow> request" where
  "login_request n p = json_request ''POST'' ''/auth/login'' [(''username'', n), (''password'', p)]"

lemma sample_credentials: "\<not> blank n \<Longrightarrow> \<not> blank p \<Longrightarrow> credentials (login_request n p) n p"
  by (simp add: login_request_def credentials_def Decode_def str_field_def)

definition viewer_token :: string where
  "viewer_token = token_text (claims_for alice) ''your-highly-secure-secret-key-change-in-production'' 0 (15 * Minute)"

lemma sample_token: "GenerateToken sample_libs sample_env ''viewer'' ''alice'' = Inr viewer_token"
  by (simp add: viewer_token_def GenerateToken_def Let_def sample_defs jwtSecret_def sample_sign_def trunc_sec_def
    unix_sec_def duration_units in_int64_def)

lemma sample_bcrypt: "bcrypt_law sample_libs"
  by (auto simp: bcrypt_law_def sample_libs_def)

lemma good_env_always [simp]: "good_env (\<lambda>_. True) E"
  by (simp add: good_env_def)

lemma sample_login_200:
  "status (h_out (LoginHandler sample_libs mem_ops sample_env (login_request ''alice'' ''pw'') sample_world)) = 200"
  by (rule mem.login_accepted [where l = 5 and name = "''alice''" and pw = "''pw''" and i = 2 and u = alice and b = "''r''"])
    (use sample_inv sample_credentials sample_token in simp_all)

text \<open>A request for the health check.\<close>

definition health_request :: request where
  "health_request = json_request ''GET'' ''/health'' []"

lemma health_claims [simp]: "r_claims health_request = None"
  by (simp add: health_request_def json_request_def)

text \<open>A request by \<open>root\<close> with a bearer token, and its way to the handler that deletes a user.\<close>

definition root_token :: string where
  "root_token = token_text (claims_for root) ''your-highly-secure-secret-key-change-in-production'' 0 (15 * Minute)"

definition remove_request :: request where
  "remove_request = \<lparr>r_method = ''DELETE'', r_path = ''/admin/users/2'', r_escaped_path = ''/admin/users/2'', r_query = [],
     r_headers = [(''Authorization'', ''Bearer '' @ root_token)], r_body = None, r_claims = None, r_path_values = []\<rparr>"

lemma remove_authenticated: "authenticated sample_libs sample_env remove_request (claims_for root)"
proof -
  have sign: "sample_sign (claims_for root) ''your-highly-secure-secret-key-change-in-production'' = Inr root_token"
    by (simp add: root_token_def sample_sign_def claims_for_def duration_units in_int64_def)
  have "Header_Get remove_request ''Authorization'' = ''Bearer '' @ root_token"
    by (simp add: remove_request_def Header_Get_def first_value_def)
  moreover have "C_ExpiresAt (claims_for root) = Some (15 * Minute)" by (simp add: claims_for_def)
  from sample_parse_sign [OF sign this, of 0] have
    "ValidateToken sample_libs sample_env root_token = Inr (claims_for root)"
    by (simp add: ValidateToken_def jwtSecret_def sample_env_def duration_units)
  ultimately show ?thesis by (simp add: authenticated_def del: append.simps)
qed

lemma remove_route:
  "ServeMux (main_routes L S E) remove_request w =
    AuthMiddleware L E (RequireRole E ''admin'' (ServeMux (admin_routes L S E)))
      (remove_request\<lparr>r_path_values := []\<rparr>) w"
proof -
  have c: "clean_path ''/admin/users/2'' = ''/admin/users/2''" by code_simp
  show ?thesis
    by (simp add: ServeMux_def Let_def remove_request_def c slash_redirect_def matches_exactly_def main_routes_def
      first_segment_def path_unescape_def exact_match_def)
qed

lemma remove_route_admin:
  "ServeMux (admin_routes L S E) (remove_request\<lparr>r_path_values := p, r_claims := c\<rparr>) w =
    DeleteUserHandler S (remove_request\<lparr>r_path_values := [(''id'', ''2'')], r_claims := c\<rparr>) w"
proof -
  have c: "clean_path ''/admin/users/2'' = ''/admin/users/2''" by code_simp
  show ?thesis
    by (simp add: ServeMux_def Let_def remove_request_def c slash_redirect_def matches_exactly_def admin_routes_def
      first_segment_def path_unescape_def exact_match_def admin_user_route_def)
qed

lemma remove_step:
  "h_store (ServerHandler sample_libs S sample_env remove_request w) = snd (DeleteUser S 2 (h_store w))"
proof -
  let ?r = "remove_request\<lparr>r_path_values := [], r_claims := Some (Some (claims_for root))\<rparr>"
  let ?q = "remove_request\<lparr>r_path_values := [(''id'', ''2'')], r_claims := Some (Some (claims_for root))\<rparr>"
  let ?w = "w\<lparr>h_out := new_writer\<rparr>"
  have a: "authenticated sample_libs sample_env (remove_request\<lparr>r_path_values := []\<rparr>) (claims_for root)"
    using remove_authenticated by simp
  note mw = AuthMiddleware_passes [OF a]
  have role: "request_claims ?r = Some (claims_for root)" by (simp add: request_claims_def)
  obtain ev where ev: "RequireRole sample_env ''admin'' (ServeMux (admin_routes sample_libs S sample_env)) ?r ?w
      = ServeMux (admin_routes sample_libs S sample_env) ?r (audit sample_env ev ?w)"
    by (rule RequireRole_cases [of sample_env "''admin''" "ServeMux (admin_routes sample_libs S sample_env)" ?r ?w])
      (use role in auto)
  have "ParseInt ''2'' = Some 2" by code_simp
  then have i: "path_user_id ?q = Inr 2" by (simp add: path_user_id_def PathValue_def first_value_def)
  have "r_method ?q = ''DELETE''" by (simp add: remove_request_def)
  with i have "h_store (DeleteUserHandler S ?q (audit sample_env ev ?w)) = snd (DeleteUser S 2 (h_store w))"
    by (simp add: DeleteUserHandler_def split: sum.split prod.split)
  then show ?thesis
    by (simp add: ServerHandler_def remove_route mw ev remove_route_admin)
qed

lemma remove_served:
  "mem_users (ServerHandler sample_libs mem_ops sample_env remove_request sample_world) = [1 \<mapsto> root]"
  by (simp add: remove_step mem_ops_def mem_DeleteUser_def)

text \<open>A request by \<open>alice\<close> with a bearer token.\<close>

definition viewer_request :: "string \<Rightarrow> string \<Rightarrow> request" where
  "viewer_request meth path = \<lparr>r_method = meth, r_path = path, r_escaped_path = path, r_query = [],
     r_headers = [(''Authorization'', ''Bearer '' @ viewer_token)], r_body = None, r_claims = None, r_path_values = []\<rparr>"

lemma viewer_request_simps [simp]:
  "r_method (viewer_request m p) = m" "r_escaped_path (viewer_request m p) = p" "r_claims (viewer_request m p) = None"
  "Header_Get (viewer_request m p) ''Authorization'' = ''Bearer '' @ viewer_token"
  by (simp_all add: viewer_request_def Header_Get_def first_value_def)

lemma sample_ascii: "ascii ''viewer''" "ascii ''alice''"
  by code_simp+

lemma viewer_authenticated: "authenticated sample_libs sample_env (viewer_request m p) (claims_for alice)"
proof -
  have t: "t_validate sample_env < trunc_sec (t_expires sample_env + 15 * Minute)" 
    and claims: "\<lparr>C_Role = ''viewer'', C_Username = ''alice'', C_Issuer = ''auth-service'', C_Subject = ''alice'',
      C_IssuedAt = Some (trunc_sec (t_issued sample_env)), C_ExpiresAt = Some (trunc_sec (t_expires sample_env + 15 * Minute))\<rparr>
      = claims_for alice"
    by (simp_all add: sample_env_def trunc_sec_def unix_sec_def duration_units claims_for_def)
  from token_valid [OF sample_laws sample_ascii sample_token refl] have
    "ValidateToken sample_libs sample_env viewer_token = Inr (claims_for alice)"
    unfolding claims using t by simp
  moreover have "HasPrefix (''Bearer '' @ viewer_token) ''Bearer ''" "TrimPrefix (''Bearer '' @ viewer_token) ''Bearer '' = viewer_token"
    by (rule HasPrefix_append, rule TrimPrefix_append)
  ultimately show ?thesis by (simp add: authenticated_def del: append.simps)
qed

end
