(* ===== verification/Sql_Engine.thy ===== *)
theory Sql_Engine
  imports Go_Strings "HOL-Library.Char_ord" "HOL-Library.List_Lexorder"
begin

text \<open>
  The SQL the program runs: its statements as syntax, what they mean on tables, and the database
  driver (\<open>database/sql\<close> over \<open>modernc.org/sqlite\<close>) as a parameter \<open>engine\<close> whose laws are the locale
  \<open>sql_engine\<close>. The meaning \<open>sem_exec\<close>, \<open>sem_query\<close> is given for the statements of the program's shape with
  arguments of the columns' types, and is \<open>None\<close> elsewhere, where nothing is assumed of the driver.
\<close>

section \<open>Values\<close>

datatype sval = VNull | VInt int | VText string

text \<open>SQLite's order: NULL, then integers, then texts, byte by byte.\<close>

instantiation sval :: linorder
begin

fun less_eq_sval :: "sval \<Rightarrow> sval \<Rightarrow> bool" where
  "less_eq_sval VNull _ = True"
| "less_eq_sval (VInt i) VNull = False"
| "less_eq_sval (VInt i) (VInt j) = (i \<le> j)"
| "less_eq_sval (VInt i) (VText t) = True"
| "less_eq_sval (VText s) (VText t) = (s \<le> t)"
| "less_eq_sval (VText s) _ = False"

definition less_sval :: "sval \<Rightarrow> sval \<Rightarrow> bool" where
  "less_sval v w \<longleftrightarrow> v \<le> w \<and> \<not> w \<le> v"

instance
proof
  fix u v w :: sval
  show "(v < w) = (v \<le> w \<and> \<not> w \<le> v)" by (simp add: less_sval_def)
  show "v \<le> v" by (cases v) auto
  show "u \<le> v \<Longrightarrow> v \<le> w \<Longrightarrow> u \<le> w" by (cases u; cases v; cases w) auto
  show "v \<le> w \<Longrightarrow> w \<le> v \<Longrightarrow> v = w" by (cases v; cases w) auto
  show "v \<le> w \<or> w \<le> v" by (cases v; cases w) auto
qed

end

lemma sval_less [simp]: "VInt i < VInt j \<longleftrightarrow> i < j" "VText s < VText t \<longleftrightarrow> s < t"
  by (auto simp: less_sval_def)

section \<open>Statements\<close>

datatype sqltype = INTEGER | TEXT

record column =
  c_name :: string
  c_type :: sqltype
  c_auto :: bool        \<comment> \<open>\<open>PRIMARY KEY AUTOINCREMENT\<close>\<close>
  c_unique :: bool
  c_notnull :: bool
  c_default :: "sval option"

datatype cmp = Eq | Ne | Lt | Gt

text \<open>A condition is a conjunction of comparisons of a column with a placeholder; placeholders take
  the arguments in order.\<close>

type_synonym cond = "(string \<times> cmp) list"

datatype stmt =
    CreateTable string "column list" "(string \<times> string \<times> string) list"
      \<comment> \<open>\<open>IF NOT EXISTS\<close>; the foreign keys: column, table, column\<close>
  | CreateIndex string string string
  | Insert string "string list"
  | Update string "string list" cond
  | Delete string cond

datatype query = Select "string list" string cond "string option"
  \<comment> \<open>columns, table, \<open>WHERE\<close>, \<open>ORDER BY ... DESC\<close>\<close>

section \<open>Tables\<close>

type_synonym row = "string \<rightharpoonup> sval"

record tbl =
  t_cols :: "column list"
  t_rows :: "row list"
  t_seq :: int          \<comment> \<open>the largest rowid that was ever in the table\<close>

type_synonym db = "string \<rightharpoonup> tbl"

fun has_type :: "sqltype \<Rightarrow> sval \<Rightarrow> bool" where
  "has_type INTEGER (VInt i) = True"
| "has_type TEXT (VText s) = True"
| "has_type _ _ = False"

definition col_type :: "tbl \<Rightarrow> string \<Rightarrow> sqltype option" where
  "col_type t c = map_option c_type (find (\<lambda>k. c_name k = c) (t_cols t))"

definition typed :: "tbl \<Rightarrow> string list \<Rightarrow> sval list \<Rightarrow> bool" where
  "typed t cs vs \<longleftrightarrow> length cs = length vs
     \<and> (\<forall>(c, v) \<in> set (zip cs vs). case col_type t c of None \<Rightarrow> False | Some ty \<Rightarrow> has_type ty v)"

fun compare :: "cmp \<Rightarrow> sval option \<Rightarrow> sval \<Rightarrow> bool" where
  "compare _ None _ = False"
| "compare _ (Some VNull) _ = False"
| "compare Eq (Some v) w = (v = w)"
| "compare Ne (Some v) w = (v \<noteq> w)"
| "compare Lt (Some v) w = (v < w)"
| "compare Gt (Some v) w = (w < v)"

definition holds :: "cond \<Rightarrow> sval list \<Rightarrow> row \<Rightarrow> bool" where
  "holds cs vs r \<longleftrightarrow> (\<forall>((c, op), v) \<in> set (zip cs vs). compare op (r c) v)"

definition unique_rows :: "tbl \<Rightarrow> row list \<Rightarrow> bool" where
  "unique_rows t rs \<longleftrightarrow> (\<forall>k \<in> set (t_cols t). c_unique k \<or> c_auto k \<longrightarrow> distinct (map (\<lambda>r. r (c_name k)) rs))"

definition set_columns :: "string list \<Rightarrow> sval list \<Rightarrow> row \<Rightarrow> row" where
  "set_columns cs vs r = r ++ map_of (zip cs vs)"

definition defaults :: "tbl \<Rightarrow> row" where
  "defaults t = map_of (map (\<lambda>k. (c_name k, case c_default k of None \<Rightarrow> VNull | Some v \<Rightarrow> v)) (t_cols t))"

section \<open>Meaning\<close>

datatype outcome = Done int \<comment> \<open>rows affected\<close> | UniqueViolation

definition max_rowid :: int where "max_rowid = 2 ^ 63 - 1"

text \<open>The rowid that the database chooses for a new row of an \<open>AUTOINCREMENT\<close> table: any that is larger than all that
  were ever in the table.\<close>

fun free_id :: "stmt \<Rightarrow> db \<Rightarrow> int \<Rightarrow> bool" where
  "free_id (Insert t cs) d i = (case d t of None \<Rightarrow> False | Some tb \<Rightarrow> t_seq tb < i \<and> i \<le> max_rowid)"
| "free_id _ d i = True"

text \<open>What a statement does; \<open>i\<close> is the rowid chosen for the row of an \<open>INSERT\<close>.\<close>

fun sem_exec :: "int \<Rightarrow> stmt \<Rightarrow> sval list \<Rightarrow> db \<Rightarrow> (outcome \<times> db) option" where
  "sem_exec i (CreateTable t cols fks) vs d =
     (if vs \<noteq> [] then None
      else Some (Done 0, case d t of None \<Rightarrow> d(t \<mapsto> \<lparr>t_cols = cols, t_rows = [], t_seq = 0\<rparr>) | Some _ \<Rightarrow> d))"
| "sem_exec i (CreateIndex x t c) vs d = (if vs \<noteq> [] \<or> d t = None then None else Some (Done 0, d))"
| "sem_exec i (Insert t cs) vs d =
     (case d t of
        None \<Rightarrow> None
      | Some tb \<Rightarrow>
          (case find c_auto (t_cols tb) of
             None \<Rightarrow> None
           | Some key \<Rightarrow>
               if \<not> typed tb cs vs \<or> c_name key \<in> set cs \<or> \<not> distinct cs
                  \<or> (\<exists>k \<in> set (t_cols tb). c_notnull k \<and> c_default k = None \<and> c_name k \<notin> set cs) then None
               else (let r = (set_columns cs vs (defaults tb))(c_name key \<mapsto> VInt i);
                         rs = t_rows tb @ [r]
                     in if \<not> unique_rows tb rs then Some (UniqueViolation, d)
                        else Some (Done 1, d(t \<mapsto> tb\<lparr>t_rows := rs, t_seq := i\<rparr>)))))"
| "sem_exec i (Update t cs w) vs d =
     (case d t of
        None \<Rightarrow> None
      | Some tb \<Rightarrow>
          (let n = length cs; hit = holds w (drop n vs)
           in if \<not> typed tb (cs @ map fst w) vs \<or> (\<exists>k \<in> set (t_cols tb). c_auto k \<and> c_name k \<in> set cs)
                 \<or> 1 < length (filter hit (t_rows tb)) then None
              else (let rs = map (\<lambda>r. if hit r then set_columns cs (take n vs) r else r) (t_rows tb)
                    in if \<not> unique_rows tb rs then Some (UniqueViolation, d)
                       else Some (Done (int (length (filter hit (t_rows tb)))), d(t \<mapsto> tb\<lparr>t_rows := rs\<rparr>)))))"
| "sem_exec i (Delete t w) vs d =
     (case d t of
        None \<Rightarrow> None
      | Some tb \<Rightarrow>
          if \<not> typed tb (map fst w) vs then None
          else Some (Done (int (length (filter (holds w vs) (t_rows tb)))),
                     d(t \<mapsto> tb\<lparr>t_rows := filter (\<lambda>r. \<not> holds w vs r) (t_rows tb)\<rparr>)))"

text \<open>The statements with a meaning, and the kinds of statements after which the driver's result counts: the rowid
  after an \<open>INSERT\<close> only, the number of rows after a change of rows only.\<close>

definition understood :: "stmt \<Rightarrow> sval list \<Rightarrow> db \<Rightarrow> bool" where
  "understood st vs d \<longleftrightarrow> sem_exec 0 st vs d \<noteq> None"

fun inserts :: "stmt \<Rightarrow> bool" where
  "inserts (Insert t cs) = True"
| "inserts _ = False"

fun changes_rows :: "stmt \<Rightarrow> bool" where
  "changes_rows (CreateTable t cols fks) = False"
| "changes_rows (CreateIndex x t c) = False"
| "changes_rows _ = True"

text \<open>The rows a query selects; with \<open>ORDER BY\<close> the results are those whose keys descend.\<close>

fun sem_query :: "query \<Rightarrow> sval list \<Rightarrow> db \<Rightarrow> row list option" where
  "sem_query (Select cs t w ord) vs d =
     (case d t of
        None \<Rightarrow> None
      | Some tb \<Rightarrow> if \<not> typed tb (map fst w) vs then None else Some (filter (holds w vs) (t_rows tb)))"

definition cell :: "row \<Rightarrow> string \<Rightarrow> sval" where
  "cell r c = (case r c of None \<Rightarrow> VNull | Some v \<Rightarrow> v)"

fun project :: "query \<Rightarrow> row \<Rightarrow> sval list" where
  "project (Select cs t w ord) r = map (cell r) cs"

fun ordered :: "query \<Rightarrow> row list \<Rightarrow> bool" where
  "ordered (Select cs t w None) rs = True"
| "ordered (Select cs t w (Some c)) rs = sorted_wrt (\<lambda>r s. cell s c \<le> cell r c) rs"

section \<open>The driver\<close>

text \<open>
  \<open>tables d\<close> are the tables in the database file, \<open>avail d\<close> says that the file stays readable and writable, and
  \<open>room l d\<close> that rowids are left for more than \<open>l\<close> insertions to come (SQLite does not say how many rowids a
  failed insertion or the gap before a new one may use up). Every call may fail without \<open>avail\<close>; a failed
  statement has changed nothing (SQLite runs each in a transaction), and of a failed iteration some rows may have come.
  A row that is inserted gets a rowid above all earlier ones of its table (\<open>free_id\<close>); \<open>LastInsertId\<close> is that rowid
  after an \<open>INSERT\<close> and says nothing of other statements, \<open>RowsAffected\<close> counts the rows that an \<open>INSERT\<close>, \<open>UPDATE\<close> or
  \<open>DELETE\<close> changed.
\<close>

record exec_result =
  LastInsertId :: "int res"
  RowsAffected :: "int res"

record 'd engine =
  db_Open :: "string \<Rightarrow> 'd res"
  db_Ping :: "'d \<Rightarrow> string option"
  db_Exec :: "stmt \<Rightarrow> sval list \<Rightarrow> 'd \<Rightarrow> exec_result res \<times> 'd"
  db_Query :: "query \<Rightarrow> sval list \<Rightarrow> 'd \<Rightarrow> (sval list list \<times> string option) res"
    \<comment> \<open>the rows that \<open>rows.Next\<close> yields, and \<open>rows.Err\<close>\<close>

locale sql_engine =
  fixes E :: "'d engine"
    and tables :: "'d \<Rightarrow> db"
    and avail :: "'d \<Rightarrow> bool"
    and room :: "nat \<Rightarrow> 'd \<Rightarrow> bool"
  assumes exec_done: "db_Exec E st vs d = (Inr r, d') \<Longrightarrow> understood st vs (tables d) \<Longrightarrow>
      \<exists>i n. free_id st (tables d) i \<and> sem_exec i st vs (tables d) = Some (Done n, tables d')
        \<and> (inserts st \<longrightarrow> isl (LastInsertId r) \<or> LastInsertId r = Inr i)
        \<and> (changes_rows st \<longrightarrow> isl (RowsAffected r) \<or> RowsAffected r = Inr n)"
    and exec_failed: "db_Exec E st vs d = (Inl m, d') \<Longrightarrow> tables d' = tables d"
    and exec_avail: "db_Exec E st vs d = (Inr r, d') \<Longrightarrow> understood st vs (tables d) \<Longrightarrow> avail d \<Longrightarrow>
      avail d' \<and> (inserts st \<longrightarrow> \<not> isl (LastInsertId r)) \<and> (changes_rows st \<longrightarrow> \<not> isl (RowsAffected r))"
    and exec_refused: "db_Exec E st vs d = (Inl m, d') \<Longrightarrow> understood st vs (tables d) \<Longrightarrow> avail d \<Longrightarrow> room l d \<Longrightarrow>
      Contains m ''UNIQUE constraint failed''
      \<and> (\<exists>i db'. free_id st (tables d) i \<and> sem_exec i st vs (tables d) = Some (UniqueViolation, db'))"
    and room_left: "db_Exec E st vs d = (z, d') \<Longrightarrow> room (if inserts st \<and> \<not> isl z then Suc l else l) d \<Longrightarrow> room l d'"
    and room_less: "room (Suc l) d \<Longrightarrow> room l d"
    and query_rows: "db_Query E q vs d = Inr (rows, err) \<Longrightarrow> sem_query q vs (tables d) = Some sel \<Longrightarrow>
      \<exists>rs rest. rows = map (project q) rs \<and> mset (rs @ rest) = mset sel \<and> ordered q (rs @ rest)
        \<and> (err = None \<longrightarrow> rest = [])"
    and query_avail: "avail d \<Longrightarrow> sem_query q vs (tables d) \<noteq> None \<Longrightarrow> \<exists>rows. db_Query E q vs d = Inr (rows, None)"

section \<open>A reference engine\<close>

text \<open>An engine that does what the meaning says, on the tables themselves, with rowids one after the other. Its
  \<open>LastInsertId\<close> is 0 where nothing was inserted.\<close>

definition next_id :: "stmt \<Rightarrow> db \<Rightarrow> int" where
  "next_id st d = (case st of Insert t cs \<Rightarrow> (case d t of None \<Rightarrow> 0 | Some tb \<Rightarrow> t_seq tb + 1) | _ \<Rightarrow> 0)"

definition ref_engine :: "db engine" where
  "ref_engine =
     \<lparr>db_Open = (\<lambda>path. Inr Map.empty), db_Ping = (\<lambda>d. None),
      db_Exec = (\<lambda>q vs d. if \<not> free_id q d (next_id q d) then (Inl ''database or disk is full'', d)
        else case sem_exec (next_id q d) q vs d of
          Some (Done n, d') \<Rightarrow> (Inr \<lparr>LastInsertId = Inr (next_id q d), RowsAffected = Inr n\<rparr>, d')
        | Some (UniqueViolation, _) \<Rightarrow> (Inl ''UNIQUE constraint failed'', d)
        | None \<Rightarrow> (Inl ''not supported'', d)),
      db_Query = (\<lambda>q vs d. case sem_query q vs d of
          None \<Rightarrow> Inl ''not supported''
        | Some rs \<Rightarrow>
            Inr (map (project q)
              (case q of Select cs t w (Some c) \<Rightarrow> rev (sort_key (\<lambda>r. cell r c) rs) | _ \<Rightarrow> rs), None))\<rparr>"

definition ref_room :: "nat \<Rightarrow> db \<Rightarrow> bool" where
  "ref_room l d \<longleftrightarrow> int l < max_rowid \<and> (\<forall>tb \<in> ran d. t_seq tb + int l < max_rowid)"

text \<open>Which rowid is chosen decides neither whether a statement has a meaning nor, among the free ones, what it does
  to other columns; the reference engine's choice is free while there is room.\<close>

lemma understood_any: "understood st vs d \<Longrightarrow> sem_exec i st vs d \<noteq> None"
  unfolding understood_def by (cases st) (auto simp: Let_def split: option.splits if_splits)

lemma ref_room_free: "ref_room l d \<Longrightarrow> understood st vs d \<Longrightarrow> free_id st d (next_id st d)"
  by (cases st) (auto simp: understood_def next_id_def ref_room_def ran_def split: option.splits)

lemma ref_room_exec:
  assumes "sem_exec (next_id st d) st vs d = Some (Done n, d')" "ref_room (if inserts st then Suc l else l) d"
  shows "ref_room l d'"
proof -
  have max: "0 < max_rowid" by (simp add: max_rowid_def)
  have "t_seq tb + int l < max_rowid" if "d' t = Some tb" for t tb
  proof (cases "d t")
    case None
    with that assms show ?thesis
      by (cases st) (auto simp: ref_room_def ran_def Let_def split: option.splits if_splits)
  next
    case (Some tb0)
    with assms(2) have "t_seq tb0 + int (if inserts st then Suc l else l) < max_rowid" by (auto simp: ref_room_def ran_def)
    with that assms(1) Some show ?thesis
      by (cases st) (auto simp: next_id_def Let_def split: option.splits if_splits)
  qed
  moreover have "int l < max_rowid" using assms(2) by (auto simp: ref_room_def split: if_splits)
  ultimately show ?thesis by (auto simp: ref_room_def ran_def)
qed

interpretation ref: sql_engine ref_engine "\<lambda>d. d" "\<lambda>_. True" ref_room
proof (unfold_locales, goal_cases)
  case (1 st vs d r d')
  then show ?case
    by - (rule exI [of _ "next_id st d"], auto simp: ref_engine_def split: option.splits prod.splits outcome.splits if_splits)
next
  case (4 st vs d m d' l)
  with ref_room_free [OF 4(4,2)] understood_any [OF 4(2), of "next_id st d"] show ?case
    by (auto simp: ref_engine_def split: option.splits prod.splits outcome.splits if_splits intro!: exI [of _ "next_id st d"])
next
  case (5 st vs d z d' l)
  show ?case
  proof (cases z)
    case (Inl m)
    with 5 show ?thesis by (auto simp: ref_engine_def split: option.splits prod.splits outcome.splits if_splits)
  next
    case (Inr r)
    with 5(1) obtain n where "sem_exec (next_id st d) st vs d = Some (Done n, d')"
      by (auto simp: ref_engine_def split: option.splits prod.splits outcome.splits if_splits)
    with ref_room_exec [of st d vs n d' l] 5(2) Inr show ?thesis by simp
  qed
next
  case (6 l d)
  then show ?case by (auto simp: ref_room_def)
next
  case (7 q vs d rows err sel)
  obtain cs t w ord where q: "q = Select cs t w ord" by (cases q)
  show ?case
  proof (cases ord)
    case None
    with 7 show ?thesis by (intro exI [of _ sel] exI [of _ "[]"]) (auto simp: ref_engine_def q)
  next
    case (Some c)
    have "sorted_wrt (\<lambda>r s. cell s c \<le> cell r c) (rev (sort_key (\<lambda>r. cell r c) sel))"
      using sorted_sort_key [of "\<lambda>r. cell r c" sel] by (simp add: sorted_wrt_rev sorted_map)
    with 7 Some show ?thesis
      by (intro exI [of _ "rev (sort_key (\<lambda>r. cell r c) sel)"] exI [of _ "[]"]) (auto simp: ref_engine_def q)
  qed
qed (auto simp: ref_engine_def split: option.splits prod.splits outcome.splits if_splits)

end
