(* ===== verification/Sqlite_Store.thy ===== *)
theory Sqlite_Store
  imports Store_Iface Sql_Engine
begin

text \<open>
  \<open>SQLiteStore\<close> (\<open>internal/store/sqlite.go\<close>) over a driver \<open>E\<close>: the schema, every method with its
  statements, scans and error messages, and \<open>sqlite_ops\<close>, which collects the methods into a \<open>Store\<close>.
  Of the texts that the Go library puts into its own errors (of \<open>Scan\<close>, \<open>time.Parse\<close> and \<open>rand.Read\<close>) the model
  keeps a fixed part; the program never looks into them.
\<close>

section \<open>Schema\<close>

definition plain_column :: "string \<Rightarrow> sqltype \<Rightarrow> column" where
  "plain_column n ty = \<lparr>c_name = n, c_type = ty, c_auto = False, c_unique = False, c_notnull = True, c_default = None\<rparr>"

definition users_columns :: "column list" where
  "users_columns =
     [\<lparr>c_name = ''id'', c_type = INTEGER, c_auto = True, c_unique = False, c_notnull = False, c_default = None\<rparr>,
      (plain_column ''username'' TEXT)\<lparr>c_unique := True\<rparr>,
      plain_column ''password_hash'' TEXT,
      plain_column ''role'' TEXT,
      plain_column ''created_at'' TEXT,
      (plain_column ''updated_at'' TEXT)\<lparr>c_default := Some (VText [])\<rparr>]"

definition sessions_columns :: "column list" where
  "sessions_columns =
     [\<lparr>c_name = ''id'', c_type = INTEGER, c_auto = True, c_unique = False, c_notnull = False, c_default = None\<rparr>,
      plain_column ''user_id'' INTEGER,
      plain_column ''username'' TEXT,
      plain_column ''role'' TEXT,
      (plain_column ''token'' TEXT)\<lparr>c_unique := True\<rparr>,
      plain_column ''created_at'' TEXT,
      plain_column ''expires_at'' TEXT]"

definition schema :: "stmt list" where
  "schema =
     [CreateTable ''users'' users_columns [],
      CreateTable ''sessions'' sessions_columns [(''user_id'', ''users'', ''id'')],
      CreateIndex ''idx_sessions_token'' ''sessions'' ''token'',
      CreateIndex ''idx_sessions_expires_at'' ''sessions'' ''expires_at'']"

fun createTables :: "'d engine \<Rightarrow> stmt list \<Rightarrow> 'd \<Rightarrow> unit res \<times> 'd" where
  "createTables E [] d = (Inr (), d)"
| "createTables E (q # qs) d =
     (case db_Exec E q [] d of
        (Inl err, d') \<Rightarrow> (Inl (''failed to create table: '' @ err), d')
      | (Inr _, d') \<Rightarrow> createTables E qs d')"

definition NewSQLiteStore :: "'d engine \<Rightarrow> string \<Rightarrow> 'd res" where
  "NewSQLiteStore E dbPath =
     (case db_Open E dbPath of
        Inl err \<Rightarrow> Inl (''failed to open sqlite database: '' @ err)
      | Inr db \<Rightarrow>
          (case db_Ping E db of
             Some err \<Rightarrow> Inl (''failed to ping sqlite database: '' @ err)
           | None \<Rightarrow>
               (case createTables E schema db of
                  (Inl err, _) \<Rightarrow> Inl err
                | (Inr _, db') \<Rightarrow> Inr db')))"

section \<open>Scanning rows\<close>

text \<open>\<open>Rows.Scan\<close> of \<open>database/sql\<close> into an \<open>int64\<close> and into a \<open>string\<close>, and \<open>QueryRow\<close>, where \<open>Inr None\<close> is
  \<open>sql.ErrNoRows\<close>.\<close>

fun scan_int :: "sval \<Rightarrow> int res" where
  "scan_int (VInt i) = Inr i"
| "scan_int (VText s) = (case ParseInt s of Some i \<Rightarrow> Inr i | None \<Rightarrow> Inl ''sql: Scan error'')"
| "scan_int VNull = Inl ''sql: Scan error''"

fun scan_text :: "sval \<Rightarrow> string res" where
  "scan_text (VText s) = Inr s"
| "scan_text (VInt i) = Inr (show_int i)"
| "scan_text VNull = Inl ''sql: Scan error''"

definition QueryRow :: "'d engine \<Rightarrow> query \<Rightarrow> sval list \<Rightarrow> 'd \<Rightarrow> sval list option res" where
  "QueryRow E q vs d =
     (case db_Query E q vs d of
        Inl err \<Rightarrow> Inl err
      | Inr ([], None) \<Rightarrow> Inr None
      | Inr ([], Some err) \<Rightarrow> Inl err
      | Inr (r # _, _) \<Rightarrow> Inr (Some r))"

abbreviation bind_res :: "'a res \<Rightarrow> ('a \<Rightarrow> 'b res) \<Rightarrow> 'b res" where
  "bind_res x f \<equiv> (case x of Inl e \<Rightarrow> Inl e | Inr v \<Rightarrow> f v)"

text \<open>\<open>Scan\<close> of the columns of a user and of a session: the record with the two texts of its times.\<close>

fun scan_user :: "sval list \<Rightarrow> (user \<times> string \<times> string) res" where
  "scan_user [i, n, h, r, c, u] =
     bind_res (scan_int i) (\<lambda>i. bind_res (scan_text n) (\<lambda>n. bind_res (scan_text h) (\<lambda>h.
     bind_res (scan_text r) (\<lambda>r. bind_res (scan_text c) (\<lambda>c. bind_res (scan_text u) (\<lambda>u.
       Inr (\<lparr>U_ID = i, U_Username = n, U_PasswordHash = h, U_Role = r, U_CreatedAt = 0, U_UpdatedAt = 0\<rparr>, c, u)))))))"
| "scan_user _ = Inl ''sql: Scan error''"

fun scan_session :: "sval list \<Rightarrow> (session \<times> string \<times> string) res" where
  "scan_session [i, u, n, r, t, c, x] =
     bind_res (scan_int i) (\<lambda>i. bind_res (scan_int u) (\<lambda>u. bind_res (scan_text n) (\<lambda>n. bind_res (scan_text r) (\<lambda>r.
     bind_res (scan_text t) (\<lambda>t. bind_res (scan_text c) (\<lambda>c. bind_res (scan_text x) (\<lambda>x.
       Inr (\<lparr>S_ID = i, S_UserID = u, S_Username = n, S_Role = r, S_Token = t, S_CreatedAt = 0, S_ExpiresAt = 0\<rparr>,
            c, x))))))))"
| "scan_session _ = Inl ''sql: Scan error''"

definition parse_time :: "string \<Rightarrow> string \<Rightarrow> instant res" where
  "parse_time msg s = (case Parse s of None \<Rightarrow> Inl (msg @ ''cannot parse'') | Some t \<Rightarrow> Inr t)"

definition parse_user :: "string \<Rightarrow> user \<times> string \<times> string \<Rightarrow> user res" where
  "parse_user who = (\<lambda>(user, createdAt, updatedAt).
     bind_res (parse_time (''failed to parse created_at'' @ who @ '': '') createdAt) (\<lambda>c.
     bind_res (parse_time (''failed to parse updated_at'' @ who @ '': '') updatedAt) (\<lambda>u.
       Inr (user\<lparr>U_CreatedAt := c, U_UpdatedAt := u\<rparr>))))"

definition parse_session :: "string \<Rightarrow> session \<times> string \<times> string \<Rightarrow> session res" where
  "parse_session who = (\<lambda>(session, createdAt, expiresAt).
     bind_res (parse_time (''failed to parse created_at'' @ who @ '': '') createdAt) (\<lambda>c.
     bind_res (parse_time (''failed to parse expires_at'' @ who @ '': '') expiresAt) (\<lambda>x.
       Inr (session\<lparr>S_CreatedAt := c, S_ExpiresAt := x\<rparr>))))"

section \<open>Users\<close>

definition user_columns :: "string list" where
  "user_columns = [''id'', ''username'', ''password_hash'', ''role'', ''created_at'', ''updated_at'']"

definition sq_CreateUser :: "'d engine \<Rightarrow> senv \<Rightarrow> string \<Rightarrow> string \<Rightarrow> string \<Rightarrow> 'd \<Rightarrow> user res \<times> 'd" where
  "sq_CreateUser E e username passwordHash role d =
     (let now = se_now e
      in case db_Exec E (Insert ''users'' [''username'', ''password_hash'', ''role'', ''created_at'', ''updated_at''])
                [VText username, VText passwordHash, VText role, VText (Format now), VText (Format now)] d of
           (Inl err, d') \<Rightarrow>
             (Inl (if Contains err ''UNIQUE constraint failed''
                   then ''username '' @ [CHR 0x27] @ username @ [CHR 0x27] @ '' already exists''
                   else ''failed to insert user: '' @ err), d')
         | (Inr result, d') \<Rightarrow>
             (case LastInsertId result of
                Inl err \<Rightarrow> (Inl (''failed to retrieve last insert id: '' @ err), d')
              | Inr i \<Rightarrow>
                  (Inr \<lparr>U_ID = i, U_Username = username, U_PasswordHash = passwordHash, U_Role = role,
                        U_CreatedAt = now, U_UpdatedAt = now\<rparr>, d')))"

definition sq_GetUser :: "'d engine \<Rightarrow> int \<Rightarrow> 'd \<Rightarrow> user res" where
  "sq_GetUser E i d =
     (case bind_res (QueryRow E (Select user_columns ''users'' [(''id'', Eq)] None) [VInt i] d)
             (\<lambda>r. case r of None \<Rightarrow> Inr None | Some row \<Rightarrow> bind_res (scan_user row) (\<lambda>u. Inr (Some u))) of
        Inl err \<Rightarrow> Inl (''failed to fetch user by id: '' @ err)
      | Inr None \<Rightarrow> Inl (''user with id '' @ show_int i @ '' not found'')
      | Inr (Some u) \<Rightarrow> parse_user [] u)"

definition sq_GetUserByUsername :: "'d engine \<Rightarrow> senv \<Rightarrow> string \<Rightarrow> 'd \<Rightarrow> user res" where
  "sq_GetUserByUsername E e username d =
     (case bind_res (QueryRow E (Select user_columns ''users'' [(''username'', Eq)] None) [VText username] d)
             (\<lambda>r. case r of None \<Rightarrow> Inr None | Some row \<Rightarrow> bind_res (scan_user row) (\<lambda>u. Inr (Some u))) of
        Inl err \<Rightarrow> Inl (''failed to fetch user by username: '' @ err)
      | Inr None \<Rightarrow> Inl (''user with username '' @ [CHR 0x27] @ username @ [CHR 0x27] @ '' not found'')
      | Inr (Some u) \<Rightarrow> parse_user [] u)"

text \<open>The loop over \<open>rows.Next\<close>.\<close>

fun user_rows :: "sval list list \<Rightarrow> user list res" where
  "user_rows [] = Inr []"
| "user_rows (row # rows) =
     (case scan_user row of
        Inl err \<Rightarrow> Inl (''failed to scan user row: '' @ err)
      | Inr u \<Rightarrow>
          bind_res (parse_user ('' for user '' @ show_int (U_ID (fst u))) u) (\<lambda>user.
          bind_res (user_rows rows) (\<lambda>users. Inr (user # users))))"

definition sq_ListUsers :: "'d engine \<Rightarrow> senv \<Rightarrow> string \<Rightarrow> 'd \<Rightarrow> user list res" where
  "sq_ListUsers E e role d =
     (let (q, args) = (if role \<noteq> [] then (Select user_columns ''users'' [(''role'', Eq)] None, [VText role])
                       else (Select user_columns ''users'' [] None, []))
      in case db_Query E q args d of
           Inl err \<Rightarrow> Inl (''failed to query users: '' @ err)
         | Inr (rows, rows_err) \<Rightarrow>
             bind_res (user_rows rows) (\<lambda>users.
               case rows_err of Some err \<Rightarrow> Inl (''error during row iteration: '' @ err) | None \<Rightarrow> Inr users))"

definition sq_UpdateUser ::
  "'d engine \<Rightarrow> senv \<Rightarrow> int \<Rightarrow> string \<Rightarrow> string \<Rightarrow> string \<Rightarrow> 'd \<Rightarrow> user res \<times> 'd" where
  "sq_UpdateUser E e i username passwordHash role d =
     (let now = se_now e
      in case db_Exec E (Update ''users'' [''username'', ''password_hash'', ''role'', ''updated_at''] [(''id'', Eq)])
                [VText username, VText passwordHash, VText role, VText (Format now), VInt i] d of
           (Inl err, d') \<Rightarrow>
             (Inl (if Contains err ''UNIQUE constraint failed''
                   then ''username '' @ [CHR 0x27] @ username @ [CHR 0x27] @ '' is already taken''
                   else ''failed to update user: '' @ err), d')
         | (Inr result, d') \<Rightarrow>
             (case RowsAffected result of
                Inl err \<Rightarrow> (Inl (''failed to retrieve rows affected: '' @ err), d')
              | Inr rowsAffected \<Rightarrow>
                  if rowsAffected = 0 then (Inl (''user with id '' @ show_int i @ '' not found''), d')
                  else
                    (case bind_res (QueryRow E (Select user_columns ''users'' [(''id'', Eq)] None) [VInt i] d')
                            (\<lambda>r. case r of None \<Rightarrow> Inl ''sql: no rows in result set'' | Some row \<Rightarrow> scan_user row) of
                       Inl err \<Rightarrow> (Inl (''failed to fetch updated user: '' @ err), d')
                     | Inr u \<Rightarrow> (parse_user [] u, d'))))"

definition sq_DeleteUser :: "'d engine \<Rightarrow> int \<Rightarrow> 'd \<Rightarrow> unit res \<times> 'd" where
  "sq_DeleteUser E i d =
     (case db_Exec E (Delete ''users'' [(''id'', Eq)]) [VInt i] d of
        (Inl err, d') \<Rightarrow> (Inl (''failed to execute delete query: '' @ err), d')
      | (Inr result, d') \<Rightarrow>
          (case RowsAffected result of
             Inl err \<Rightarrow> (Inl (''failed to retrieve rows affected: '' @ err), d')
           | Inr rowsAffected \<Rightarrow>
               if rowsAffected = 0 then (Inl (''user with id '' @ show_int i @ '' not found''), d') else (Inr (), d')))"

section \<open>Sessions\<close>

definition session_columns :: "string list" where
  "session_columns = [''id'', ''user_id'', ''username'', ''role'', ''token'', ''created_at'', ''expires_at'']"

definition sq_CreateSession ::
  "'d engine \<Rightarrow> senv \<Rightarrow> int \<Rightarrow> string \<Rightarrow> string \<Rightarrow> duration \<Rightarrow> 'd \<Rightarrow> session res \<times> 'd" where
  "sq_CreateSession E e userID username role ttl d =
     (case se_rand e of
        Inl err \<Rightarrow> (Inl (''failed to generate session token: '' @ err), d)
      | Inr b \<Rightarrow>
          (let now = se_now e; token = EncodeToString b; expiresAt = now + ttl
           in case db_Exec E (Insert ''sessions'' [''user_id'', ''username'', ''role'', ''token'', ''created_at'', ''expires_at''])
                     [VInt userID, VText username, VText role, VText token, VText (Format now), VText (Format expiresAt)] d of
                (Inl err, d') \<Rightarrow> (Inl (''failed to insert session: '' @ err), d')
              | (Inr result, d') \<Rightarrow>
                  (case LastInsertId result of
                     Inl err \<Rightarrow> (Inl (''failed to retrieve last insert id: '' @ err), d')
                   | Inr i \<Rightarrow>
                       (Inr \<lparr>S_ID = i, S_UserID = userID, S_Username = username, S_Role = role, S_Token = token,
                             S_CreatedAt = now, S_ExpiresAt = expiresAt\<rparr>, d'))))"

definition sq_GetSessionByToken :: "'d engine \<Rightarrow> senv \<Rightarrow> string \<Rightarrow> 'd \<Rightarrow> session res" where
  "sq_GetSessionByToken E e token d =
     (case bind_res (QueryRow E (Select session_columns ''sessions'' [(''token'', Eq)] None) [VText token] d)
             (\<lambda>r. case r of None \<Rightarrow> Inr None | Some row \<Rightarrow> bind_res (scan_session row) (\<lambda>s. Inr (Some s))) of
        Inl err \<Rightarrow> Inl (''failed to fetch session by token: '' @ err)
      | Inr None \<Rightarrow> Inl ''session not found''
      | Inr (Some s) \<Rightarrow> parse_session [] s)"

definition sq_GetSessionByID :: "'d engine \<Rightarrow> int \<Rightarrow> 'd \<Rightarrow> session res" where
  "sq_GetSessionByID E i d =
     (case bind_res (QueryRow E (Select session_columns ''sessions'' [(''id'', Eq)] None) [VInt i] d)
             (\<lambda>r. case r of None \<Rightarrow> Inr None | Some row \<Rightarrow> bind_res (scan_session row) (\<lambda>s. Inr (Some s))) of
        Inl err \<Rightarrow> Inl (''failed to fetch session by id: '' @ err)
      | Inr None \<Rightarrow> Inl (''session with ID '' @ show_int i @ '' not found'')
      | Inr (Some s) \<Rightarrow> parse_session [] s)"

definition sq_DeleteSession :: "'d engine \<Rightarrow> int \<Rightarrow> 'd \<Rightarrow> unit res \<times> 'd" where
  "sq_DeleteSession E i d =
     (case db_Exec E (Delete ''sessions'' [(''id'', Eq)]) [VInt i] d of
        (Inl err, d') \<Rightarrow> (Inl (''failed to delete session: '' @ err), d')
      | (Inr result, d') \<Rightarrow>
          (case RowsAffected result of
             Inl err \<Rightarrow> (Inl (''failed to retrieve rows affected: '' @ err), d')
           | Inr rowsAffected \<Rightarrow>
               if rowsAffected = 0
               then (Inl (''session with ID '' @ show_int i @ '' not found for deletion''), d') else (Inr (), d')))"

definition sq_DeleteSessionsByUserID :: "'d engine \<Rightarrow> senv \<Rightarrow> int \<Rightarrow> string \<Rightarrow> 'd \<Rightarrow> unit res \<times> 'd" where
  "sq_DeleteSessionsByUserID E e userID excludeToken d =
     (case db_Exec E (Delete ''sessions'' [(''user_id'', Eq), (''token'', Ne)]) [VInt userID, VText excludeToken] d of
        (Inl err, d') \<Rightarrow> (Inl (''failed to delete sessions for user '' @ show_int userID @ '': '' @ err), d')
      | (Inr _, d') \<Rightarrow> (Inr (), d'))"

fun session_rows :: "sval list list \<Rightarrow> session list res" where
  "session_rows [] = Inr []"
| "session_rows (row # rows) =
     (case scan_session row of
        Inl err \<Rightarrow> Inl (''failed to scan session row: '' @ err)
      | Inr s \<Rightarrow>
          bind_res (parse_session ('' for session '' @ show_int (S_ID (fst s))) s) (\<lambda>session.
          bind_res (session_rows rows) (\<lambda>sessions. Inr (session # sessions))))"

definition sq_ListSessionsByUserID :: "'d engine \<Rightarrow> senv \<Rightarrow> int \<Rightarrow> 'd \<Rightarrow> session list res" where
  "sq_ListSessionsByUserID E e userID d =
     (let now = se_now e
      in case db_Query E (Select session_columns ''sessions'' [(''user_id'', Eq), (''expires_at'', Gt)] (Some ''created_at''))
                [VInt userID, VText (Format now)] d of
           Inl err \<Rightarrow> Inl (''failed to query sessions for user '' @ show_int userID @ '': '' @ err)
         | Inr (rows, rows_err) \<Rightarrow>
             bind_res (session_rows rows) (\<lambda>sessions.
               case rows_err of Some err \<Rightarrow> Inl (''error during session row iteration: '' @ err) | None \<Rightarrow> Inr sessions))"

definition sq_DeleteExpiredSessions :: "'d engine \<Rightarrow> senv \<Rightarrow> 'd \<Rightarrow> int res \<times> 'd" where
  "sq_DeleteExpiredSessions E e d =
     (let now = se_now e
      in case db_Exec E (Delete ''sessions'' [(''expires_at'', Lt)]) [VText (Format now)] d of
           (Inl err, d') \<Rightarrow> (Inl (''failed to delete expired sessions: '' @ err), d')
         | (Inr result, d') \<Rightarrow>
             (case RowsAffected result of
                Inl err \<Rightarrow> (Inl (''failed to retrieve rows affected: '' @ err), d')
              | Inr rowsAffected \<Rightarrow> (Inr rowsAffected, d')))"

definition sqlite_ops :: "'d engine \<Rightarrow> 'd store_ops" where
  "sqlite_ops E =
     \<lparr>CreateUser = sq_CreateUser E, GetUser = sq_GetUser E, GetUserByUsername = sq_GetUserByUsername E,
      ListUsers = sq_ListUsers E, UpdateUser = sq_UpdateUser E, DeleteUser = sq_DeleteUser E,
      CreateSession = sq_CreateSession E, GetSessionByToken = sq_GetSessionByToken E,
      GetSessionByID = sq_GetSessionByID E, DeleteSession = sq_DeleteSession E,
      DeleteSessionsByUserID = sq_DeleteSessionsByUserID E,
      ListSessionsByUserID = sq_ListSessionsByUserID E,
      DeleteExpiredSessions = sq_DeleteExpiredSessions E\<rparr>"

section \<open>Close\<close>

text \<open>After \<open>Close\<close>, \<open>database/sql\<close> answers every call with \<open>ErrDBClosed\<close> and leaves the file alone.\<close>

definition ErrDBClosed :: string where
  "ErrDBClosed = ''sql: database is closed''"

definition closed_engine :: "'d engine \<Rightarrow> 'd engine" where
  "closed_engine E = E\<lparr>db_Ping := \<lambda>d. Some ErrDBClosed, db_Exec := \<lambda>st vs d. (Inl ErrDBClosed, d),
     db_Query := \<lambda>q vs d. Inl ErrDBClosed\<rparr>"

definition sq_Close :: "string option \<Rightarrow> 'd engine \<Rightarrow> unit res \<times> 'd engine" where
  "sq_Close fault E = (case fault of Some err \<Rightarrow> Inl err | None \<Rightarrow> Inr (), closed_engine E)"

end
