(* ===== verification/Sqlite_Rows.thy ===== *)
theory Sqlite_Rows
  imports Sqlite_Store
begin

text \<open>
  What the tables of \<open>SQLiteStore\<close> hold: each row is the encoding of a user or of a session, times as
  RFC 3339 texts. The invariant \<open>sq_inv\<close>, the maps \<open>sq_users\<close> and \<open>sq_sessions\<close> that the tables mean, and
  the meaning of each statement of the store on such tables.
\<close>

section \<open>Rows\<close>

definition user_row :: "user \<Rightarrow> row" where
  "user_row u = [''id'' \<mapsto> VInt (U_ID u), ''username'' \<mapsto> VText (U_Username u),
     ''password_hash'' \<mapsto> VText (U_PasswordHash u), ''role'' \<mapsto> VText (U_Role u),
     ''created_at'' \<mapsto> VText (Format (U_CreatedAt u)), ''updated_at'' \<mapsto> VText (Format (U_UpdatedAt u))]"

definition session_row :: "session \<Rightarrow> row" where
  "session_row x = [''id'' \<mapsto> VInt (S_ID x), ''user_id'' \<mapsto> VInt (S_UserID x),
     ''username'' \<mapsto> VText (S_Username x), ''role'' \<mapsto> VText (S_Role x), ''token'' \<mapsto> VText (S_Token x),
     ''created_at'' \<mapsto> VText (Format (S_CreatedAt x)), ''expires_at'' \<mapsto> VText (Format (S_ExpiresAt x))]"

text \<open>Instants that a column can hold and give back: four-digit years, whole seconds.\<close>

definition kept :: "instant \<Rightarrow> bool" where
  "kept t \<longleftrightarrow> std_year t \<and> trunc_sec t = t"

definition kept_user :: "user \<Rightarrow> bool" where
  "kept_user u \<longleftrightarrow> kept (U_CreatedAt u) \<and> kept (U_UpdatedAt u)"

definition kept_session :: "session \<Rightarrow> bool" where
  "kept_session x \<longleftrightarrow> kept (S_CreatedAt x) \<and> kept (S_ExpiresAt x)"

lemma unix_sec_trunc [simp]: "unix_sec (trunc_sec t) = unix_sec t"
  by (simp add: trunc_sec_def unix_sec_def duration_units)

lemma kept_trunc: "std_year t \<Longrightarrow> kept (trunc_sec t)"
proof -
  assume "std_year t"
  moreover have "civil_of (trunc_sec t) = civil_of t" by (simp only: civil_of_def unix_sec_trunc)
  moreover have "trunc_sec (trunc_sec t) = trunc_sec t" by (subst (1 3) trunc_sec_def) simp
  ultimately show ?thesis by (simp add: kept_def std_year_def)
qed

lemma Format_trunc [simp]: "Format (trunc_sec t) = Format t"
  by (rule Format_eq) simp

lemma Parse_kept [simp]: "kept t \<Longrightarrow> Parse (Format t) = Some t"
  using Parse_Format [of t] by (simp add: kept_def)

lemma Format_kept_less:
  assumes "kept t" "std_year now" shows "Format now < Format t \<longleftrightarrow> trunc_sec now < t"
    "Format t < Format now \<longleftrightarrow> t < trunc_sec now"
proof -
  have t: "t = unix_sec t * Second" using assms(1) by (simp add: kept_def trunc_sec_def)
  have n: "trunc_sec now = unix_sec now * Second" by (simp add: trunc_sec_def)
  have s: "0 < Second" by (simp add: duration_units)
  show "Format now < Format t \<longleftrightarrow> trunc_sec now < t" "Format t < Format now \<longleftrightarrow> t < trunc_sec now"
    using assms s by (simp_all add: kept_def Format_less_iff n) (subst t, simp)+
qed

lemma Format_kept_le:
  assumes "kept s" "kept t" shows "Format s \<le> Format t \<longleftrightarrow> s \<le> t"
  using Format_kept_less(1) [of s t] assms by (auto simp: kept_def not_less [symmetric])

lemma scan_user_row [simp]:
  "scan_user (map (cell (user_row u)) user_columns)
    = Inr (u\<lparr>U_CreatedAt := 0, U_UpdatedAt := 0\<rparr>, Format (U_CreatedAt u), Format (U_UpdatedAt u))"
  by (simp add: user_columns_def cell_def user_row_def)

lemma scan_session_row [simp]:
  "scan_session (map (cell (session_row x)) session_columns)
    = Inr (x\<lparr>S_CreatedAt := 0, S_ExpiresAt := 0\<rparr>, Format (S_CreatedAt x), Format (S_ExpiresAt x))"
  by (simp add: session_columns_def cell_def session_row_def)

lemma parse_user_row [simp]:
  "kept_user u \<Longrightarrow> parse_user who (u\<lparr>U_CreatedAt := 0, U_UpdatedAt := 0\<rparr>, Format (U_CreatedAt u), Format (U_UpdatedAt u)) = Inr u"
  by (simp add: parse_user_def parse_time_def kept_user_def)

lemma parse_session_row [simp]:
  "kept_session x \<Longrightarrow>
    parse_session who (x\<lparr>S_CreatedAt := 0, S_ExpiresAt := 0\<rparr>, Format (S_CreatedAt x), Format (S_ExpiresAt x)) = Inr x"
  by (simp add: parse_session_def parse_time_def kept_session_def)

lemma user_rows_map:
  "list_all kept_user us \<Longrightarrow> user_rows (map (\<lambda>u. map (cell (user_row u)) user_columns) us) = Inr us"
  by (induction us) simp_all

lemma session_rows_map:
  "list_all kept_session xs \<Longrightarrow> session_rows (map (\<lambda>x. map (cell (session_row x)) session_columns) xs) = Inr xs"
  by (induction xs) simp_all

section \<open>Databases of the store\<close>

definition users_table :: "user list \<Rightarrow> int \<Rightarrow> tbl" where
  "users_table us n = \<lparr>t_cols = users_columns, t_rows = map user_row us, t_seq = n\<rparr>"

definition sessions_table :: "session list \<Rightarrow> int \<Rightarrow> tbl" where
  "sessions_table xs m = \<lparr>t_cols = sessions_columns, t_rows = map session_row xs, t_seq = m\<rparr>"

text \<open>The two tables, whatever else the file holds.\<close>

definition holds_rows :: "db \<Rightarrow> user list \<Rightarrow> int \<Rightarrow> session list \<Rightarrow> int \<Rightarrow> bool" where
  "holds_rows d us n xs m \<longleftrightarrow> d ''users'' = Some (users_table us n) \<and> d ''sessions'' = Some (sessions_table xs m)"

definition ids_wf :: "int list \<Rightarrow> int \<Rightarrow> bool" where
  "ids_wf is n \<longleftrightarrow> distinct is \<and> (\<forall>i \<in> set is. 0 < i \<and> i \<le> n) \<and> 0 \<le> n \<and> n \<le> max_rowid"

definition rows_wf :: "user list \<Rightarrow> int \<Rightarrow> session list \<Rightarrow> int \<Rightarrow> bool" where
  "rows_wf us n xs m \<longleftrightarrow> ids_wf (map U_ID us) n \<and> distinct (map U_Username us) \<and> list_all kept_user us
     \<and> ids_wf (map S_ID xs) m \<and> distinct (map S_Token xs) \<and> list_all kept_session xs"

definition sq_wf :: "('d \<Rightarrow> db) \<Rightarrow> 'd \<Rightarrow> bool" where
  "sq_wf tables d \<longleftrightarrow> (\<exists>us n xs m. holds_rows (tables d) us n xs m \<and> rows_wf us n xs m)"

text \<open>The invariant, with rowids left for more than \<open>l\<close> insertions.\<close>

definition sq_inv :: "('d \<Rightarrow> db) \<Rightarrow> (nat \<Rightarrow> 'd \<Rightarrow> bool) \<Rightarrow> nat \<Rightarrow> 'd \<Rightarrow> bool" where
  "sq_inv tables room l d \<longleftrightarrow> sq_wf tables d \<and> room l d"

definition row_user :: "row \<Rightarrow> user option" where
  "row_user r = (case scan_user (map (cell r) user_columns) of Inl _ \<Rightarrow> None
     | Inr u \<Rightarrow> (case parse_user [] u of Inl _ \<Rightarrow> None | Inr v \<Rightarrow> Some v))"

definition row_session :: "row \<Rightarrow> session option" where
  "row_session r = (case scan_session (map (cell r) session_columns) of Inl _ \<Rightarrow> None
     | Inr x \<Rightarrow> (case parse_session [] x of Inl _ \<Rightarrow> None | Inr y \<Rightarrow> Some y))"

definition rows_of :: "db \<Rightarrow> string \<Rightarrow> row list" where
  "rows_of d t = (case d t of None \<Rightarrow> [] | Some tb \<Rightarrow> t_rows tb)"

definition by_id :: "('a \<Rightarrow> int) \<Rightarrow> 'a list \<Rightarrow> (int \<rightharpoonup> 'a)" where
  "by_id f as = map_of (map (\<lambda>a. (f a, a)) as)"

definition sq_users :: "('d \<Rightarrow> db) \<Rightarrow> 'd \<Rightarrow> (int \<rightharpoonup> user)" where
  "sq_users tables d = by_id U_ID (List.map_filter row_user (rows_of (tables d) ''users''))"

definition sq_sessions :: "('d \<Rightarrow> db) \<Rightarrow> 'd \<Rightarrow> (int \<rightharpoonup> session)" where
  "sq_sessions tables d = by_id S_ID (List.map_filter row_session (rows_of (tables d) ''sessions''))"

lemma map_filter_rows:
  "list_all kept_user us \<Longrightarrow> List.map_filter row_user (map user_row us) = us"
  "list_all kept_session xs \<Longrightarrow> List.map_filter row_session (map session_row xs) = xs"
  by (induction us) (simp_all add: List.map_filter_simps row_user_def,
    induction xs, simp_all add: List.map_filter_simps row_session_def)

lemma sq_view:
  assumes "holds_rows (tables d) us n xs m" "rows_wf us n xs m"
  shows "sq_users tables d = by_id U_ID us" "sq_sessions tables d = by_id S_ID xs"
  using assms by (simp_all add: sq_users_def sq_sessions_def rows_of_def holds_rows_def users_table_def
    sessions_table_def rows_wf_def map_filter_rows)

lemma by_id_iff: "distinct (map f as) \<Longrightarrow> by_id f as i = Some a \<longleftrightarrow> a \<in> set as \<and> f a = i"
  by (auto simp: by_id_def comp_def)

lemma ran_by_id: "distinct (map f as) \<Longrightarrow> ran (by_id f as) = set as"
  by (auto simp: ran_def by_id_iff)

lemma by_id_None: "by_id f as i = None \<longleftrightarrow> i \<notin> f ` set as"
  by (simp add: by_id_def map_of_eq_None_iff image_image)

lemma map_eqI: "(\<And>i a. m i = Some a \<longleftrightarrow> m' i = Some a) \<Longrightarrow> m = m'"
  by (rule ext) (metis not_Some_eq)

lemma by_id_snoc:
  assumes "distinct (map f as)" "f a \<notin> f ` set as"
  shows "by_id f (as @ [a]) = (by_id f as)(f a \<mapsto> a)"
  using assms by (intro map_eqI) (auto simp: by_id_iff image_iff)

lemma by_id_filter:
  assumes "distinct (map f as)"
  shows "by_id f (filter P as) = (\<lambda>i. case by_id f as i of None \<Rightarrow> None | Some a \<Rightarrow> if P a then Some a else None)"
proof (rule map_eqI)
  have "distinct (map f (filter P as))" using assms by (induction as) auto
  then have iff: "by_id f (filter P as) i = Some a \<longleftrightarrow> a \<in> set as \<and> P a \<and> f a = i" for i a
    by (auto simp: by_id_iff)
  show "by_id f (filter P as) i = Some a
      \<longleftrightarrow> (case by_id f as i of None \<Rightarrow> None | Some a \<Rightarrow> if P a then Some a else None) = Some a" for i a
  proof (cases "by_id f as i")
    case None
    moreover from None have "i \<notin> f ` set as" by (simp add: by_id_None)
    ultimately show ?thesis by (auto simp: iff)
  next
    case (Some b)
    then have "a \<in> set as \<and> f a = i \<longleftrightarrow> a = b" for a using by_id_iff [OF assms] by (metis option.inject)
    then show ?thesis by (simp add: iff Some) metis
  qed
qed

lemma by_id_update:
  assumes "distinct (map f as)" "v \<in> set as" "f v = i" "f u = i"
  shows "by_id f (map (\<lambda>a. if f a = i then u else a) as) = (by_id f as)(i \<mapsto> u)"
proof (rule map_eqI)
  have m: "map f (map (\<lambda>a. if f a = i then u else a) as) = map f as" using assms(4) by simp
  have "distinct (map f (map (\<lambda>a. if f a = i then u else a) as))" unfolding m by (rule assms(1))
  with assms show "by_id f (map (\<lambda>a. if f a = i then u else a) as) j = Some a \<longleftrightarrow> ((by_id f as)(i \<mapsto> u)) j = Some a" for j a
    by (auto simp: by_id_iff)
qed

section \<open>What the statements mean there\<close>

lemma typed_simps [simp]:
  "typed t [] [] = True"
  "typed t (c # cs) (v # vs) = ((case col_type t c of None \<Rightarrow> False | Some ty \<Rightarrow> has_type ty v) \<and> typed t cs vs)"
  by (auto simp: typed_def)

lemma holds_simps [simp]:
  "holds [] vs r = True" "holds ((c, cmp) # cs) (v # vs) r = (compare cmp (r c) v \<and> holds cs vs r)"
  by (auto simp: holds_def)

lemma user_col_types [simp]:
  "col_type (users_table us n) ''id'' = Some INTEGER" "col_type (users_table us n) ''username'' = Some TEXT"
  "col_type (users_table us n) ''password_hash'' = Some TEXT" "col_type (users_table us n) ''role'' = Some TEXT"
  "col_type (users_table us n) ''created_at'' = Some TEXT" "col_type (users_table us n) ''updated_at'' = Some TEXT"
  by (simp_all add: col_type_def users_table_def users_columns_def plain_column_def)

lemma session_col_types [simp]:
  "col_type (sessions_table xs m) ''id'' = Some INTEGER" "col_type (sessions_table xs m) ''user_id'' = Some INTEGER"
  "col_type (sessions_table xs m) ''username'' = Some TEXT" "col_type (sessions_table xs m) ''role'' = Some TEXT"
  "col_type (sessions_table xs m) ''token'' = Some TEXT" "col_type (sessions_table xs m) ''created_at'' = Some TEXT"
  "col_type (sessions_table xs m) ''expires_at'' = Some TEXT"
  by (simp_all add: col_type_def sessions_table_def sessions_columns_def plain_column_def)

lemma user_cells [simp]:
  "user_row u ''id'' = Some (VInt (U_ID u))" "user_row u ''username'' = Some (VText (U_Username u))"
  "user_row u ''role'' = Some (VText (U_Role u))"
  by (simp_all add: user_row_def)

lemma session_cells [simp]:
  "session_row x ''id'' = Some (VInt (S_ID x))" "session_row x ''user_id'' = Some (VInt (S_UserID x))"
  "session_row x ''token'' = Some (VText (S_Token x))" "session_row x ''expires_at'' = Some (VText (Format (S_ExpiresAt x)))"
  "session_row x ''created_at'' = Some (VText (Format (S_CreatedAt x)))"
  by (simp_all add: session_row_def)

lemma distinct_cells:
  "distinct (map (\<lambda>a. Some (VInt (f a))) as) = distinct (map f as)"
  "distinct (map (\<lambda>a. Some (VText (g a))) as) = distinct (map g as)"
  by (simp_all add: distinct_map inj_on_def)

lemma unique_users: "unique_rows (users_table us n) (map user_row vs) \<longleftrightarrow> distinct (map U_ID vs) \<and> distinct (map U_Username vs)"
  by (simp add: unique_rows_def users_table_def users_columns_def plain_column_def comp_def distinct_cells)

lemma unique_sessions: "unique_rows (sessions_table us n) (map session_row vs) \<longleftrightarrow> distinct (map S_ID vs) \<and> distinct (map S_Token vs)"
  by (simp add: unique_rows_def sessions_table_def sessions_columns_def plain_column_def comp_def distinct_cells)

lemma new_user_row:
  "(set_columns [''username'', ''password_hash'', ''role'', ''created_at'', ''updated_at'']
      [VText a, VText h, VText r, VText (Format c), VText (Format t)] (defaults (users_table us n)))(''id'' \<mapsto> VInt i)
    = user_row \<lparr>U_ID = i, U_Username = a, U_PasswordHash = h, U_Role = r, U_CreatedAt = c, U_UpdatedAt = t\<rparr>"
  by (rule ext) (simp add: set_columns_def defaults_def users_table_def users_columns_def plain_column_def user_row_def)

lemma new_session_row:
  "(set_columns [''user_id'', ''username'', ''role'', ''token'', ''created_at'', ''expires_at'']
      [VInt u, VText a, VText r, VText k, VText (Format c), VText (Format t)] (defaults (sessions_table xs m)))(''id'' \<mapsto> VInt i)
    = session_row \<lparr>S_ID = i, S_UserID = u, S_Username = a, S_Role = r, S_Token = k, S_CreatedAt = c, S_ExpiresAt = t\<rparr>"
  by (rule ext) (simp add: set_columns_def defaults_def sessions_table_def sessions_columns_def plain_column_def session_row_def)

lemma changed_user_row:
  "set_columns [''username'', ''password_hash'', ''role'', ''updated_at''] [VText a, VText h, VText r, VText (Format t)] (user_row v)
    = user_row (v\<lparr>U_Username := a, U_PasswordHash := h, U_Role := r, U_UpdatedAt := t\<rparr>)"
  by (rule ext) (simp add: set_columns_def user_row_def)

lemma sem_insert_user:
  assumes "d ''users'' = Some (users_table us n)"
    and "v = \<lparr>U_ID = i, U_Username = a, U_PasswordHash = h, U_Role = r, U_CreatedAt = c, U_UpdatedAt = t\<rparr>"
  shows "sem_exec i (Insert ''users'' [''username'', ''password_hash'', ''role'', ''created_at'', ''updated_at''])
      [VText a, VText h, VText r, VText (Format c), VText (Format t)] d
    = Some (if distinct (map U_ID (us @ [v])) \<and> distinct (map U_Username (us @ [v]))
            then (Done 1, d(''users'' \<mapsto> users_table (us @ [v]) i)) else (UniqueViolation, d))"
proof -
  have key: "find c_auto (t_cols (users_table us n)) = Some (hd users_columns)"
    by (simp add: users_table_def users_columns_def)
  have need: "\<not> (\<exists>k \<in> set (t_cols (users_table us n)). c_notnull k \<and> c_default k = None
      \<and> c_name k \<notin> set [''username'', ''password_hash'', ''role'', ''created_at'', ''updated_at''])"
    by (simp add: users_table_def users_columns_def plain_column_def)
  have rows: "t_rows (users_table us n) @ [user_row v] = map user_row (us @ [v])"
    by (simp add: users_table_def)
  have tbl: "(users_table us n)\<lparr>t_rows := map user_row (us @ [v]), t_seq := i\<rparr> = users_table (us @ [v]) i"
    by (simp add: users_table_def)
  have name: "c_name (hd users_columns) = ''id''" by (simp add: users_columns_def)
  show ?thesis
    by (simp only: sem_exec.simps assms(1) option.case key need name new_user_row rows Let_def assms(2) [symmetric] tbl unique_users)
      simp
qed

lemma sem_insert_session:
  assumes "d ''sessions'' = Some (sessions_table xs m)"
    and "y = \<lparr>S_ID = i, S_UserID = u, S_Username = a, S_Role = r, S_Token = k, S_CreatedAt = c, S_ExpiresAt = t\<rparr>"
  shows "sem_exec i (Insert ''sessions'' [''user_id'', ''username'', ''role'', ''token'', ''created_at'', ''expires_at''])
      [VInt u, VText a, VText r, VText k, VText (Format c), VText (Format t)] d
    = Some (if distinct (map S_ID (xs @ [y])) \<and> distinct (map S_Token (xs @ [y]))
            then (Done 1, d(''sessions'' \<mapsto> sessions_table (xs @ [y]) i)) else (UniqueViolation, d))"
proof -
  have key: "find c_auto (t_cols (sessions_table xs m)) = Some (hd sessions_columns)"
    by (simp add: sessions_table_def sessions_columns_def)
  have need: "\<not> (\<exists>k \<in> set (t_cols (sessions_table xs m)). c_notnull k \<and> c_default k = None
      \<and> c_name k \<notin> set [''user_id'', ''username'', ''role'', ''token'', ''created_at'', ''expires_at''])"
    by (simp add: sessions_table_def sessions_columns_def plain_column_def)
  have rows: "t_rows (sessions_table xs m) @ [session_row y] = map session_row (xs @ [y])"
    by (simp add: sessions_table_def)
  have tbl: "(sessions_table xs m)\<lparr>t_rows := map session_row (xs @ [y]), t_seq := i\<rparr> = sessions_table (xs @ [y]) i"
    by (simp add: sessions_table_def)
  have name: "c_name (hd sessions_columns) = ''id''" by (simp add: sessions_columns_def)
  show ?thesis
    by (simp only: sem_exec.simps assms(1) option.case key need name new_session_row rows Let_def assms(2) [symmetric] tbl unique_sessions)
      simp
qed

lemma filter_user_rows: "filter (\<lambda>r. P r) (map user_row us) = map user_row (filter (\<lambda>u. P (user_row u)) us)"
  by (induction us) simp_all

lemma filter_session_rows: "filter (\<lambda>r. P r) (map session_row xs) = map session_row (filter (\<lambda>x. P (session_row x)) xs)"
  by (induction xs) simp_all

lemma sem_delete_users:
  assumes "d ''users'' = Some (users_table us n)"
  shows "sem_exec j (Delete ''users'' [(''id'', Eq)]) [VInt i] d
    = Some (Done (int (length (filter (\<lambda>u. U_ID u = i) us))),
        d(''users'' \<mapsto> users_table (filter (\<lambda>u. U_ID u \<noteq> i) us) n))"
  using assms by (simp add: filter_user_rows) (simp add: users_table_def filter_user_rows)

lemma sem_delete_sessions:
  assumes "d ''sessions'' = Some (sessions_table xs m)" "typed (sessions_table xs m) (map fst w) vs"
    and "\<And>x. x \<in> set xs \<Longrightarrow> holds w vs (session_row x) \<longleftrightarrow> P x"
  shows "sem_exec j (Delete ''sessions'' w) vs d
    = Some (Done (int (length (filter P xs))), d(''sessions'' \<mapsto> sessions_table (filter (\<lambda>x. \<not> P x) xs) m))"
proof -
  have "filter (\<lambda>x. holds w vs (session_row x)) xs = filter P xs"
    "filter (\<lambda>x. \<not> holds w vs (session_row x)) xs = filter (\<lambda>x. \<not> P x) xs"
    using assms(3) by (auto intro: filter_cong)
  then show ?thesis
    using assms(1,2) by (simp add: sessions_table_def filter_session_rows)
qed

lemma sem_select_users:
  assumes "d ''users'' = Some (users_table us n)" "typed (users_table us n) (map fst w) vs"
    and "\<And>u. u \<in> set us \<Longrightarrow> holds w vs (user_row u) \<longleftrightarrow> P u"
  shows "sem_query (Select cs ''users'' w ord) vs d = Some (map user_row (filter P us))"
proof -
  have "filter (\<lambda>u. holds w vs (user_row u)) us = filter P us" using assms(3) by (auto intro: filter_cong)
  with assms(1,2) show ?thesis by (simp add: users_table_def filter_user_rows)
qed

lemma sem_select_sessions:
  assumes "d ''sessions'' = Some (sessions_table xs m)" "typed (sessions_table xs m) (map fst w) vs"
    and "\<And>x. x \<in> set xs \<Longrightarrow> holds w vs (session_row x) \<longleftrightarrow> P x"
  shows "sem_query (Select cs ''sessions'' w ord) vs d = Some (map session_row (filter P xs))"
proof -
  have "filter (\<lambda>x. holds w vs (session_row x)) xs = filter P xs" using assms(3) by (auto intro: filter_cong)
  with assms(1,2) show ?thesis by (simp add: sessions_table_def filter_session_rows)
qed

lemma sem_update_user:
  assumes "d ''users'' = Some (users_table us n)" "distinct (map U_ID us)"
  shows "sem_exec j (Update ''users'' [''username'', ''password_hash'', ''role'', ''updated_at''] [(''id'', Eq)])
      [VText a, VText h, VText r, VText (Format t), VInt i] d
    = (let us' = map (\<lambda>u. if U_ID u = i then u\<lparr>U_Username := a, U_PasswordHash := h, U_Role := r, U_UpdatedAt := t\<rparr> else u) us
       in Some (if distinct (map U_Username us')
            then (Done (int (length (filter (\<lambda>u. U_ID u = i) us))), d(''users'' \<mapsto> users_table us' n))
            else (UniqueViolation, d)))"
proof -
  let ?us = "map (\<lambda>u. if U_ID u = i then u\<lparr>U_Username := a, U_PasswordHash := h, U_Role := r, U_UpdatedAt := t\<rparr> else u) us"
  have one: "length (filter (\<lambda>u. U_ID u = i) us) \<le> 1"
    using assms(2) by (induction us) (auto simp: filter_empty_conv image_iff)
  have ids: "map U_ID ?us = map U_ID us" by simp
  have rows: "map (\<lambda>q. if holds [(''id'', Eq)] [VInt i] q
        then set_columns [''username'', ''password_hash'', ''role'', ''updated_at''] [VText a, VText h, VText r, VText (Format t)] q
        else q) (map user_row us) = map user_row ?us"
    by (simp add: changed_user_row)
  have tbl: "(users_table us n)\<lparr>t_rows := map user_row ?us\<rparr> = users_table ?us n"
    by (simp add: users_table_def)
  have auto: "\<not> (\<exists>k \<in> set (t_cols (users_table us n)). c_auto k
      \<and> c_name k \<in> set [''username'', ''password_hash'', ''role'', ''updated_at''])"
    by (simp add: users_table_def users_columns_def plain_column_def)
  have tr: "t_rows (users_table us n) = map user_row us" by (simp add: users_table_def)
  have hit: "length (filter (holds [(''id'', Eq)] [VInt i]) (map user_row us)) = length (filter (\<lambda>u. U_ID u = i) us)"
    by (simp add: filter_user_rows)
  have dr: "drop (length [''username'', ''password_hash'', ''role'', ''updated_at''])
      [VText a, VText h, VText r, VText (Format t), VInt i] = [VInt i]"
    "take (length [''username'', ''password_hash'', ''role'', ''updated_at''])
      [VText a, VText h, VText r, VText (Format t), VInt i] = [VText a, VText h, VText r, VText (Format t)]"
    by simp_all
  have ty: "typed (users_table us n) ([''username'', ''password_hash'', ''role'', ''updated_at''] @ map fst [(''id'', Eq)])
      [VText a, VText h, VText r, VText (Format t), VInt i]"
    by simp
  have d: "distinct (map U_ID ?us) \<and> distinct (map U_Username ?us) \<longleftrightarrow> distinct (map U_Username ?us)"
    unfolding ids using assms(2) by simp
  have not: "\<not> 1 < length (filter (\<lambda>u. U_ID u = i) us)" using one by simp
  show ?thesis
    unfolding sem_exec.simps assms(1) option.case Let_def dr tr hit rows unique_users d tbl
    by (simp only: ty auto not simp_thms if_False if_not_P if_distrib) simp
qed

end
