(* ===== verification/Sqlite_Reads.thy ===== *)
theory Sqlite_Reads
  imports Sqlite_Rows
begin

text \<open>
  The reading methods of \<open>SQLiteStore\<close>, over any driver that keeps the laws of \<open>sql_engine\<close>: what they return
  when the tables hold the users \<open>us\<close> and the sessions \<open>xs\<close>.
\<close>

lemma mset_map_eqD: "mset rs = mset (map f as) \<Longrightarrow> \<exists>bs. rs = map f bs \<and> mset bs = mset as"
proof (induction rs arbitrary: as)
  case (Cons r rs)
  from Cons.prems have "r \<in> set (map f as)" by (metis list.set_intros(1) mset_eq_setD)
  then obtain a where a: "a \<in> set as" "r = f a" by auto
  then obtain l1 l2 where as: "as = l1 @ a # l2" by (meson split_list)
  with Cons.prems a have "mset rs = mset (map f (l1 @ l2))" by simp
  from Cons.IH [OF this] obtain bs where "rs = map f bs" "mset bs = mset (l1 @ l2)" by auto
  then show ?case by (intro exI [of _ "a # bs"]) (simp add: a as)
qed simp

context sql_engine begin

lemma query_row_some:
  assumes "QueryRow E q vs d = Inr (Some row)" "sem_query q vs (tables d) = Some sel"
  shows "\<exists>r \<in> set sel. row = project q r"
proof -
  from assms(1) obtain rows err where q: "db_Query E q vs d = Inr (row # rows, err)"
    by (auto simp: QueryRow_def split: sum.splits prod.splits list.splits option.splits)
  from query_rows [OF q assms(2)] obtain rs rest where "row # rows = map (project q) rs" "mset (rs @ rest) = mset sel"
    by (elim exE conjE)
  moreover from this(2) have "set rs \<subseteq> set sel" by (metis mset_eq_setD set_append sup_ge1)
  ultimately show ?thesis by (auto simp: Cons_eq_map_conv)
qed

lemma query_row_none:
  assumes "QueryRow E q vs d = Inr None" "sem_query q vs (tables d) = Some sel"
  shows "sel = []"
proof -
  from assms(1) have q: "db_Query E q vs d = Inr ([], None)"
    by (auto simp: QueryRow_def split: sum.splits prod.splits list.splits option.splits)
  from query_rows [OF q assms(2)] show ?thesis by auto
qed

lemma query_row_avail:
  assumes "avail d" "sem_query q vs (tables d) = Some sel"
  shows "\<exists>r. QueryRow E q vs d = Inr r"
proof -
  obtain rows where "db_Query E q vs d = Inr (rows, None)"
    using query_avail [OF assms(1), of q vs] assms(2) by auto
  then show ?thesis by (cases rows) (simp_all add: QueryRow_def)
qed

lemma fetch_user:
  assumes "sem_query (Select user_columns t w ord) vs (tables d) = Some (map user_row us)" "list_all kept_user us"
  shows "case QueryRow E (Select user_columns t w ord) vs d of Inl m \<Rightarrow> \<not> avail d
    | Inr None \<Rightarrow> us = []
    | Inr (Some row) \<Rightarrow> \<exists>u \<in> set us. scan_user row = Inr (u\<lparr>U_CreatedAt := 0, U_UpdatedAt := 0\<rparr>, Format (U_CreatedAt u), Format (U_UpdatedAt u))
        \<and> kept_user u"
proof (cases "QueryRow E (Select user_columns t w ord) vs d")
  case (Inl m)
  then show ?thesis using query_row_avail [OF _ assms(1)] by fastforce
next
  case (Inr r)
  show ?thesis
  proof (cases r)
    case None
    with Inr query_row_none [OF _ assms(1)] show ?thesis by simp
  next
    case (Some row)
    with Inr query_row_some [OF _ assms(1)] obtain u where "u \<in> set us" "row = map (cell (user_row u)) user_columns"
      by auto
    with assms(2) show ?thesis by (auto simp: Inr Some list_all_iff)
  qed
qed

lemma fetch_session:
  assumes "sem_query (Select session_columns t w ord) vs (tables d) = Some (map session_row xs)" "list_all kept_session xs"
  shows "case QueryRow E (Select session_columns t w ord) vs d of Inl m \<Rightarrow> \<not> avail d
    | Inr None \<Rightarrow> xs = []
    | Inr (Some row) \<Rightarrow> \<exists>x \<in> set xs. scan_session row
          = Inr (x\<lparr>S_CreatedAt := 0, S_ExpiresAt := 0\<rparr>, Format (S_CreatedAt x), Format (S_ExpiresAt x)) \<and> kept_session x"
proof (cases "QueryRow E (Select session_columns t w ord) vs d")
  case (Inl m)
  then show ?thesis using query_row_avail [OF _ assms(1)] by fastforce
next
  case (Inr r)
  show ?thesis
  proof (cases r)
    case None
    with Inr query_row_none [OF _ assms(1)] show ?thesis by simp
  next
    case (Some row)
    with Inr query_row_some [OF _ assms(1)] obtain x where "x \<in> set xs" "row = map (cell (session_row x)) session_columns"
      by auto
    with assms(2) show ?thesis by (auto simp: Inr Some list_all_iff)
  qed
qed

lemma sq_GetUser_spec:
  assumes "holds_rows (tables d) us n xs m" "rows_wf us n xs m"
  shows "case sq_GetUser E i d of Inr u \<Rightarrow> u \<in> set us \<and> U_ID u = i
    | Inl msg \<Rightarrow> avail d \<longrightarrow> i \<notin> U_ID ` set us \<and> Contains msg ''not found''"
proof -
  have sel: "sem_query (Select user_columns ''users'' [(''id'', Eq)] None) [VInt i] (tables d)
      = Some (map user_row (filter (\<lambda>u. U_ID u = i) us))"
    using assms(1) by (intro sem_select_users [where n = n]) (auto simp: holds_rows_def)
  have k: "list_all kept_user (filter (\<lambda>u. U_ID u = i) us)" using assms(2) by (auto simp: rows_wf_def list_all_iff)
  from fetch_user [OF sel k] show ?thesis
    by (auto simp: sq_GetUser_def filter_empty_conv split: sum.splits option.splits)
qed

lemma sq_GetUserByUsername_spec:
  assumes "holds_rows (tables d) us n xs m" "rows_wf us n xs m"
  shows "case sq_GetUserByUsername E e a d of Inr u \<Rightarrow> u \<in> set us \<and> U_Username u = a
    | Inl msg \<Rightarrow> avail d \<longrightarrow> a \<notin> U_Username ` set us"
proof -
  have sel: "sem_query (Select user_columns ''users'' [(''username'', Eq)] None) [VText a] (tables d)
      = Some (map user_row (filter (\<lambda>u. U_Username u = a) us))"
    using assms(1) by (intro sem_select_users [where n = n]) (auto simp: holds_rows_def)
  have k: "list_all kept_user (filter (\<lambda>u. U_Username u = a) us)" using assms(2) by (auto simp: rows_wf_def list_all_iff)
  from fetch_user [OF sel k] show ?thesis
    by (auto simp: sq_GetUserByUsername_def filter_empty_conv split: sum.splits option.splits)
qed

lemma sq_GetSessionByID_spec:
  assumes "holds_rows (tables d) us n xs m" "rows_wf us n xs m"
  shows "case sq_GetSessionByID E i d of Inr x \<Rightarrow> x \<in> set xs \<and> S_ID x = i
    | Inl msg \<Rightarrow> avail d \<longrightarrow> i \<notin> S_ID ` set xs"
proof -
  have sel: "sem_query (Select session_columns ''sessions'' [(''id'', Eq)] None) [VInt i] (tables d)
      = Some (map session_row (filter (\<lambda>x. S_ID x = i) xs))"
    using assms(1) by (intro sem_select_sessions [where m = m]) (auto simp: holds_rows_def)
  have k: "list_all kept_session (filter (\<lambda>x. S_ID x = i) xs)" using assms(2) by (auto simp: rows_wf_def list_all_iff)
  from fetch_session [OF sel k] show ?thesis
    by (auto simp: sq_GetSessionByID_def filter_empty_conv split: sum.splits option.splits)
qed

lemma sq_GetSessionByToken_spec:
  assumes "holds_rows (tables d) us n xs m" "rows_wf us n xs m"
  shows "case sq_GetSessionByToken E e t d of Inr x \<Rightarrow> x \<in> set xs \<and> S_Token x = t
    | Inl msg \<Rightarrow> avail d \<longrightarrow> t \<notin> S_Token ` set xs"
proof -
  have sel: "sem_query (Select session_columns ''sessions'' [(''token'', Eq)] None) [VText t] (tables d)
      = Some (map session_row (filter (\<lambda>x. S_Token x = t) xs))"
    using assms(1) by (intro sem_select_sessions [where m = m]) (auto simp: holds_rows_def)
  have k: "list_all kept_session (filter (\<lambda>x. S_Token x = t) xs)" using assms(2) by (auto simp: rows_wf_def list_all_iff)
  from fetch_session [OF sel k] show ?thesis
    by (auto simp: sq_GetSessionByToken_def filter_empty_conv split: sum.splits option.splits)
qed

lemma query_all:
  assumes "db_Query E q vs d = Inr (rows, None)" "sem_query q vs (tables d) = Some (map f as)"
  shows "\<exists>bs. rows = map (project q) (map f bs) \<and> mset bs = mset as \<and> ordered q (map f bs)"
proof -
  from query_rows [OF assms] obtain rs where rs: "rows = map (project q) rs" "mset rs = mset (map f as)" "ordered q rs"
    by auto
  from mset_map_eqD [OF rs(2)] obtain bs where "rs = map f bs" "mset bs = mset as" by auto
  with rs show ?thesis by auto
qed

lemma mset_filter_kept:
  "mset bs = mset (filter P as) \<Longrightarrow> list_all Q as \<Longrightarrow> list_all Q bs"
  by (drule mset_eq_setD) (auto simp: list_all_iff)

lemma sq_ListUsers_spec:
  assumes "holds_rows (tables d) us n xs m" "rows_wf us n xs m"
  shows "case sq_ListUsers E e r d of Inr vs \<Rightarrow> mset vs = mset (filter (\<lambda>u. r = [] \<or> U_Role u = r) us)
    | Inl msg \<Rightarrow> \<not> avail d"
proof -
  let ?us = "filter (\<lambda>u. r = [] \<or> U_Role u = r) us"
  obtain w vs where q: "(if r \<noteq> [] then (Select user_columns ''users'' [(''role'', Eq)] None, [VText r])
      else (Select user_columns ''users'' [] None, [])) = (Select user_columns ''users'' w None, vs)"
    and sel: "sem_query (Select user_columns ''users'' w None) vs (tables d) = Some (map user_row ?us)"
  proof (cases "r = []")
    case True
    with assms(1) show thesis
      by (intro that [of "[]" "[]"] sem_select_users [where n = n]) (auto simp: holds_rows_def)
  next
    case False
    with assms(1) show thesis
      by (intro that [of "[(''role'', Eq)]" "[VText r]"] sem_select_users [where n = n]) (auto simp: holds_rows_def)
  qed
  have l: "sq_ListUsers E e r d =
    (case db_Query E (Select user_columns ''users'' w None) vs d of
           Inl err \<Rightarrow> Inl (''failed to query users: '' @ err)
         | Inr (rows, rows_err) \<Rightarrow>
             bind_res (user_rows rows) (\<lambda>users.
               case rows_err of Some err \<Rightarrow> Inl (''error during row iteration: '' @ err) | None \<Rightarrow> Inr users))"
    by (simp only: sq_ListUsers_def Let_def q prod.case)
  have k: "list_all kept_user us" using assms(2) by (simp add: rows_wf_def)
  have all: "\<exists>vs'. user_rows rows = Inr vs' \<and> mset vs' = mset ?us"
    if rows: "db_Query E (Select user_columns ''users'' w None) vs d = Inr (rows, None)" for rows
  proof -
    from query_all [OF rows sel] obtain bs where
      "rows = map (\<lambda>u. map (cell (user_row u)) user_columns) bs" "mset bs = mset ?us" by (auto simp: comp_def)
    then show ?thesis using user_rows_map [OF mset_filter_kept [OF _ k]] by auto
  qed
  show ?thesis
  proof (cases "sq_ListUsers E e r d")
    case (Inr vs')
    then obtain rows where "db_Query E (Select user_columns ''users'' w None) vs d = Inr (rows, None)" "user_rows rows = Inr vs'"
      by (auto simp: l split: sum.splits option.splits)
    with all [of rows] Inr show ?thesis by simp
  next
    case (Inl msg)
    have "\<not> avail d"
    proof
      assume "avail d"
      from query_avail [OF this, of "Select user_columns ''users'' w None" vs] sel
      obtain rows where rows: "db_Query E (Select user_columns ''users'' w None) vs d = Inr (rows, None)" by auto
      with all [of rows] Inl show False by (auto simp: l)
    qed
    with Inl show ?thesis by simp
  qed
qed

lemma sq_ListSessions_spec:
  assumes "holds_rows (tables d) us n xs m" "rows_wf us n xs m" "std_year (se_now e)"
  shows "case sq_ListSessionsByUserID E e uid d of
      Inr ys \<Rightarrow> mset ys = mset (filter (\<lambda>x. S_UserID x = uid \<and> trunc_sec (se_now e) < S_ExpiresAt x) xs)
        \<and> sorted_wrt (\<lambda>x y. S_CreatedAt y \<le> S_CreatedAt x) ys
    | Inl msg \<Rightarrow> \<not> avail d"
proof -
  let ?q = "Select session_columns ''sessions'' [(''user_id'', Eq), (''expires_at'', Gt)] (Some ''created_at'')"
  let ?vs = "[VInt uid, VText (Format (se_now e))]"
  let ?xs = "filter (\<lambda>x. S_UserID x = uid \<and> trunc_sec (se_now e) < S_ExpiresAt x) xs"
  have k: "list_all kept_session xs" using assms(2) by (simp add: rows_wf_def)
  have sel: "sem_query ?q ?vs (tables d) = Some (map session_row ?xs)"
  proof (intro sem_select_sessions [where m = m])
    show "tables d ''sessions'' = Some (sessions_table xs m)" using assms(1) by (simp add: holds_rows_def)
    fix x assume "x \<in> set xs"
    with k have "kept (S_ExpiresAt x)" by (auto simp: list_all_iff kept_session_def)
    then show "holds [(''user_id'', Eq), (''expires_at'', Gt)] ?vs (session_row x)
        \<longleftrightarrow> S_UserID x = uid \<and> trunc_sec (se_now e) < S_ExpiresAt x"
      by (simp add: Format_kept_less(1) [OF _ assms(3)])
  qed simp
  have sorted: "sorted_wrt (\<lambda>x y. S_CreatedAt y \<le> S_CreatedAt x) ys"
    if "list_all kept_session ys" "ordered ?q (map session_row ys)" for ys
  proof -
    from that(2) have "sorted_wrt (\<lambda>x y. Format (S_CreatedAt y) \<le> Format (S_CreatedAt x)) ys"
      by (simp add: sorted_wrt_map cell_def)
    then show ?thesis
      by (rule sorted_wrt_mono_rel [rotated]) (use that(1) Format_kept_le in \<open>auto simp: list_all_iff kept_session_def\<close>)
  qed
  have all: "\<exists>ys. session_rows rows = Inr ys \<and> mset ys = mset ?xs \<and> sorted_wrt (\<lambda>x y. S_CreatedAt y \<le> S_CreatedAt x) ys"
    if rows: "db_Query E ?q ?vs d = Inr (rows, None)" for rows
  proof -
    from query_all [OF rows sel] obtain bs where
      b: "rows = map (\<lambda>x. map (cell (session_row x)) session_columns) bs" "mset bs = mset ?xs" "ordered ?q (map session_row bs)"
      by (auto simp: comp_def)
    from mset_filter_kept [OF b(2) k] have "list_all kept_session bs" .
    with b show ?thesis using session_rows_map sorted by auto
  qed
  show ?thesis
  proof (cases "sq_ListSessionsByUserID E e uid d")
    case (Inr ys)
    then obtain rows where "db_Query E ?q ?vs d = Inr (rows, None)" "session_rows rows = Inr ys"
      by (auto simp: sq_ListSessionsByUserID_def split: sum.splits option.splits)
    with all [of rows] Inr show ?thesis by simp
  next
    case (Inl msg)
    have "\<not> avail d"
    proof
      assume "avail d"
      from query_avail [OF this, of ?q ?vs] sel obtain rows where "db_Query E ?q ?vs d = Inr (rows, None)" by auto
      with all [of rows] Inl show False by (auto simp: sq_ListSessionsByUserID_def)
    qed
    with Inl show ?thesis by simp
  qed
qed

end

end
