(* ===== verification/Sqlite_Writes.thy ===== *)
theory Sqlite_Writes
  imports Sqlite_Reads
begin

text \<open>
  The writing methods of \<open>SQLiteStore\<close> over any driver that keeps the laws of \<open>sql_engine\<close>: what they return
  and what the tables hold afterwards.
\<close>

lemma rows_wfD:
  assumes "rows_wf us n xs m"
  shows "distinct (map U_ID us)" "distinct (map U_Username us)" "list_all kept_user us"
    "\<And>u. u \<in> set us \<Longrightarrow> 0 < U_ID u \<and> U_ID u \<le> n" "0 \<le> n" "n \<le> max_rowid"
    "distinct (map S_ID xs)" "distinct (map S_Token xs)" "list_all kept_session xs"
    "\<And>x. x \<in> set xs \<Longrightarrow> 0 < S_ID x \<and> S_ID x \<le> m" "0 \<le> m" "m \<le> max_rowid"
  using assms by (auto simp: rows_wf_def ids_wf_def)

lemma rows_wf_add_user:
  assumes "rows_wf us n xs m" "n < i" "i \<le> max_rowid" "U_ID v = i" "U_Username v \<notin> U_Username ` set us" "kept_user v"
  shows "rows_wf (us @ [v]) i xs m"
  using assms by (force simp: rows_wf_def ids_wf_def)

lemma rows_wf_add_session:
  assumes "rows_wf us n xs m" "m < i" "i \<le> max_rowid" "S_ID y = i" "S_Token y \<notin> S_Token ` set xs" "kept_session y"
  shows "rows_wf us n (xs @ [y]) i"
  using assms by (force simp: rows_wf_def ids_wf_def)

lemma distinct_map_filterI: "distinct (map f as) \<Longrightarrow> distinct (map f (filter P as))"
  by (auto simp: distinct_map inj_on_def)

lemma ids_wf_filter: "ids_wf (map f as) n \<Longrightarrow> ids_wf (map f (filter P as)) n"
  by (auto simp: ids_wf_def distinct_map inj_on_def)

lemma rows_wf_filter:
  "rows_wf us n xs m \<Longrightarrow> rows_wf (filter P us) n xs m"
  "rows_wf us n xs m \<Longrightarrow> rows_wf us n (filter Q xs) m"
  by (auto simp: rows_wf_def ids_wf_filter distinct_map_filterI list_all_iff)

lemma kept_stored:
  "std_year (U_CreatedAt u) \<Longrightarrow> std_year (U_UpdatedAt u) \<Longrightarrow> kept_user (stored_user trunc_sec u)"
  "std_year (S_CreatedAt x) \<Longrightarrow> std_year (S_ExpiresAt x) \<Longrightarrow> kept_session (stored_session trunc_sec x)"
  by (simp_all add: kept_user_def kept_session_def stored_user_def stored_session_def kept_trunc)

text \<open>Every writing method runs one statement, and what it leaves is what that leaves.\<close>

lemma sq_writes_snd:
  "snd (sq_CreateUser E e a h r d) = snd (db_Exec E
     (Insert ''users'' [''username'', ''password_hash'', ''role'', ''created_at'', ''updated_at''])
     [VText a, VText h, VText r, VText (Format (se_now e)), VText (Format (se_now e))] d)"
  "snd (sq_UpdateUser E e i a h r d) = snd (db_Exec E
     (Update ''users'' [''username'', ''password_hash'', ''role'', ''updated_at''] [(''id'', Eq)])
     [VText a, VText h, VText r, VText (Format (se_now e)), VInt i] d)"
  "snd (sq_DeleteUser E i d) = snd (db_Exec E (Delete ''users'' [(''id'', Eq)]) [VInt i] d)"
  "snd (sq_CreateSession E e uid a r ttl d) = (case se_rand e of Inl _ \<Rightarrow> d | Inr b \<Rightarrow> snd (db_Exec E
     (Insert ''sessions'' [''user_id'', ''username'', ''role'', ''token'', ''created_at'', ''expires_at''])
     [VInt uid, VText a, VText r, VText (EncodeToString b), VText (Format (se_now e)), VText (Format (se_now e + ttl))] d))"
  "snd (sq_DeleteSession E i d) = snd (db_Exec E (Delete ''sessions'' [(''id'', Eq)]) [VInt i] d)"
  "snd (sq_DeleteExpiredSessions E e d) = snd (db_Exec E (Delete ''sessions'' [(''expires_at'', Lt)]) [VText (Format (se_now e))] d)"
  "snd (sq_DeleteSessionsByUserID E e uid t d) = snd (db_Exec E
     (Delete ''sessions'' [(''user_id'', Eq), (''token'', Ne)]) [VInt uid, VText t] d)"
  by (simp_all add: sq_CreateUser_def sq_UpdateUser_def sq_DeleteUser_def sq_CreateSession_def sq_DeleteSession_def
    sq_DeleteSessionsByUserID_def sq_DeleteExpiredSessions_def Let_def split: prod.split sum.split option.split)

context sql_engine begin

text \<open>A statement whose meaning is known either does it, with some free rowid, or changes nothing.\<close>

lemma run_exec:
  assumes "db_Exec E st vs d = (z, d1)"
    and sem: "\<And>i. sem_exec i st vs (tables d) = Some (if P i then (Done k, db' i) else (UniqueViolation, old i))"
  shows "case z of
      Inr r \<Rightarrow> \<exists>i. free_id st (tables d) i \<and> P i \<and> tables d1 = db' i
        \<and> (inserts st \<longrightarrow> isl (LastInsertId r) \<or> LastInsertId r = Inr i)
        \<and> (changes_rows st \<longrightarrow> isl (RowsAffected r) \<or> RowsAffected r = Inr k)
        \<and> (avail d \<longrightarrow> avail d1 \<and> (inserts st \<longrightarrow> LastInsertId r = Inr i) \<and> (changes_rows st \<longrightarrow> RowsAffected r = Inr k))
    | Inl err \<Rightarrow> tables d1 = tables d
        \<and> (avail d \<longrightarrow> room l d \<longrightarrow> (\<exists>i. free_id st (tables d) i \<and> \<not> P i) \<and> Contains err ''UNIQUE constraint failed'')"
proof -
  have known: "understood st vs (tables d)" by (simp add: understood_def sem)
  show ?thesis
  proof (cases z)
    case (Inl err)
    then show ?thesis
      using exec_failed [of st vs d err d1] exec_refused [OF _ known, of err d1 l] assms(1)
      by (auto simp: sem split: if_splits)
  next
    case (Inr r)
    with exec_done [OF _ known, of r d1] assms(1) obtain i where i: "free_id st (tables d) i" "P i" "tables d1 = db' i"
      "inserts st \<longrightarrow> isl (LastInsertId r) \<or> LastInsertId r = Inr i"
      "changes_rows st \<longrightarrow> isl (RowsAffected r) \<or> RowsAffected r = Inr k"
      by (auto simp: sem split: if_splits)
    with exec_avail [OF _ known, of r d1] assms(1) Inr show ?thesis by (auto intro!: exI [of _ i])
  qed
qed

text \<open>What a statement without a choice does.\<close>

lemma run_fixed:
  assumes "db_Exec E st vs d = (z, d1)"
    and "\<And>i. sem_exec i st vs (tables d) = Some (if P then (Done k, db') else (UniqueViolation, old))" "changes_rows st"
  shows "case z of
      Inr r \<Rightarrow> P \<and> tables d1 = db' \<and> (isl (RowsAffected r) \<or> RowsAffected r = Inr k)
        \<and> (avail d \<longrightarrow> avail d1 \<and> RowsAffected r = Inr k)
    | Inl err \<Rightarrow> tables d1 = tables d \<and> (avail d \<longrightarrow> room l d \<longrightarrow> \<not> P \<and> Contains err ''UNIQUE constraint failed'')"
  using run_exec [where P = "\<lambda>_. P" and db' = "\<lambda>_. db'" and old = "\<lambda>_. old", OF assms(1,2), of l] assms(3)
  by (auto split: sum.splits)

lemma exec_room:
  "room l d \<Longrightarrow> \<not> inserts st \<Longrightarrow> room l (snd (db_Exec E st vs d))"
  "room (Suc l) d \<Longrightarrow> room l (snd (db_Exec E st vs d))"
proof -
  obtain z d' where x: "db_Exec E st vs d = (z, d')" by fastforce
  show "room l d \<Longrightarrow> \<not> inserts st \<Longrightarrow> room l (snd (db_Exec E st vs d))" using room_left [OF x, of l] by (simp add: x)
  show "room (Suc l) d \<Longrightarrow> room l (snd (db_Exec E st vs d))"
    using room_left [OF x, of l] room_less [of l d] by (simp add: x split: if_splits)
qed

lemma sq_room:
  "room (Suc l) d \<Longrightarrow> room l (snd (sq_CreateUser E e a h r d))"
  "room (Suc l) d \<Longrightarrow> room l (snd (sq_CreateSession E e uid a r ttl d))"
  "room l d \<Longrightarrow> room l (snd (sq_UpdateUser E e i a h r d))"
  "room l d \<Longrightarrow> room l (snd (sq_DeleteUser E i d))"
  "room l d \<Longrightarrow> room l (snd (sq_DeleteSession E i d))"
  "room l d \<Longrightarrow> room l (snd (sq_DeleteSessionsByUserID E e uid t d))"
  "room l d \<Longrightarrow> room l (snd (sq_DeleteExpiredSessions E e d))"
  by (auto simp: sq_writes_snd exec_room room_less split: sum.split)

lemma sq_CreateUser_spec:
  assumes "holds_rows (tables d) us n xs m" "rows_wf us n xs m"
    and c: "sq_CreateUser E e a h r d = (y, d')"
  shows "case y of
      Inr u \<Rightarrow> n < U_ID u \<and> U_ID u \<le> max_rowid
        \<and> u = \<lparr>U_ID = U_ID u, U_Username = a, U_PasswordHash = h, U_Role = r, U_CreatedAt = se_now e, U_UpdatedAt = se_now e\<rparr>
        \<and> a \<notin> U_Username ` set us \<and> holds_rows (tables d') (us @ [stored_user trunc_sec u]) (U_ID u) xs m
    | Inl msg \<Rightarrow> avail d \<longrightarrow> room l d \<longrightarrow> room l d' \<and> tables d' = tables d \<and> a \<in> U_Username ` set us \<and> Contains msg ''already exists''"
proof -
  let ?st = "Insert ''users'' [''username'', ''password_hash'', ''role'', ''created_at'', ''updated_at'']"
  let ?t = "se_now e"
  let ?vs = "[VText a, VText h, VText r, VText (Format ?t), VText (Format ?t)]"
  let ?u = "\<lambda>i. \<lparr>U_ID = i, U_Username = a, U_PasswordHash = h, U_Role = r, U_CreatedAt = ?t, U_UpdatedAt = ?t\<rparr>"
  let ?v = "\<lambda>i. stored_user trunc_sec (?u i)"
  let ?P = "\<lambda>i. i \<notin> U_ID ` set us \<and> a \<notin> U_Username ` set us"
  have sem: "sem_exec i ?st ?vs (tables d) = Some (if ?P i
      then (Done 1, (tables d)(''users'' \<mapsto> users_table (us @ [?v i]) i)) else (UniqueViolation, tables d))" for i
    using sem_insert_user [of "tables d" us n "?v i" i a h r "trunc_sec ?t" "trunc_sec ?t"] rows_wfD(1,2) [OF assms(2)] assms(1)
    by (simp add: holds_rows_def stored_user_def)
  have free: "free_id ?st (tables d) i \<longleftrightarrow> n < i \<and> i \<le> max_rowid" for i
    using assms(1) by (simp add: holds_rows_def users_table_def)
  have new: "i \<notin> U_ID ` set us" if "n < i" for i using rows_wfD(4) [OF assms(2)] that by force
  obtain z d1 where x: "db_Exec E ?st ?vs d = (z, d1)" by (cases "db_Exec E ?st ?vs d")
  note run = run_exec [OF x sem, of l, unfolded free]
  show ?thesis
  proof (cases z)
    case (Inl err)
    with run new c x room_left [OF x, of l] show ?thesis by (auto simp: sq_CreateUser_def Let_def)
  next
    case (Inr res)
    with run obtain i where i: "n < i" "i \<le> max_rowid" "a \<notin> U_Username ` set us"
      "tables d1 = (tables d)(''users'' \<mapsto> users_table (us @ [?v i]) i)"
      "isl (LastInsertId res) \<or> LastInsertId res = Inr i" "avail d \<Longrightarrow> LastInsertId res = Inr i" by auto
    with Inr c x assms(1) show ?thesis
      by (cases "LastInsertId res") (auto simp: sq_CreateUser_def Let_def holds_rows_def)
  qed
qed

lemma sq_CreateSession_spec:
  assumes "holds_rows (tables d) us n xs m" "rows_wf us n xs m"
    and c: "sq_CreateSession E e uid a r ttl d = (y, d')"
  shows "case y of
      Inr x \<Rightarrow> m < S_ID x \<and> S_ID x \<le> max_rowid
        \<and> (\<exists>b. se_rand e = Inr b \<and> x = \<lparr>S_ID = S_ID x, S_UserID = uid, S_Username = a, S_Role = r,
          S_Token = EncodeToString b, S_CreatedAt = se_now e, S_ExpiresAt = se_now e + ttl\<rparr>
        \<and> EncodeToString b \<notin> S_Token ` set xs) \<and> holds_rows (tables d') us n (xs @ [stored_session trunc_sec x]) (S_ID x)
    | Inl msg \<Rightarrow> avail d \<longrightarrow> room l d \<longrightarrow> room l d' \<and> tables d' = tables d
        \<and> (\<forall>b. se_rand e = Inr b \<longrightarrow> EncodeToString b \<in> S_Token ` set xs)"
proof (cases "se_rand e")
  case (Inl err)
  with c show ?thesis by (auto simp: sq_CreateSession_def)
next
  case rand: (Inr b)
  let ?st = "Insert ''sessions'' [''user_id'', ''username'', ''role'', ''token'', ''created_at'', ''expires_at'']"
  let ?t = "se_now e" and ?k = "EncodeToString b"
  let ?vs = "[VInt uid, VText a, VText r, VText ?k, VText (Format ?t), VText (Format (?t + ttl))]"
  let ?x = "\<lambda>i. \<lparr>S_ID = i, S_UserID = uid, S_Username = a, S_Role = r, S_Token = ?k, S_CreatedAt = ?t, S_ExpiresAt = ?t + ttl\<rparr>"
  let ?v = "\<lambda>i. stored_session trunc_sec (?x i)"
  let ?P = "\<lambda>i. i \<notin> S_ID ` set xs \<and> ?k \<notin> S_Token ` set xs"
  have sem: "sem_exec i ?st ?vs (tables d) = Some (if ?P i
      then (Done 1, (tables d)(''sessions'' \<mapsto> sessions_table (xs @ [?v i]) i)) else (UniqueViolation, tables d))" for i
    using sem_insert_session [of "tables d" xs m "?v i" i uid a r ?k "trunc_sec ?t" "trunc_sec (?t + ttl)"]
      rows_wfD(7,8) [OF assms(2)] assms(1)
    by (simp add: holds_rows_def stored_session_def)
  have free: "free_id ?st (tables d) i \<longleftrightarrow> m < i \<and> i \<le> max_rowid" for i
    using assms(1) by (simp add: holds_rows_def sessions_table_def)
  have new: "i \<notin> S_ID ` set xs" if "m < i" for i using rows_wfD(10) [OF assms(2)] that by force
  obtain z d1 where x: "db_Exec E ?st ?vs d = (z, d1)" by (cases "db_Exec E ?st ?vs d")
  note run = run_exec [OF x sem, of l, unfolded free]
  show ?thesis
  proof (cases z)
    case (Inl err)
    with run new c x rand room_left [OF x, of l] show ?thesis by (auto simp: sq_CreateSession_def Let_def)
  next
    case (Inr res)
    with run obtain i where i: "m < i" "i \<le> max_rowid" "?k \<notin> S_Token ` set xs"
      "tables d1 = (tables d)(''sessions'' \<mapsto> sessions_table (xs @ [?v i]) i)"
      "isl (LastInsertId res) \<or> LastInsertId res = Inr i" "avail d \<Longrightarrow> LastInsertId res = Inr i" by auto
    with Inr c x rand assms(1) show ?thesis
      by (cases "LastInsertId res") (auto simp: sq_CreateSession_def Let_def holds_rows_def)
  qed
qed

lemma filter_id: "(filter (\<lambda>a. f a = i) as = []) = (i \<notin> f ` set as)" "i \<notin> f ` set as \<Longrightarrow> filter (\<lambda>a. f a \<noteq> i) as = as"
  by (auto simp: filter_empty_conv filter_id_conv)

lemma sq_DeleteUser_spec:
  assumes "holds_rows (tables d) us n xs m" "sq_DeleteUser E i d = (y, d')"
  shows "case y of Inr _ \<Rightarrow> i \<in> U_ID ` set us \<and> holds_rows (tables d') (filter (\<lambda>u. U_ID u \<noteq> i) us) n xs m
    | Inl msg \<Rightarrow> avail d \<longrightarrow> room l d \<longrightarrow> i \<notin> U_ID ` set us \<and> holds_rows (tables d') us n xs m \<and> Contains msg ''not found''"
proof -
  let ?us = "filter (\<lambda>u. U_ID u \<noteq> i) us" and ?k = "int (length (filter (\<lambda>u. U_ID u = i) us))"
  have sem: "sem_exec j (Delete ''users'' [(''id'', Eq)]) [VInt i] (tables d)
      = Some (if True then (Done ?k, (tables d)(''users'' \<mapsto> users_table ?us n)) else (UniqueViolation, tables d))" for j
    using sem_delete_users [where d = "tables d" and us = us and n = n] assms(1) by (simp add: holds_rows_def)
  obtain z d1 where x: "db_Exec E (Delete ''users'' [(''id'', Eq)]) [VInt i] d = (z, d1)"
    by (cases "db_Exec E (Delete ''users'' [(''id'', Eq)]) [VInt i] d")
  show ?thesis
  proof (cases z)
    case (Inl err)
    with run_fixed [OF x sem, of l] assms(2) x show ?thesis by (auto simp: sq_DeleteUser_def)
  next
    case (Inr res)
    have r: "tables d1 = (tables d)(''users'' \<mapsto> users_table ?us n)" "isl (RowsAffected res) \<or> RowsAffected res = Inr ?k"
        "avail d \<Longrightarrow> RowsAffected res = Inr ?k"
      using run_fixed [OF x sem, of l] by (simp_all add: Inr)
    then have t: "holds_rows (tables d1) ?us n xs m" using assms(1) by (simp add: holds_rows_def)
    have d': "d' = d1" using assms(2) by (auto simp: sq_DeleteUser_def x Inr split: sum.splits if_splits)
    show ?thesis
    proof (cases "i \<in> U_ID ` set us")
      case True
      then have "?k \<noteq> 0" by (simp add: filter_id(1))
      with r(2,3) t assms(2) True show ?thesis
        by (auto simp: sq_DeleteUser_def x Inr d' split: sum.splits if_splits)
    next
      case False
      then have "?k = 0" "?us = us" by (simp_all add: filter_id)
      with r(2,3) t assms(2) False show ?thesis
        by (auto simp: sq_DeleteUser_def x Inr d' split: sum.splits if_splits)
    qed
  qed
qed

lemma delete_sessions:
  assumes h: "holds_rows (tables d) us n xs m" and x: "db_Exec E (Delete ''sessions'' w) vs d = (z, d')"
    and ty: "typed (sessions_table xs m) (map fst w) vs"
    and P: "\<And>x. x \<in> set xs \<Longrightarrow> holds w vs (session_row x) \<longleftrightarrow> P x"
  shows "case z of
      Inr res \<Rightarrow> holds_rows (tables d') us n (filter (\<lambda>x. \<not> P x) xs) m
        \<and> (isl (RowsAffected res) \<or> RowsAffected res = Inr (int (length (filter P xs))))
        \<and> (avail d \<longrightarrow> RowsAffected res = Inr (int (length (filter P xs))))
    | Inl err \<Rightarrow> \<not> (avail d \<and> room l d)"
proof -
  have sem: "sem_exec j (Delete ''sessions'' w) vs (tables d)
      = Some (if True then (Done (int (length (filter P xs))),
          (tables d)(''sessions'' \<mapsto> sessions_table (filter (\<lambda>x. \<not> P x) xs) m)) else (UniqueViolation, tables d))" for j
    using sem_delete_sessions [where d = "tables d" and xs = xs and m = m and w = w and vs = vs and P = P] h ty P by (simp add: holds_rows_def)
  from run_fixed [OF x sem, of l] show ?thesis using h by (auto simp: holds_rows_def split: sum.splits)
qed

lemma sq_DeleteSession_spec:
  assumes "holds_rows (tables d) us n xs m" "sq_DeleteSession E i d = (y, d')"
  shows "case y of Inr _ \<Rightarrow> i \<in> S_ID ` set xs \<and> holds_rows (tables d') us n (filter (\<lambda>x. S_ID x \<noteq> i) xs) m
    | Inl msg \<Rightarrow> avail d \<longrightarrow> room l d \<longrightarrow> i \<notin> S_ID ` set xs \<and> holds_rows (tables d') us n xs m"
proof -
  obtain z d1 where x: "db_Exec E (Delete ''sessions'' [(''id'', Eq)]) [VInt i] d = (z, d1)"
    by (cases "db_Exec E (Delete ''sessions'' [(''id'', Eq)]) [VInt i] d")
  from delete_sessions [OF assms(1) x, where l = l and P = "\<lambda>x. S_ID x = i"] x assms(2) show ?thesis
    by (auto simp: sq_DeleteSession_def filter_id split: sum.splits if_splits)
qed

lemma sq_DeleteSessionsByUserID_spec:
  assumes "holds_rows (tables d) us n xs m" "sq_DeleteSessionsByUserID E e uid t d = (y, d')"
  shows "case y of Inr _ \<Rightarrow> holds_rows (tables d') us n (filter (\<lambda>x. \<not> (S_UserID x = uid \<and> S_Token x \<noteq> t)) xs) m
    | Inl msg \<Rightarrow> \<not> (avail d \<and> room l d)"
proof -
  let ?w = "[(''user_id'', Eq), (''token'', Ne)]" and ?vs = "[VInt uid, VText t]"
  obtain z d1 where x: "db_Exec E (Delete ''sessions'' ?w) ?vs d = (z, d1)"
    by (cases "db_Exec E (Delete ''sessions'' ?w) ?vs d")
  from delete_sessions [OF assms(1) x, where l = l and P = "\<lambda>x. S_UserID x = uid \<and> S_Token x \<noteq> t"] x assms(2) show ?thesis
    by (simp add: sq_DeleteSessionsByUserID_def split: sum.splits) auto
qed

lemma sq_DeleteExpiredSessions_spec:
  assumes "holds_rows (tables d) us n xs m" "list_all kept_session xs" "std_year (se_now e)"
    and "sq_DeleteExpiredSessions E e d = (Inr k, d')"
  shows "holds_rows (tables d') us n (filter (\<lambda>x. \<not> S_ExpiresAt x < trunc_sec (se_now e)) xs) m
    \<and> k = int (length (filter (\<lambda>x. S_ExpiresAt x < trunc_sec (se_now e)) xs))"
proof -
  let ?w = "[(''expires_at'', Lt)]" and ?vs = "[VText (Format (se_now e))]"
  obtain z d1 where x: "db_Exec E (Delete ''sessions'' ?w) ?vs d = (z, d1)"
    by (cases "db_Exec E (Delete ''sessions'' ?w) ?vs d")
  have "holds ?w ?vs (session_row x) \<longleftrightarrow> S_ExpiresAt x < trunc_sec (se_now e)" if "x \<in> set xs" for x
    using that assms(2) by (simp add: list_all_iff kept_session_def Format_kept_less(2) [OF _ assms(3)])
  from delete_sessions [OF assms(1) x _ this, where l = l] x assms(4) show ?thesis
    by (simp add: sq_DeleteExpiredSessions_def split: sum.splits)
qed

lemma map_no_hit: "i \<notin> f ` set as \<Longrightarrow> map (\<lambda>a. if f a = i then g a else a) as = as"
  by (rule map_idI) auto

lemma distinct_renamed:
  assumes "distinct (map U_ID us)" "distinct (map U_Username us)" "v \<in> set us" "U_ID v = i" "U_Username u = a"
  shows "distinct (map U_Username (map (\<lambda>w. if U_ID w = i then u else w) us))
    \<longleftrightarrow> (\<forall>w \<in> set us. U_Username w = a \<longrightarrow> U_ID w = i)"
proof -
  have "distinct us" and id: "\<And>x y. x \<in> set us \<Longrightarrow> y \<in> set us \<Longrightarrow> U_ID x = U_ID y \<Longrightarrow> x = y"
      and name: "\<And>x y. x \<in> set us \<Longrightarrow> y \<in> set us \<Longrightarrow> U_Username x = U_Username y \<Longrightarrow> x = y"
    using assms(1,2) by (auto simp: distinct_map inj_on_def)
  then have d: "distinct (map U_Username (map (\<lambda>w. if U_ID w = i then u else w) us))
      \<longleftrightarrow> inj_on (\<lambda>w. U_Username (if U_ID w = i then u else w)) (set us)"
    by (simp add: distinct_map comp_def)
  show ?thesis unfolding d
  proof
    assume inj: "inj_on (\<lambda>w. U_Username (if U_ID w = i then u else w)) (set us)"
    show "\<forall>w \<in> set us. U_Username w = a \<longrightarrow> U_ID w = i"
    proof (intro ballI impI, rule ccontr)
      fix w assume w: "w \<in> set us" "U_Username w = a" "U_ID w \<noteq> i"
      then have "w = v" using inj_onD [OF inj, of w v] assms(3-5) by simp
      with w(3) assms(4) show False by simp
    qed
  next
    assume "\<forall>w \<in> set us. U_Username w = a \<longrightarrow> U_ID w = i"
    with id name assms(5) show "inj_on (\<lambda>w. U_Username (if U_ID w = i then u else w)) (set us)"
      by (intro inj_onI) (metis (full_types))
  qed
qed

text \<open>Reading a row back after the update.\<close>

lemma row_read_back:
  assumes "holds_rows (tables d) us n xs m" "distinct (map U_ID us)" "u \<in> set us" "U_ID u = i" "kept_user u"
  shows "case QueryRow E (Select user_columns ''users'' [(''id'', Eq)] None) [VInt i] d of
      Inl _ \<Rightarrow> \<not> avail d
    | Inr row \<Rightarrow> \<exists>cells x. row = Some cells \<and> scan_user cells = Inr x \<and> parse_user [] x = Inr u"
proof -
  have f: "set (filter (\<lambda>w. U_ID w = i) us) = {u}" using assms(2-4) by (auto simp: distinct_map inj_on_def)
  then have ne: "filter (\<lambda>w. U_ID w = i) us \<noteq> []" by force
  have "sem_query (Select user_columns ''users'' [(''id'', Eq)] None) [VInt i] (tables d)
      = Some (map user_row (filter (\<lambda>w. U_ID w = i) us))"
    using assms(1) by (intro sem_select_users [where n = n]) (auto simp: holds_rows_def)
  from fetch_user [OF this] assms(5) ne show ?thesis
    unfolding f list_all_iff
    by (auto split: sum.splits option.splits intro!: exI [of _ "Format (U_CreatedAt u)"])
qed

lemma update_exec:
  assumes "holds_rows (tables d) us n xs m" "distinct (map U_ID us)"
    and us': "us' = map (\<lambda>w. if U_ID w = i
        then w\<lparr>U_Username := a, U_PasswordHash := p, U_Role := r, U_UpdatedAt := trunc_sec now\<rparr> else w) us"
    and x: "db_Exec E (Update ''users'' [''username'', ''password_hash'', ''role'', ''updated_at''] [(''id'', Eq)])
      [VText a, VText p, VText r, VText (Format now), VInt i] d = (z, d1)"
  shows "case z of
      Inl err \<Rightarrow> tables d1 = tables d
        \<and> (avail d \<longrightarrow> room l d \<longrightarrow> \<not> distinct (map U_Username us') \<and> Contains err ''UNIQUE constraint failed'')
    | Inr res \<Rightarrow> distinct (map U_Username us') \<and> holds_rows (tables d1) us' n xs m \<and> (avail d \<longrightarrow> avail d1)
        \<and> (isl (RowsAffected res) \<and> \<not> avail d
            \<or> RowsAffected res = Inr (int (length (filter (\<lambda>u. U_ID u = i) us))))"
proof -
  let ?k = "int (length (filter (\<lambda>u. U_ID u = i) us))"
  have sem: "sem_exec j (Update ''users'' [''username'', ''password_hash'', ''role'', ''updated_at''] [(''id'', Eq)])
      [VText a, VText p, VText r, VText (Format now), VInt i] (tables d) = Some (if distinct (map U_Username us')
      then (Done ?k, (tables d)(''users'' \<mapsto> users_table us' n)) else (UniqueViolation, tables d))" for j
    using sem_update_user [where d = "tables d" and us = us and n = n and t = "trunc_sec now"] assms(1,2)
    by (simp add: holds_rows_def Let_def us')
  from run_fixed [OF x sem, of l] assms(1) show ?thesis by (cases z) (auto simp: holds_rows_def)
qed

lemma sq_UpdateUser_missing:
  assumes "holds_rows (tables d) us n xs m" "rows_wf us n xs m" "i \<notin> U_ID ` set us"
    and "sq_UpdateUser E e i a p r d = (y, d')"
  shows "\<exists>msg. y = Inl msg \<and> (avail d \<longrightarrow> room l d \<longrightarrow> holds_rows (tables d') us n xs m)"
proof -
  let ?us = "map (\<lambda>w. if U_ID w = i
      then w\<lparr>U_Username := a, U_PasswordHash := p, U_Role := r, U_UpdatedAt := trunc_sec (se_now e)\<rparr> else w) us"
  have us: "?us = us" and k: "filter (\<lambda>u. U_ID u = i) us = []" using assms(3) by (simp_all add: map_no_hit filter_id)
  note ids = rows_wfD(1) [OF assms(2)]
  obtain z d1 where x: "db_Exec E (Update ''users'' [''username'', ''password_hash'', ''role'', ''updated_at''] [(''id'', Eq)])
      [VText a, VText p, VText r, VText (Format (se_now e)), VInt i] d = (z, d1)" by fastforce
  from update_exec [OF assms(1) ids us [symmetric] x, of l] x assms(1,4) show ?thesis
    by (auto simp: sq_UpdateUser_def Let_def k split: sum.splits)
qed

lemma sq_UpdateUser_spec:
  assumes h: "holds_rows (tables d) us n xs m" and ok: "rows_wf us n xs m" and now: "std_year (se_now e)"
    and c: "sq_UpdateUser E e i a p r d = (y, d')"
  shows "case y of
      Inr u \<Rightarrow> (\<exists>v \<in> set us. U_ID v = i
          \<and> u = v\<lparr>U_Username := a, U_PasswordHash := p, U_Role := r, U_UpdatedAt := trunc_sec (se_now e)\<rparr>)
        \<and> (\<forall>w \<in> set us. U_Username w = a \<longrightarrow> U_ID w = i)
        \<and> holds_rows (tables d') (map (\<lambda>w. if U_ID w = i then u else w) us) n xs m
    | Inl msg \<Rightarrow> avail d \<longrightarrow> room l d \<longrightarrow> holds_rows (tables d') us n xs m \<and> (i \<notin> U_ID ` set us
        \<or> (\<exists>w \<in> set us. U_Username w = a \<and> U_ID w \<noteq> i) \<and> Contains msg ''already taken'')"
proof (cases "i \<in> U_ID ` set us")
  case False
  with sq_UpdateUser_missing [OF h ok False c, of l] show ?thesis by auto
next
  case True
  let ?new = "\<lambda>v. v\<lparr>U_Username := a, U_PasswordHash := p, U_Role := r, U_UpdatedAt := trunc_sec (se_now e)\<rparr>"
  let ?us = "map (\<lambda>w. if U_ID w = i then ?new w else w) us"
  note ids = rows_wfD(1-3) [OF ok]
  from True obtain v where v: "v \<in> set us" "U_ID v = i" by auto
  have k: "int (length (filter (\<lambda>u. U_ID u = i) us)) \<noteq> 0" using True by (simp add: filter_id)
  have us: "?us = map (\<lambda>w. if U_ID w = i then ?new v else w) us"
    using v ids(1) by (auto simp: distinct_map inj_on_def)
  have uniq: "distinct (map U_Username ?us) \<longleftrightarrow> (\<forall>w \<in> set us. U_Username w = a \<longrightarrow> U_ID w = i)"
    unfolding us by (rule distinct_renamed [OF ids(1,2) v]) simp
  obtain z d1 where x: "db_Exec E (Update ''users'' [''username'', ''password_hash'', ''role'', ''updated_at''] [(''id'', Eq)])
      [VText a, VText p, VText r, VText (Format (se_now e)), VInt i] d = (z, d1)" by fastforce
  note upd = update_exec [OF h ids(1) refl x, of l, unfolded uniq]
  show ?thesis
  proof (cases z)
    case (Inl err)
    with upd c x h show ?thesis by (auto simp: sq_UpdateUser_def Let_def)
  next
    case (Inr res)
    have kept: "kept_user (?new v)" using v(1) ids(3) now by (simp add: list_all_iff kept_user_def kept_trunc)
    have "distinct (map U_ID ?us)" "?new v \<in> set ?us" "U_ID (?new v) = i"
      using ids(1) v by (auto simp: comp_def if_distrib cong: if_cong)
    from row_read_back [OF _ this kept, of d1 n xs m] upd Inr
    have reread: "case QueryRow E (Select user_columns ''users'' [(''id'', Eq)] None) [VInt i] d1 of
        Inl _ \<Rightarrow> \<not> avail d1 | Inr row \<Rightarrow> \<exists>cells q. row = Some cells \<and> scan_user cells = Inr q \<and> parse_user [] q = Inr (?new v)"
      by simp
    show ?thesis
    proof (cases "RowsAffected res")
      case (Inl msg)
      with upd Inr c x show ?thesis by (auto simp: sq_UpdateUser_def Let_def)
    next
      case rows: (Inr k)
      with upd Inr have "k \<noteq> 0" using \<open>int (length (filter (\<lambda>u. U_ID u = i) us)) \<noteq> 0\<close> by simp
      show ?thesis
      proof (cases "QueryRow E (Select user_columns ''users'' [(''id'', Eq)] None) [VInt i] d1")
        case (Inl msg)
        with reread upd c x rows \<open>z = Inr res\<close> \<open>k \<noteq> 0\<close> show ?thesis by (auto simp: sq_UpdateUser_def Let_def)
      next
        case (Inr row)
        with reread obtain cells q where "row = Some cells" "scan_user cells = Inr q" "parse_user [] q = Inr (?new v)"
          by auto
        with c x rows Inr \<open>z = Inr res\<close> \<open>k \<noteq> 0\<close> have "y = Inr (?new v)" "d' = d1"
          by (simp_all add: sq_UpdateUser_def Let_def)
        with upd v \<open>z = Inr res\<close> show ?thesis unfolding us by auto
      qed
    qed
  qed
qed

end

end
