(* ===== verification/Sqlite_Contract.thy ===== *)
theory Sqlite_Contract
  imports Sqlite_Writes
begin

text \<open>
  \<open>sqlite_ops\<close> keeps the contract \<open>store\<close> over any driver that keeps the laws of \<open>sql_engine\<close>, with times at a
  resolution of one second. Each lemma is one law, on the maps \<open>sq_users\<close> and \<open>sq_sessions\<close>.
\<close>

context sql_engine begin

lemma sq_invE:
  assumes "sq_inv tables room l d"
  obtains us n xs m where "holds_rows (tables d) us n xs m" "rows_wf us n xs m"
    "sq_users tables d = by_id U_ID us" "sq_sessions tables d = by_id S_ID xs"
    "distinct (map U_ID us)" "distinct (map U_Username us)" "distinct (map S_ID xs)" "distinct (map S_Token xs)"
    "ran (sq_users tables d) = set us" "ran (sq_sessions tables d) = set xs" "room l d"
proof -
  from assms obtain us n xs m where h: "holds_rows (tables d) us n xs m" "rows_wf us n xs m" and "room l d"
    by (auto simp: sq_inv_def sq_wf_def)
  with rows_wfD [OF h(2)] that [OF h] sq_view [where tables = tables and d = d, OF h] show thesis by (simp add: ran_by_id)
qed

lemma sq_invI:
  assumes "holds_rows (tables d) us n xs m" "rows_wf us n xs m"
  shows "room l d \<Longrightarrow> sq_inv tables room l d" "sq_users tables d = by_id U_ID us" "sq_sessions tables d = by_id S_ID xs"
  using assms sq_view [where tables = tables and d = d, OF assms] by (auto simp: sq_inv_def sq_wf_def)

lemma sq_create_user_ok:
  assumes "sq_inv tables room (Suc l) d" "std_year (se_now e)" "sq_CreateUser E e a h r d = (Inr u, d')"
  shows "sq_inv tables room l d' \<and> sq_users tables d (U_ID u) = None \<and> (\<forall>v \<in> ran (sq_users tables d). U_Username v \<noteq> a)
    \<and> u = \<lparr>U_ID = U_ID u, U_Username = a, U_PasswordHash = h, U_Role = r, U_CreatedAt = se_now e, U_UpdatedAt = se_now e\<rparr>
    \<and> sq_users tables d' = (sq_users tables d)(U_ID u \<mapsto> stored_user trunc_sec u)
    \<and> sq_sessions tables d' = sq_sessions tables d"
proof -
  from assms(1) obtain us n xs m where d: "holds_rows (tables d) us n xs m" "rows_wf us n xs m"
    "sq_users tables d = by_id U_ID us" "sq_sessions tables d = by_id S_ID xs"
    "distinct (map U_ID us)" "ran (sq_users tables d) = set us" by (rule sq_invE)
  from sq_CreateUser_spec [OF d(1,2) assms(3), unfolded sum.case] have u: "n < U_ID u" "U_ID u \<le> max_rowid"
      "u = \<lparr>U_ID = U_ID u, U_Username = a, U_PasswordHash = h, U_Role = r, U_CreatedAt = se_now e, U_UpdatedAt = se_now e\<rparr>"
      "a \<notin> U_Username ` set us" "holds_rows (tables d') (us @ [stored_user trunc_sec u]) (U_ID u) xs m"
    by - (elim conjE, assumption)+
  have new: "U_ID u \<notin> U_ID ` set us" using rows_wfD(4) [OF d(2)] u(1) by force
  have at: "U_Username u = a" "U_CreatedAt u = se_now e" "U_UpdatedAt u = se_now e" by (subst u(3), simp)+
  then have "rows_wf (us @ [stored_user trunc_sec u]) (U_ID u) xs m"
    using u(4) assms(2) by (intro rows_wf_add_user [OF d(2) u(1,2)] kept_stored) simp_all
  moreover have "room l d'"
    using sq_room(1) [of l d e a h r] assms(1,3) by (simp add: sq_inv_def)
  ultimately show ?thesis using sq_invI [OF u(5)] u(3,4) d(3-6) new
    by (auto simp: by_id_None by_id_snoc)
qed

lemma sq_create_user_err:
  assumes "sq_inv tables room l d" "avail d" "sq_CreateUser E e a h r d = (Inl msg, d')"
  shows "sq_inv tables room l d' \<and> sq_users tables d' = sq_users tables d \<and> sq_sessions tables d' = sq_sessions tables d
    \<and> (\<exists>v \<in> ran (sq_users tables d). U_Username v = a) \<and> Contains msg ''already exists''"
proof -
  from assms(1) obtain us n xs m where d: "holds_rows (tables d) us n xs m" "rows_wf us n xs m"
    "ran (sq_users tables d) = set us" by (rule sq_invE)
  from sq_CreateUser_spec [OF d(1,2) assms(3), where l = l] assms(1,2)
  have "room l d'" "tables d' = tables d" "a \<in> U_Username ` set us" "Contains msg ''already exists''"
    by (simp_all add: sq_inv_def)
  with assms(1) d(3) show ?thesis by (auto simp: sq_inv_def sq_wf_def sq_users_def sq_sessions_def)
qed

lemma sq_update_user_ok:
  assumes "sq_inv tables room l d" "std_year (se_now e)" "sq_UpdateUser E e i a h r d = (Inr u, d')"
  shows "(\<exists>v. sq_users tables d i = Some v
        \<and> u = v\<lparr>U_Username := a, U_PasswordHash := h, U_Role := r, U_UpdatedAt := trunc_sec (se_now e)\<rparr>)
    \<and> (\<forall>j w. sq_users tables d j = Some w \<longrightarrow> U_Username w = a \<longrightarrow> j = i)
    \<and> sq_inv tables room l d' \<and> sq_users tables d' = (sq_users tables d)(i \<mapsto> u)
    \<and> sq_sessions tables d' = sq_sessions tables d"
proof -
  from assms(1) obtain us n xs m where d: "holds_rows (tables d) us n xs m" "rows_wf us n xs m"
    "sq_users tables d = by_id U_ID us" "sq_sessions tables d = by_id S_ID xs"
    "distinct (map U_ID us)" "distinct (map U_Username us)" by (rule sq_invE)
  let ?us = "map (\<lambda>w. if U_ID w = i then u else w) us"
  from sq_UpdateUser_spec [OF d(1,2) assms(2,3)] obtain v where v: "v \<in> set us" "U_ID v = i"
      "u = v\<lparr>U_Username := a, U_PasswordHash := h, U_Role := r, U_UpdatedAt := trunc_sec (se_now e)\<rparr>"
    and free: "\<forall>w \<in> set us. U_Username w = a \<longrightarrow> U_ID w = i"
    and h: "holds_rows (tables d') ?us n xs m"
    by auto
  have ids: "map U_ID ?us = map U_ID us" using v by simp
  have names: "distinct (map U_Username ?us)"
    using distinct_renamed [OF d(5,6) v(1,2), of u a] free v(3) by simp
  have "kept_user u" using rows_wfD(3) [OF d(2)] v(1,3) assms(2) by (simp add: list_all_iff kept_user_def kept_trunc)
  then have "rows_wf ?us n xs m"
    using d(2) names unfolding rows_wf_def ids by (auto simp: list_all_iff)
  moreover have "room l d'" using sq_room(3) [of l d e i a h r] assms(1,3) by (simp add: sq_inv_def)
  ultimately show ?thesis using sq_invI [OF h] d(3-6) v free
    by (auto simp: by_id_iff by_id_update)
qed

lemma sq_update_user_err:
  assumes "sq_inv tables room l d" "avail d" "sq_UpdateUser E e i a h r d = (Inl msg, d')" "std_year (se_now e)"
  shows "sq_inv tables room l d' \<and> sq_users tables d' = sq_users tables d \<and> sq_sessions tables d' = sq_sessions tables d
    \<and> (sq_users tables d i \<noteq> None \<longrightarrow> Contains msg ''already taken''
        \<and> (\<exists>j w. sq_users tables d j = Some w \<and> U_Username w = a \<and> j \<noteq> i))"
proof -
  from assms(1) obtain us n xs m where d: "holds_rows (tables d) us n xs m" "rows_wf us n xs m"
    "sq_users tables d = by_id U_ID us" "sq_sessions tables d = by_id S_ID xs" "distinct (map U_ID us)" by (rule sq_invE)
  have room: "room l d" "room l d'"
    using sq_room(3) [of l d e i a h r] assms(1,3) by (simp_all add: sq_inv_def)
  with sq_UpdateUser_spec [OF d(1,2) assms(4,3), where l = l] assms(2)
  have h: "holds_rows (tables d') us n xs m" and why: "i \<notin> U_ID ` set us
        \<or> (\<exists>w \<in> set us. U_Username w = a \<and> U_ID w \<noteq> i) \<and> Contains msg ''already taken''"
    by simp_all
  from why have "i \<in> U_ID ` set us \<longrightarrow> (\<exists>j w. w \<in> set us \<and> U_ID w = j \<and> U_Username w = a \<and> j \<noteq> i)
      \<and> Contains msg ''already taken''"
    by auto
  with sq_invI [OF h d(2)] room(2) d(3,4) show ?thesis by (simp add: by_id_None by_id_iff [OF d(5)])
qed

lemma sq_create_session_ok:
  assumes "sq_inv tables room (Suc l) d" "std_year (se_now e)" "std_year (se_now e + ttl)"
    and "sq_CreateSession E e uid a r ttl d = (Inr x, d')"
  shows "sq_inv tables room l d' \<and> sq_sessions tables d (S_ID x) = None
    \<and> (\<exists>b. se_rand e = Inr b
      \<and> x = \<lparr>S_ID = S_ID x, S_UserID = uid, S_Username = a, S_Role = r, S_Token = EncodeToString b,
              S_CreatedAt = se_now e, S_ExpiresAt = se_now e + ttl\<rparr>)
    \<and> sq_sessions tables d' = (sq_sessions tables d)(S_ID x \<mapsto> stored_session trunc_sec x)
    \<and> sq_users tables d' = sq_users tables d"
proof -
  from assms(1) obtain us n xs m where d: "holds_rows (tables d) us n xs m" "rows_wf us n xs m"
    "sq_users tables d = by_id U_ID us" "sq_sessions tables d = by_id S_ID xs" "distinct (map S_ID xs)" by (rule sq_invE)
  from sq_CreateSession_spec [OF d(1,2) assms(4), unfolded sum.case] obtain b where i: "m < S_ID x" "S_ID x \<le> max_rowid"
      and b: "se_rand e = Inr b"
      and x: "x = \<lparr>S_ID = S_ID x, S_UserID = uid, S_Username = a, S_Role = r, S_Token = EncodeToString b,
              S_CreatedAt = se_now e, S_ExpiresAt = se_now e + ttl\<rparr>"
      and k: "EncodeToString b \<notin> S_Token ` set xs"
      and h: "holds_rows (tables d') us n (xs @ [stored_session trunc_sec x]) (S_ID x)"
    by (elim exE conjE)
  have new: "S_ID x \<notin> S_ID ` set xs" using rows_wfD(10) [OF d(2)] i(1) by force
  have at: "S_Token x = EncodeToString b" "S_CreatedAt x = se_now e" "S_ExpiresAt x = se_now e + ttl" by (subst x, simp)+
  then have "rows_wf us n (xs @ [stored_session trunc_sec x]) (S_ID x)"
    using k assms(2,3) by (intro rows_wf_add_session [OF d(2) i] kept_stored) simp_all
  moreover have "room l d'"
    using sq_room(2) [of l d e uid a r ttl] assms(1,4) by (simp add: sq_inv_def)
  ultimately show ?thesis using sq_invI [OF h] x b d(3-5) new by (auto simp: by_id_None by_id_snoc)
qed

lemma sq_create_session_err:
  assumes "sq_inv tables room l d" "avail d" "sq_CreateSession E e uid a r ttl d = (Inl msg, d')"
  shows "sq_inv tables room l d' \<and> sq_sessions tables d' = sq_sessions tables d \<and> sq_users tables d' = sq_users tables d
    \<and> (\<forall>b. se_rand e = Inr b \<longrightarrow> (\<exists>y \<in> ran (sq_sessions tables d). S_Token y = EncodeToString b))"
proof -
  from assms(1) obtain us n xs m where d: "holds_rows (tables d) us n xs m" "rows_wf us n xs m"
    "ran (sq_sessions tables d) = set xs" by (rule sq_invE)
  from sq_CreateSession_spec [OF d(1,2) assms(3), where l = l] assms(1,2)
  have same: "tables d' = tables d" "\<forall>b. se_rand e = Inr b \<longrightarrow> EncodeToString b \<in> S_Token ` set xs" "room l d'"
    by (simp_all add: sq_inv_def)
  then have "\<forall>b. se_rand e = Inr b \<longrightarrow> (\<exists>y \<in> ran (sq_sessions tables d). S_Token y = EncodeToString b)"
    unfolding d(3) by fastforce
  with assms(1) same(1,3) show ?thesis by (simp add: sq_inv_def sq_wf_def sq_users_def sq_sessions_def)
qed

text \<open>Deleting rows deletes entries.\<close>

lemma sq_filtered:
  assumes "holds_rows (tables d) us n xs m" "rows_wf us n xs m" "holds_rows (tables d') (filter P us) n (filter Q xs) m" "room l d'"
  shows "sq_inv tables room l d'"
    "sq_users tables d' = (\<lambda>i. case sq_users tables d i of None \<Rightarrow> None | Some u \<Rightarrow> if P u then Some u else None)"
    "sq_sessions tables d' = (\<lambda>i. case sq_sessions tables d i of None \<Rightarrow> None | Some x \<Rightarrow> if Q x then Some x else None)"
proof -
  note ids = rows_wfD(1,7) [OF assms(2)]
  note new = sq_invI [OF assms(3) rows_wf_filter(1) [OF rows_wf_filter(2) [OF assms(2)]]]
  show "sq_inv tables room l d'"
    "sq_users tables d' = (\<lambda>i. case sq_users tables d i of None \<Rightarrow> None | Some u \<Rightarrow> if P u then Some u else None)"
    "sq_sessions tables d' = (\<lambda>i. case sq_sessions tables d i of None \<Rightarrow> None | Some x \<Rightarrow> if Q x then Some x else None)"
    using new assms(4) sq_invI(2,3) [OF assms(1,2)] by (simp_all add: by_id_filter ids)
qed

lemma sq_filtered_sessions:
  assumes "holds_rows (tables d) us n xs m" "rows_wf us n xs m" "holds_rows (tables d') us n (filter (\<lambda>x. \<not> Q x) xs) m" "room l d'"
  shows "sq_inv tables room l d'" "sq_users tables d' = sq_users tables d"
    "sq_sessions tables d' = (\<lambda>i. case sq_sessions tables d i of None \<Rightarrow> None | Some x \<Rightarrow> if Q x then None else Some x)"
  using sq_filtered [OF assms(1,2), of d' "\<lambda>_. True" "\<lambda>x. \<not> Q x" l] assms(3,4)
  by (auto simp: option.case_eq_if fun_eq_iff)

lemma removed: "(\<And>a. m i = Some a \<Longrightarrow> f a = i) \<Longrightarrow> (\<And>j a. m j = Some a \<Longrightarrow> f a = j) \<Longrightarrow>
    (\<lambda>j. case m j of None \<Rightarrow> None | Some a \<Rightarrow> if f a \<noteq> i then Some a else None) = m(i := None)
    \<and> (\<lambda>j. case m j of None \<Rightarrow> None | Some a \<Rightarrow> if f a = i then None else Some a) = m(i := None)"
  by (intro conjI ext) (auto split: option.splits)

lemma sq_delete_user_ok:
  assumes "sq_inv tables room l d" "sq_DeleteUser E i d = (Inr y, d')"
  shows "sq_users tables d i \<noteq> None \<and> sq_inv tables room l d' \<and> sq_users tables d' = (sq_users tables d)(i := None)
    \<and> sq_sessions tables d' = sq_sessions tables d"
proof -
  from assms(1) obtain us n xs m where d: "holds_rows (tables d) us n xs m" "rows_wf us n xs m"
    "sq_users tables d = by_id U_ID us" "distinct (map U_ID us)" by (rule sq_invE)
  from sq_DeleteUser_spec [OF d(1) assms(2)] have i: "i \<in> U_ID ` set us"
      and h: "holds_rows (tables d') (filter (\<lambda>u. U_ID u \<noteq> i) us) n (filter (\<lambda>_. True) xs) m" by simp_all
  have f: "(\<lambda>j. case sq_users tables d j of None \<Rightarrow> None | Some u \<Rightarrow> if U_ID u \<noteq> i then Some u else None)
      = (sq_users tables d)(i := None)"
    by (rule conjunct1 [OF removed]) (auto simp: d(3) by_id_iff [OF d(4)])
  have "room l d'" using sq_room(4) [of l d i] assms by (simp add: sq_inv_def)
  from sq_filtered [OF d(1,2) h this] i d(3) show ?thesis unfolding f
    by (simp add: by_id_None option.case_eq_if fun_eq_iff)
qed

lemma sq_delete_session_ok:
  assumes "sq_inv tables room l d" "sq_DeleteSession E i d = (Inr y, d')"
  shows "sq_sessions tables d i \<noteq> None \<and> sq_inv tables room l d' \<and> sq_sessions tables d' = (sq_sessions tables d)(i := None)
    \<and> sq_users tables d' = sq_users tables d"
proof -
  from assms(1) obtain us n xs m where d: "holds_rows (tables d) us n xs m" "rows_wf us n xs m"
    "sq_sessions tables d = by_id S_ID xs" "distinct (map S_ID xs)" by (rule sq_invE)
  from sq_DeleteSession_spec [OF d(1) assms(2)] have i: "i \<in> S_ID ` set xs"
      and h: "holds_rows (tables d') us n (filter (\<lambda>x. \<not> S_ID x = i) xs) m" by simp_all
  have f: "(\<lambda>j. case sq_sessions tables d j of None \<Rightarrow> None | Some x \<Rightarrow> if S_ID x = i then None else Some x)
      = (sq_sessions tables d)(i := None)"
    by (rule conjunct2 [OF removed]) (auto simp: d(3) by_id_iff [OF d(4)])
  have "room l d'" using sq_room(5) [of l d i] assms by (simp add: sq_inv_def)
  from sq_filtered_sessions [OF d(1,2) h this] i d(3) show ?thesis unfolding f by (simp add: by_id_None)
qed

lemma sq_delete_by_user_ok:
  assumes "sq_inv tables room l d" "sq_DeleteSessionsByUserID E e uid t d = (Inr y, d')"
  shows "sq_inv tables room l d' \<and> sq_users tables d' = sq_users tables d
    \<and> sq_sessions tables d' = (\<lambda>i. case sq_sessions tables d i of None \<Rightarrow> None
        | Some x \<Rightarrow> if S_UserID x = uid \<and> S_Token x \<noteq> t then None else Some x)"
proof -
  from assms(1) obtain us n xs m where d: "holds_rows (tables d) us n xs m" "rows_wf us n xs m" by (rule sq_invE)
  from sq_DeleteSessionsByUserID_spec [OF d(1) assms(2)]
  have "holds_rows (tables d') us n (filter (\<lambda>x. \<not> (S_UserID x = uid \<and> S_Token x \<noteq> t)) xs) m" by simp
  moreover have "room l d'" using sq_room(6) [of l d e uid t] assms by (simp add: sq_inv_def)
  ultimately show ?thesis using sq_filtered_sessions [OF d] by (intro conjI)
qed

lemma sq_delete_expired_ok:
  assumes "sq_inv tables room l d" "std_year (se_now e)" "sq_DeleteExpiredSessions E e d = (Inr k, d')"
  shows "sq_inv tables room l d' \<and> sq_users tables d' = sq_users tables d
    \<and> sq_sessions tables d' = (\<lambda>i. case sq_sessions tables d i of None \<Rightarrow> None
        | Some x \<Rightarrow> if S_ExpiresAt x < trunc_sec (se_now e) then None else Some x)
    \<and> k = int (card {i. \<exists>x. sq_sessions tables d i = Some x \<and> S_ExpiresAt x < trunc_sec (se_now e)})"
proof -
  let ?P = "\<lambda>x. S_ExpiresAt x < trunc_sec (se_now e)"
  from assms(1) obtain us n xs m where d: "holds_rows (tables d) us n xs m" "rows_wf us n xs m"
    "sq_sessions tables d = by_id S_ID xs" "distinct (map S_ID xs)" by (rule sq_invE)
  from sq_DeleteExpiredSessions_spec [OF d(1) rows_wfD(9) [OF d(2)] assms(2,3)]
  have h: "holds_rows (tables d') us n (filter (\<lambda>x. \<not> ?P x) xs) m" and k: "k = int (length (filter ?P xs))" by simp_all
  have "{i. \<exists>x. sq_sessions tables d i = Some x \<and> ?P x} = S_ID ` set (filter ?P xs)"
    by (auto simp: d(3) by_id_iff [OF d(4)])
  moreover have "card (S_ID ` set (filter ?P xs)) = length (filter ?P xs)"
    using distinct_card [of "map S_ID (filter ?P xs)"] distinct_map_filterI [OF d(4), of ?P] by simp
  moreover have "room l d'" using sq_room(7) [of l d e] assms by (simp add: sq_inv_def)
  ultimately show ?thesis using sq_filtered_sessions [OF d(1,2) h] k by simp
qed

lemma sq_get_user:
  assumes "sq_inv tables room l d"
  shows "case sq_GetUser E i d of Inr u \<Rightarrow> sq_users tables d i = Some u
    | Inl msg \<Rightarrow> avail d \<longrightarrow> sq_users tables d i = None \<and> Contains msg ''not found''"
proof -
  from assms obtain us n xs m where d: "holds_rows (tables d) us n xs m" "rows_wf us n xs m"
    "sq_users tables d = by_id U_ID us" "distinct (map U_ID us)" by (rule sq_invE)
  from sq_GetUser_spec [OF d(1) d(2), where i = i] show ?thesis
    by (auto simp: d(3) by_id_iff [OF d(4)] by_id_None split: sum.splits)
qed

lemma sq_get_by_name:
  assumes "sq_inv tables room l d"
  shows "case sq_GetUserByUsername E e a d of Inr u \<Rightarrow> sq_users tables d (U_ID u) = Some u \<and> U_Username u = a
    | Inl msg \<Rightarrow> avail d \<longrightarrow> (\<forall>i u. sq_users tables d i = Some u \<longrightarrow> U_Username u \<noteq> a)"
proof -
  from assms obtain us n xs m where d: "holds_rows (tables d) us n xs m" "rows_wf us n xs m"
    "sq_users tables d = by_id U_ID us" "distinct (map U_ID us)" by (rule sq_invE)
  from sq_GetUserByUsername_spec [OF d(1) d(2), where e = e and a = a] show ?thesis
    by (auto simp: d(3) by_id_iff [OF d(4)] split: sum.splits)
qed

lemma sq_get_session:
  assumes "sq_inv tables room l d"
  shows "case sq_GetSessionByID E i d of Inr x \<Rightarrow> sq_sessions tables d i = Some x
    | Inl msg \<Rightarrow> avail d \<longrightarrow> sq_sessions tables d i = None"
proof -
  from assms obtain us n xs m where d: "holds_rows (tables d) us n xs m" "rows_wf us n xs m"
    "sq_sessions tables d = by_id S_ID xs" "distinct (map S_ID xs)" by (rule sq_invE)
  from sq_GetSessionByID_spec [OF d(1) d(2), where i = i] show ?thesis
    by (auto simp: d(3) by_id_iff [OF d(4)] by_id_None split: sum.splits)
qed

lemma sq_get_by_token:
  assumes "sq_inv tables room l d"
  shows "case sq_GetSessionByToken E e t d of Inr x \<Rightarrow> sq_sessions tables d (S_ID x) = Some x \<and> S_Token x = t
    | Inl msg \<Rightarrow> avail d \<longrightarrow> (\<forall>i x. sq_sessions tables d i = Some x \<longrightarrow> S_Token x \<noteq> t)"
proof -
  from assms obtain us n xs m where d: "holds_rows (tables d) us n xs m" "rows_wf us n xs m"
    "sq_sessions tables d = by_id S_ID xs" "distinct (map S_ID xs)" by (rule sq_invE)
  from sq_GetSessionByToken_spec [OF d(1) d(2), where e = e and t = t] show ?thesis
    by (auto simp: d(3) by_id_iff [OF d(4)] split: sum.splits)
qed

lemma sq_list_users:
  assumes "sq_inv tables room l d"
  shows "case sq_ListUsers E e r d of
      Inr vs \<Rightarrow> distinct vs \<and> set vs = {u \<in> ran (sq_users tables d). r = [] \<or> U_Role u = r}
    | Inl msg \<Rightarrow> \<not> avail d"
proof -
  from assms obtain us n xs m where d: "holds_rows (tables d) us n xs m" "rows_wf us n xs m"
    "ran (sq_users tables d) = set us" "distinct (map U_ID us)" by (rule sq_invE)
  have "distinct us" using d(4) by (simp add: distinct_map)
  then have "mset vs = mset (filter P us) \<Longrightarrow> distinct vs \<and> set vs = {u \<in> set us. P u}" for vs P
    by (metis distinct_filter mset_eq_imp_distinct_iff mset_eq_setD set_filter)
  with sq_ListUsers_spec [OF d(1) d(2), where e = e and r = r] show ?thesis unfolding d(3) by (auto split: sum.splits)
qed

lemma sq_list_sessions:
  assumes "sq_inv tables room l d" "std_year (se_now e)"
  shows "case sq_ListSessionsByUserID E e uid d of
      Inr ys \<Rightarrow> distinct ys \<and> sorted_wrt (\<lambda>x y. S_CreatedAt y \<le> S_CreatedAt x) ys
        \<and> set ys = {x \<in> ran (sq_sessions tables d). S_UserID x = uid \<and> trunc_sec (se_now e) < S_ExpiresAt x}
    | Inl msg \<Rightarrow> \<not> avail d"
proof -
  from assms obtain us n xs m where d: "holds_rows (tables d) us n xs m" "rows_wf us n xs m"
    "ran (sq_sessions tables d) = set xs" "distinct (map S_ID xs)" by - (rule sq_invE)
  have "distinct xs" using d(4) by (simp add: distinct_map)
  then have "mset ys = mset (filter P xs) \<Longrightarrow> distinct ys \<and> set ys = {x \<in> set xs. P x}" for ys P
    by (metis distinct_filter mset_eq_imp_distinct_iff mset_eq_setD set_filter)
  with sq_ListSessions_spec [OF d(1) d(2) assms(2), where uid = uid] show ?thesis unfolding d(3) by (auto split: sum.splits)
qed

lemma sq_delete_errs:
  assumes "sq_inv tables room l d" "avail d"
  shows "sq_DeleteUser E i d = (Inl msg, d') \<Longrightarrow> sq_users tables d i = None \<and> Contains msg ''not found''
      \<and> sq_inv tables room l d' \<and> sq_users tables d' = sq_users tables d \<and> sq_sessions tables d' = sq_sessions tables d"
    and "sq_DeleteSession E i d = (Inl msg, d') \<Longrightarrow> sq_sessions tables d i = None
      \<and> sq_inv tables room l d' \<and> sq_sessions tables d' = sq_sessions tables d \<and> sq_users tables d' = sq_users tables d"
    and "\<exists>y. fst (sq_DeleteSessionsByUserID E e uid t d) = Inr y"
proof -
  from assms(1) obtain us n xs m where d: "holds_rows (tables d) us n xs m" "rows_wf us n xs m"
    "sq_users tables d = by_id U_ID us" "sq_sessions tables d = by_id S_ID xs" by (rule sq_invE)
  have room: "room l d" using assms(1) by (simp add: sq_inv_def)
  show "sq_users tables d i = None \<and> Contains msg ''not found''
      \<and> sq_inv tables room l d' \<and> sq_users tables d' = sq_users tables d \<and> sq_sessions tables d' = sq_sessions tables d"
    if "sq_DeleteUser E i d = (Inl msg, d')"
    using sq_DeleteUser_spec [OF d(1) that, where l = l] room sq_room(4) [of l d i] that assms(2) sq_invI [OF _ d(2), of d'] d(3,4) by (auto simp: by_id_None)
  show "sq_sessions tables d i = None
      \<and> sq_inv tables room l d' \<and> sq_sessions tables d' = sq_sessions tables d \<and> sq_users tables d' = sq_users tables d"
    if "sq_DeleteSession E i d = (Inl msg, d')"
    using sq_DeleteSession_spec [OF d(1) that, where l = l] room sq_room(5) [of l d i] that assms(2) sq_invI [OF _ d(2), of d'] d(3,4) by (auto simp: by_id_None)
  obtain y d1 where "sq_DeleteSessionsByUserID E e uid t d = (y, d1)" by (cases "sq_DeleteSessionsByUserID E e uid t d")
  with sq_DeleteSessionsByUserID_spec [OF d(1) this, where l = l] room assms(2)
  show "\<exists>y. fst (sq_DeleteSessionsByUserID E e uid t d) = Inr y" by (cases y) auto
qed

lemma sq_total:
  assumes "sq_inv tables room l d" "avail d"
  shows "(\<forall>v \<in> ran (sq_users tables d). U_Username v \<noteq> a) \<Longrightarrow> \<exists>u. fst (sq_CreateUser E e a h r d) = Inr u"
    and "v \<in> ran (sq_users tables d) \<Longrightarrow> U_Username v = a \<Longrightarrow> \<exists>u. fst (sq_CreateUser E e a h r d) = Inl u
      \<and> Contains u ''already exists''"
    and "se_rand e = Inr b \<Longrightarrow> (\<forall>y \<in> ran (sq_sessions tables d). S_Token y \<noteq> EncodeToString b) \<Longrightarrow>
      \<exists>x. fst (sq_CreateSession E e uid a r ttl d) = Inr x"
proof -
  obtain y d1 where c: "sq_CreateUser E e a h r d = (y, d1)" by (cases "sq_CreateUser E e a h r d")
  show "\<exists>u. fst (sq_CreateUser E e a h r d) = Inr u" if "\<forall>v \<in> ran (sq_users tables d). U_Username v \<noteq> a"
    using sq_create_user_err [OF assms, of e a h r _ d1] that c by (cases y) auto
  show "\<exists>u. fst (sq_CreateUser E e a h r d) = Inl u \<and> Contains u ''already exists''"
    if "v \<in> ran (sq_users tables d)" "U_Username v = a"
  proof (cases y)
    case (Inl m)
    with sq_create_user_err [OF assms, of e a h r m d1] c show ?thesis by simp
  next
    case (Inr u)
    from assms(1) obtain us n xs m where d: "holds_rows (tables d) us n xs m" "rows_wf us n xs m"
      "ran (sq_users tables d) = set us" by (rule sq_invE)
    from sq_CreateUser_spec [OF d(1,2) c] Inr that d(3) show ?thesis by auto
  qed
  obtain z d2 where s: "sq_CreateSession E e uid a r ttl d = (z, d2)" by (cases "sq_CreateSession E e uid a r ttl d")
  show "\<exists>x. fst (sq_CreateSession E e uid a r ttl d) = Inr x"
    if "se_rand e = Inr b" "\<forall>y \<in> ran (sq_sessions tables d). S_Token y \<noteq> EncodeToString b"
    using sq_create_session_err [OF assms, of e uid a r ttl _ d2] that s by (cases z) auto
qed

lemma sq_update_total:
  assumes "sq_inv tables room l d" "avail d" "std_year (se_now e)" "sq_users tables d i \<noteq> None"
  shows "(\<forall>j w. sq_users tables d j = Some w \<longrightarrow> U_Username w = a \<longrightarrow> j = i) \<Longrightarrow>
      \<exists>u. fst (sq_UpdateUser E e i a h r d) = Inr u"
    and "sq_users tables d j = Some w \<Longrightarrow> U_Username w = a \<Longrightarrow> j \<noteq> i \<Longrightarrow>
      \<exists>m. fst (sq_UpdateUser E e i a h r d) = Inl m \<and> Contains m ''already taken''"
proof -
  obtain y d1 where c: "sq_UpdateUser E e i a h r d = (y, d1)" by (cases "sq_UpdateUser E e i a h r d")
  show "\<exists>u. fst (sq_UpdateUser E e i a h r d) = Inr u"
    if "\<forall>j w. sq_users tables d j = Some w \<longrightarrow> U_Username w = a \<longrightarrow> j = i"
    using sq_update_user_err [OF assms(1,2) _ assms(3), of i a h r _ d1] c assms(4) that by (cases y) auto
  show "\<exists>m. fst (sq_UpdateUser E e i a h r d) = Inl m \<and> Contains m ''already taken''"
    if "sq_users tables d j = Some w" "U_Username w = a" "j \<noteq> i"
    using sq_update_user_err [OF assms(1,2) _ assms(3), of i a h r _ d1]
      sq_update_user_ok [OF assms(1,3), of i a h r _ d1] c assms(4) that by (cases y) auto
qed

end

sublocale sql_engine \<subseteq> sq: store "sqlite_ops E" "sq_inv tables room" avail std_year trunc_sec "sq_users tables" "sq_sessions tables"
proof (unfold_locales, unfold sqlite_ops_def store_ops.select_convs, goal_cases)
  case (1 l d) then show ?case unfolding sq_inv_def using room_less by blast
next
  case (2 l d i u)
  from 2(1) show ?case by (rule sq_invE) (use 2(2) in \<open>auto simp: by_id_iff dest: rows_wfD\<close>)
next
  case (3 l d i u j v)
  from 3(1) show ?case by (rule sq_invE) (use 3(2-4) in \<open>auto simp: by_id_iff distinct_map inj_on_def\<close>)
next
  case (4 l d i x)
  from 4(1) show ?case by (rule sq_invE) (use 4(2) in \<open>auto simp: by_id_iff dest: rows_wfD\<close>)
next
  case 5 then show ?case by (rule sq_create_user_ok)
next
  case 6 from sq_create_user_err [OF this] show ?case by (elim conjE) (intro conjI)
next
  case 7 then show ?case by (rule sq_total(2))
next
  case 8 then show ?case by (rule sq_total(1))
next
  case (9 l d i u) from sq_get_user [OF 9(1), where i = i] 9(2) show ?case by simp
next
  case (10 l d i u) from sq_get_user [OF 10(1), where i = i] 10(2,3) show ?case by (auto split: sum.splits)
next
  case (11 l d i) from sq_get_user [OF 11(1), where i = i] 11(2,3) show ?case by (auto split: sum.splits)
next
  case (12 l d e n u) from sq_get_by_name [OF 12(1), where e = e and a = n] 12(2) show ?case by simp
next
  case (13 l d i u n e)
  from 13(1) obtain us n' xs m where d: "sq_users tables d = by_id U_ID us" "distinct (map U_ID us)"
    "distinct (map U_Username us)" by (rule sq_invE)
  from sq_get_by_name [OF 13(1), where e = e and a = n] 13(2-4) show ?case
    by (auto simp: d(1) by_id_iff [OF d(2)] inj_on_eq_iff [OF d(3) [unfolded distinct_map, THEN conjunct2]] split: sum.splits)
next
  case (14 l d e r us) from sq_list_users [OF 14(1), where e = e and r = r] 14(2) show ?case by simp
next
  case (15 l d e r) from sq_list_users [OF 15(1), where e = e and r = r] 15(2) show ?case by (auto split: sum.splits)
next
  case 16 then show ?case by (rule sq_update_user_ok)
next
  case (17 l d e i n h r m d') from sq_update_user_err [OF 17(1,2,4,3)] show ?case by (elim conjE) (intro conjI)
next
  case 18 then show ?case by (rule sq_update_total(2))
next
  case 19 then show ?case by (rule sq_update_total(1))
next
  case 20 then show ?case by (rule sq_delete_user_ok)
next
  case 21 then show ?case by (rule sq_delete_errs(1))
next
  case 22 then show ?case by (rule sq_create_session_ok)
next
  case 23 from sq_create_session_err [OF this] show ?case by (elim conjE) (intro conjI)
next
  case 24 then show ?case by (intro sq_total(3))
next
  case (25 l d i x) from sq_get_session [OF 25(1), where i = i] 25(2) show ?case by simp
next
  case (26 l d i x) from sq_get_session [OF 26(1), where i = i] 26(2,3) show ?case by (auto split: sum.splits)
next
  case (27 l d e t x) from sq_get_by_token [OF 27(1), where e = e and t = t] 27(2) show ?case by simp
next
  case (28 l d i x t e) from sq_get_by_token [OF 28(1), where e = e and t = t] 28(2-4) show ?case by (auto split: sum.splits)
next
  case 29 then show ?case by (rule sq_delete_session_ok)
next
  case 30 then show ?case by (rule sq_delete_errs(2))
next
  case 31 then show ?case by (rule sq_delete_by_user_ok)
next
  case 32 then show ?case by (rule sq_delete_errs(3))
next
  case (33 l d e uid xs) from sq_list_sessions [OF 33(1,2), where uid = uid] 33(3) show ?case by simp
next
  case (34 l d e uid) from sq_list_sessions [OF 34(1,3), where uid = uid] 34(2) show ?case by (auto split: sum.splits)
next
  case 35 then show ?case by (rule sq_delete_expired_ok)
qed

context sql_engine begin

lemma contract: "store (sqlite_ops E) (sq_inv tables room) avail std_year trunc_sec (sq_users tables) (sq_sessions tables)"
  by (rule sq.store_axioms)

end

end
