(* ===== verification/Sqlite_Properties.thy ===== *)
theory Sqlite_Properties
  imports Samples Sqlite_Contract
begin

text \<open>
  The properties of the deployed store, \<open>SQLiteStore\<close>, over any driver that keeps the laws of \<open>sql_engine\<close>: the
  contract, opening the database file, what a row holds, and the server over this store.
\<close>

section \<open>Opening\<close>

text \<open>A file the store can open: a new one, or one with its tables.\<close>

definition openable :: "db \<Rightarrow> user list \<Rightarrow> int \<Rightarrow> session list \<Rightarrow> int \<Rightarrow> bool" where
  "openable d us n xs m \<longleftrightarrow>
     (case d ''users'' of None \<Rightarrow> us = [] \<and> n = 0 | Some t \<Rightarrow> t = users_table us n) \<and>
     (case d ''sessions'' of None \<Rightarrow> xs = [] \<and> m = 0 | Some t \<Rightarrow> t = sessions_table xs m)"

lemma openable_empty: "openable Map.empty [] 0 [] 0"
  by (simp add: openable_def)

lemma openable_rows: "holds_rows d us n xs m \<Longrightarrow> openable d us n xs m"
  by (simp add: openable_def holds_rows_def)

text \<open>The meaning of a list of statements.\<close>

fun sem_ddl :: "stmt list \<Rightarrow> db \<Rightarrow> db option" where
  "sem_ddl [] d = Some d"
| "sem_ddl (q # qs) d = (case sem_exec 0 q [] d of Some (Done _, d') \<Rightarrow> sem_ddl qs d' | _ \<Rightarrow> None)"

lemma sem_schema:
  assumes "openable d us n xs m"
  obtains d' where "sem_ddl schema d = Some d'" "holds_rows d' us n xs m"
proof -
  let ?d = "d(''users'' \<mapsto> users_table us n, ''sessions'' \<mapsto> sessions_table xs m)"
  have "sem_ddl schema d = Some ?d"
    using assms by (auto simp: openable_def schema_def users_table_def sessions_table_def fun_upd_idem_iff
      split: option.splits)
  moreover have "holds_rows ?d us n xs m" by (simp add: holds_rows_def)
  ultimately show thesis by (rule that)
qed

context sql_engine begin

lemma createTables_run:
  "sem_ddl qs (tables d) = Some db' \<Longrightarrow> \<forall>q \<in> set qs. \<not> changes_rows q \<Longrightarrow> room l d \<Longrightarrow> createTables E qs d = (z, d') \<Longrightarrow>
    case z of Inr _ \<Rightarrow> tables d' = db' \<and> (avail d \<longrightarrow> avail d') \<and> room l d' | Inl _ \<Rightarrow> \<not> avail d"
proof (induction qs arbitrary: d)
  case (Cons q qs)
  from Cons.prems(1) obtain k db1 where sem: "sem_exec 0 q [] (tables d) = Some (Done k, db1)" "sem_ddl qs db1 = Some db'"
    by (auto split: option.splits prod.splits outcome.splits)
  have q: "\<not> inserts q" "sem_exec i q [] (tables d) = Some (if True then (Done k, db1) else (UniqueViolation, tables d))" for i
    using Cons.prems(2) sem(1) by (cases q; simp)+
  obtain y d1 where x: "db_Exec E q [] d = (y, d1)" by fastforce
  have r: "case y of Inr _ \<Rightarrow> tables d1 = db1 \<and> (avail d \<longrightarrow> avail d1) \<and> room l d1 | Inl _ \<Rightarrow> \<not> avail d"
    using run_exec [OF x q(2), of l] q(1) exec_room(1) [of l d q "[]"] x Cons.prems(3) by (auto split: sum.splits)
  show ?case
  proof (cases y)
    case (Inl err)
    with r x Cons.prems(4) show ?thesis by auto
  next
    case (Inr res)
    with r x Cons.prems(2,4) Cons.IH [of d1] sem(2) show ?thesis by (auto split: sum.splits)
  qed
qed auto

lemma createTables_ok:
  assumes "openable (tables d) us n xs m" "createTables E schema d = (z, d')" "room l d"
  shows "case z of Inr _ \<Rightarrow> holds_rows (tables d') us n xs m \<and> (avail d \<longrightarrow> avail d') \<and> room l d' | Inl _ \<Rightarrow> \<not> avail d"
proof (rule sem_schema [OF assms(1)])
  fix db' assume "sem_ddl schema (tables d) = Some db'" "holds_rows db' us n xs m"
  moreover have "\<forall>q \<in> set schema. \<not> changes_rows q" by (simp add: schema_def)
  ultimately show ?thesis using createTables_run [OF _ _ assms(3,2)] by (auto split: sum.splits)
qed

lemma open_store:
  assumes "db_Open E path = Inr d" "openable (tables d) us n xs m" "rows_wf us n xs m" "room l d"
  shows "case NewSQLiteStore E path of
      Inr d' \<Rightarrow> sq_inv tables room l d' \<and> sq_users tables d' = by_id U_ID us \<and> sq_sessions tables d' = by_id S_ID xs
        \<and> (avail d \<longrightarrow> avail d')
    | Inl _ \<Rightarrow> db_Ping E d \<noteq> None \<or> \<not> avail d"
proof -
  obtain z d' where c: "createTables E schema d = (z, d')" by fastforce
  from createTables_ok [OF assms(2) c assms(4)] sq_invI [OF _ assms(3), of d'] show ?thesis
    using c assms(1) by (auto simp: NewSQLiteStore_def split: sum.splits option.splits)
qed

end

section \<open>A database for the witnesses\<close>

definition sample_db :: db where
  "sample_db = [''users'' \<mapsto> users_table [root, alice] 2, ''sessions'' \<mapsto> sessions_table [] 0]"

lemma kept_0: "kept 0"
  by (auto simp: kept_def trunc_sec_def unix_sec_def duration_units intro: std_yearI)

lemma sample_db_ok: "holds_rows sample_db [root, alice] 2 [] 0" "rows_wf [root, alice] 2 [] 0"
  by (simp_all add: sample_db_def holds_rows_def rows_wf_def ids_wf_def kept_user_def kept_0 max_rowid_def)
    (simp_all add: root_def alice_def kept_0)

lemma sample_db_room: "ref_room 5 sample_db"
  by (auto simp: ref_room_def sample_db_def ran_def users_table_def sessions_table_def max_rowid_def split: if_splits)

lemma sample_db_inv: "sq_inv (\<lambda>d. d) ref_room 5 sample_db"
  using ref.sq_invI(1) [OF sample_db_ok sample_db_room] .

lemma sample_good_env: "good_env std_year sample_env"
  by (auto simp: good_env_def sessionTTL_def duration_units unix_sec_def intro!: std_yearI)

section \<open>The contract\<close>

text \<open>C9: Over a driver that runs SQL as it is documented, \<open>SQLiteStore\<close> keeps the contract of a store: its
  methods act on the maps from IDs to users and sessions that its tables mean, IDs are fresh and names and tokens
  unique, errors are reported exactly when the contract asks for them and then nothing has changed, and times come
  back cut to whole seconds.\<close>

theorem sqlite_store_contract:
  assumes "sql_engine E tables avail room"
  shows "store (sqlite_ops E) (sq_inv tables room) avail std_year trunc_sec (sq_users tables) (sq_sessions tables)"
  by (rule sql_engine.contract [OF assms])

theorem sqlite_store_contract_witness:
  "store (sqlite_ops ref_engine) (sq_inv (\<lambda>d. d) ref_room) (\<lambda>_. True) std_year trunc_sec (sq_users (\<lambda>d. d)) (sq_sessions (\<lambda>d. d))"
  by (rule sqlite_store_contract [OF ref.sql_engine_axioms])

text \<open>C8: The deployed server, over \<open>SQLiteStore\<close>, refines the abstract service while its database file stays usable:
  every request performs one action it has the authority for, and keeps the invariant of the tables.\<close>

theorem sqlite_server_refines:
  assumes "sql_engine E tables avail room" "sq_inv tables room (Suc l) (h_store w)" "avail (h_store w)"
    and "good_env std_year R" "r_claims r = None" "w' = ServerHandler L (sqlite_ops E) R r w"
  shows "sq_inv tables room l (h_store w') \<and> (\<exists>r' a. served_as L R r r'
    \<and> permitted L r' a (sq_users tables (h_store w), sq_sessions tables (h_store w))
    \<and> (sq_users tables (h_store w'), sq_sessions tables (h_store w'))
      = perform a (sq_users tables (h_store w), sq_sessions tables (h_store w))
    \<and> (needs_admin a \<longrightarrow> audited R r r' w w'))"
  using store.server_step [OF sql_engine.contract [OF assms(1)] assms(2-5), of L] assms(6)
  unfolding store.step_ok_def [OF sql_engine.contract [OF assms(1)]] refines_def view_of_def by blast

theorem sqlite_server_refines_witness:
  "sq_inv (\<lambda>d. d) ref_room 4 (h_store (ServerHandler sample_libs (sqlite_ops ref_engine) sample_env health_request (new_world sample_db 5)))"
  using sqlite_server_refines [OF ref.sql_engine_axioms _ _ sample_good_env health_claims refl, of 4 "new_world sample_db 5" sample_libs]
    sample_db_inv by (simp add: new_world_def)

text \<open>Rows with a value of the declared type in every column, no two of which agree in a unique column.\<close>

definition well_typed :: "tbl \<Rightarrow> bool" where
  "well_typed t \<longleftrightarrow> unique_rows t (t_rows t)
     \<and> (\<forall>r \<in> set (t_rows t). \<forall>k \<in> set (t_cols t). has_type (c_type k) (cell r (c_name k)))"

lemma well_typed_tables:
  assumes "holds_rows d us n xs m" "rows_wf us n xs m"
  shows "well_typed (users_table us n)" "well_typed (sessions_table xs m)"
proof -
  have "t_rows (users_table us n) = map user_row us" "t_rows (sessions_table xs m) = map session_row xs"
    "t_cols (users_table us n) = users_columns" "t_cols (sessions_table xs m) = sessions_columns"
    by (simp_all add: users_table_def sessions_table_def)
  moreover have "\<forall>k \<in> set users_columns. has_type (c_type k) (cell (user_row u) (c_name k))" for u
    by (simp add: users_columns_def plain_column_def cell_def user_row_def)
  moreover have "\<forall>k \<in> set sessions_columns. has_type (c_type k) (cell (session_row x) (c_name k))" for x
    by (simp add: sessions_columns_def plain_column_def cell_def session_row_def)
  ultimately show "well_typed (users_table us n)" "well_typed (sessions_table xs m)"
    using assms(2) by (auto simp: well_typed_def unique_users unique_sessions rows_wf_def ids_wf_def)
qed

text \<open>The tables stay well-typed: after any request each row has a value of the declared type in every column, so
  that \<open>Scan\<close> never fails on a row, and no two rows agree in a key or a \<open>UNIQUE\<close> column.\<close>

theorem sqlite_tables_typed:
  assumes "sql_engine E tables avail room" "sq_inv tables room (Suc l) (h_store w)" "avail (h_store w)"
    and "good_env std_year R" "r_claims r = None" "w' = ServerHandler L (sqlite_ops E) R r w"
  shows "\<exists>us ss. tables (h_store w') ''users'' = Some us \<and> t_cols us = users_columns \<and> well_typed us
    \<and> tables (h_store w') ''sessions'' = Some ss \<and> t_cols ss = sessions_columns \<and> well_typed ss"
proof -
  from store.server_step [OF sql_engine.contract [OF assms(1)] assms(2-5), of L] assms(6)
  have "sq_inv tables room l (h_store w')"
    unfolding store.step_ok_def [OF sql_engine.contract [OF assms(1)]] refines_def by blast
  then obtain us n xs m where h: "holds_rows (tables (h_store w')) us n xs m" "rows_wf us n xs m"
    by (auto simp: sq_inv_def sq_wf_def)
  from well_typed_tables [OF h] h(1) show ?thesis
    by (intro exI [of _ "users_table us n"] exI [of _ "sessions_table xs m"])
      (simp add: holds_rows_def users_table_def sessions_table_def)
qed

theorem sqlite_tables_typed_witness:
  "\<exists>us. h_store (ServerHandler sample_libs (sqlite_ops ref_engine) sample_env health_request (new_world sample_db 5)) ''users''
    = Some us \<and> well_typed us"
  using sqlite_tables_typed [OF ref.sql_engine_axioms _ _ sample_good_env health_claims refl, of 4 "new_world sample_db 5" sample_libs]
    sample_db_inv by (auto simp: new_world_def)

text \<open>A file that a store wrote: a user is created in \<open>sample_db\<close>.\<close>

definition written_db :: db where
  "written_db = snd (CreateUser (sqlite_ops ref_engine) sample_senv ''bob'' ''$x'' ''viewer'' sample_db)"

lemma bob_created:
  obtains u where "CreateUser (sqlite_ops ref_engine) sample_senv ''bob'' ''$x'' ''viewer'' sample_db = (Inr u, written_db)"
    "sq_inv (\<lambda>d. d) ref_room 4 written_db" "sq_users (\<lambda>d. d) written_db (U_ID u) = Some (stored_user trunc_sec u)"
    "U_Username u = ''bob''"
proof -
  have "\<exists>u. fst (CreateUser (sqlite_ops ref_engine) sample_senv ''bob'' ''$x'' ''viewer'' sample_db) = Inr u"
    using ref.sq.create_user_total [of 4 sample_db "''bob''"] sample_db_inv
      ref.sq_invI(2) [OF sample_db_ok] ran_by_id [of U_ID "[root, alice]"] by simp
  then obtain u where c: "CreateUser (sqlite_ops ref_engine) sample_senv ''bob'' ''$x'' ''viewer'' sample_db = (Inr u, written_db)"
    unfolding written_db_def by (metis prod.collapse)
  have "sq_inv (\<lambda>d. d) ref_room (Suc 4) sample_db" using sample_db_inv by simp
  note new = ref.sq.create_user_ok [OF this _ c]
  have "std_year (se_now sample_senv)" using kept_0 by (simp add: kept_def)
  note new = new [OF this]
  then have "U_Username u = ''bob''" by (metis user.select_convs(2))
  with new c show thesis by (intro that [of u]) auto
qed

section \<open>Round trips\<close>

text \<open>C32: A user that \<open>CreateUser\<close> returned is found under its ID and under its name, equal in every field but the
  times, which the text columns keep to the second.\<close>

theorem sqlite_create_then_get:
  assumes "sql_engine E tables avail room" "sq_inv tables room (Suc l) d" "std_year (se_now e)"
    and "CreateUser (sqlite_ops E) e name h r d = (Inr u, d')" "avail d'"
    and "v = u\<lparr>U_CreatedAt := trunc_sec (se_now e), U_UpdatedAt := trunc_sec (se_now e)\<rparr>"
  shows "GetUser (sqlite_ops E) (U_ID u) d' = Inr v \<and> GetUserByUsername (sqlite_ops E) e' name d' = Inr v"
proof -
  note S = sql_engine.contract [OF assms(1)]
  note new = store.create_user_ok [OF S assms(2-4)]
  then have inv: "sq_inv tables room l d'" and users: "sq_users tables d' = (sq_users tables d)(U_ID u \<mapsto> stored_user trunc_sec u)"
    and u: "u = \<lparr>U_ID = U_ID u, U_Username = name, U_PasswordHash = h, U_Role = r, U_CreatedAt = se_now e, U_UpdatedAt = se_now e\<rparr>"
    by - (elim conjE, assumption)+
  have v: "stored_user trunc_sec u = v" unfolding assms(6) by (subst (1 2) u) (simp add: stored_user_def)
  have "U_Username v = name" unfolding assms(6) by (subst u) simp
  with users v show ?thesis
    using store.get_user_total [OF S inv assms(5), of "U_ID u" v]
      store.get_by_name_total [OF S inv assms(5), of "U_ID u" v name e'] by simp
qed

theorem sqlite_create_then_get_witness:
  "\<exists>u d'. CreateUser (sqlite_ops ref_engine) sample_senv ''bob'' ''$x'' ''viewer'' sample_db = (Inr u, d')
    \<and> GetUser (sqlite_ops ref_engine) (U_ID u) d' = Inr (u\<lparr>U_CreatedAt := 0, U_UpdatedAt := 0\<rparr>)"
proof -
  obtain u where "CreateUser (sqlite_ops ref_engine) sample_senv ''bob'' ''$x'' ''viewer'' sample_db = (Inr u, written_db)"
    by (rule bob_created)
  from sqlite_create_then_get [OF ref.sql_engine_axioms _ _ this _ refl, of 4] this sample_db_inv kept_0 show ?thesis
    by (auto simp: kept_def)
qed

lemma reopened:
  assumes "sql_engine E tables avail room" "db_Open E path = Inr d" "db_Ping E d = None" "avail d"
    and "sq_wf tables d \<or> tables d = Map.empty" "room l d"
  shows "\<exists>d'. NewSQLiteStore E path = Inr d' \<and> sq_inv tables room l d'
    \<and> sq_users tables d' = sq_users tables d \<and> sq_sessions tables d' = sq_sessions tables d
    \<and> avail d'"
proof -
  note I = assms(1)
  from assms(5) obtain us n xs m where h: "openable (tables d) us n xs m" "rows_wf us n xs m"
    "sq_users tables d = by_id U_ID us" "sq_sessions tables d = by_id S_ID xs"
  proof
    assume "sq_wf tables d"
    then obtain us n xs m where h: "holds_rows (tables d) us n xs m" "rows_wf us n xs m" by (auto simp: sq_wf_def)
    from that [OF openable_rows [OF h(1)] h(2)] sq_view [where tables = tables and d = d, OF h] show thesis by simp
  next
    assume e: "tables d = Map.empty"
    have "rows_wf [] 0 [] 0" by (simp add: rows_wf_def ids_wf_def max_rowid_def)
    with e show thesis
      using that [of "[]" 0 "[]" 0] openable_empty
      by (simp add: sq_users_def sq_sessions_def rows_of_def by_id_def List.map_filter_simps)
  qed
  from sql_engine.open_store [OF I assms(2) h(1,2) assms(6)] h(3,4) assms(3,4) show ?thesis by (auto split: sum.splits)
qed


text \<open>The reference engine over a file that is not new.\<close>

definition file_engine :: "db \<Rightarrow> db engine" where
  "file_engine d = ref_engine\<lparr>db_Open := \<lambda>path. Inr d\<rparr>"

lemma file_engine: "sql_engine (file_engine d) (\<lambda>d. d) (\<lambda>_. True) ref_room"
  using ref.sql_engine_axioms by (simp add: sql_engine_def file_engine_def)


end
