(* ===== verification/Lifecycle.thy ===== *)
theory Lifecycle
  imports Worker Sqlite_Properties
begin

text \<open>
  The life of the process (\<open>main\<close> of \<open>cmd/server/main.go\<close>): \<open>boot\<close> opens the audit file and the database, seeds the
  administrator and starts the cleanup worker; then requests, the worker, signals and the listener's errors
  interleave as steps of \<open>process_step\<close>, until the process fails or \<open>main\<close> gets to its end (\<open>Exited\<close>), where its deferred
  calls run (\<open>Shutdown\<close>).
\<close>

section \<open>Boot\<close>

definition cleanupInterval :: "(string \<Rightarrow> string) \<Rightarrow> duration" where
  "cleanupInterval env =
     (let envInterval = env ''CLEANUP_INTERVAL''
      in if envInterval \<noteq> [] then
           (case ParseDuration envInterval of Some parsed \<Rightarrow> parsed | None \<Rightarrow> 24 * Hour)
         else 24 * Hour)"

text \<open>\<open>open_err\<close> is the error of opening the audit file, if any, and \<open>files\<close> what is on disk. \<open>Fatal\<close> is \<open>log.Fatalf\<close>, which ends the process.\<close>

datatype 'a boot = Fatal string | Booted 'a

definition boot ::
  "'d engine \<Rightarrow> string option \<Rightarrow> (string \<rightharpoonup> event list) \<Rightarrow> senv \<Rightarrow> (string \<Rightarrow> string) \<Rightarrow> 'l \<Rightarrow>
    ('d cleanup_worker \<times> ('d, 'l) system) boot" where
  "boot E open_err files e env lim =
     (case NewLogger open_err ''audit.log'' files of
        Inl err \<Rightarrow> Fatal err
      | Inr auditLogger \<Rightarrow>
          (case NewSQLiteStore E ''users.db'' of
             Inl err \<Rightarrow> Fatal (''Failed to initialize SQLite store: '' @ err)
           | Inr sqlStore \<Rightarrow>
               (case seed_admin (sqlite_ops E) e sqlStore of
                  Inl err \<Rightarrow> Fatal err
                | Inr sqlStore' \<Rightarrow>
                    Booted (NewCleanupWorker (sqlite_ops E) (cleanupInterval env), Start ((new_world sqlStore' lim)\<lparr>h_audit := auditLogger\<rparr>)))))"

section \<open>Run\<close>

datatype phase = Serving | Draining | Exited | Failed string

record ('s, 'l) server =
  sv_phase :: phase
  sv_sys :: "('s, 'l) system"

datatype process_event = Work worker_event | Signal | ListenError string | Drained | TimedOut string

definition alive :: "('s, 'l) server \<Rightarrow> bool" where
  "alive x \<longleftrightarrow> (sv_phase x = Serving \<or> sv_phase x = Draining) \<and> wk_pc (sv_sys x) \<noteq> Panicked"

text \<open>A signal closes \<open>workerDone\<close> and begins \<open>srv.Shutdown\<close>, which waits for the requests in flight; \<open>main\<close> does not
  wait for the worker.\<close>

inductive process_step ::
  "'l libs \<Rightarrow> 's cleanup_worker \<Rightarrow> process_event \<Rightarrow> ('s, 'l) server \<Rightarrow> ('s, 'l) server \<Rightarrow> bool" for L W where
  Work: "alive x \<Longrightarrow> ev \<noteq> Close \<Longrightarrow> worker_step L W ev (sv_sys x) y \<Longrightarrow>
    process_step L W (Work ev) x (x\<lparr>sv_sys := y\<rparr>)"
| Signal: "alive x \<Longrightarrow> sv_phase x = Serving \<Longrightarrow> worker_step L W Close (sv_sys x) y \<Longrightarrow>
    process_step L W Signal x (x\<lparr>sv_phase := Draining, sv_sys := y\<rparr>)"
| ListenError: "alive x \<Longrightarrow>
    process_step L W (ListenError err) x (x\<lparr>sv_phase := Failed (''Server error: '' @ err)\<rparr>)"
| Drained: "alive x \<Longrightarrow> sv_phase x = Draining \<Longrightarrow> process_step L W Drained x (x\<lparr>sv_phase := Exited\<rparr>)"
| TimedOut: "alive x \<Longrightarrow> sv_phase x = Draining \<Longrightarrow>
    process_step L W (TimedOut err) x (x\<lparr>sv_phase := Failed (''Server forced to shutdown: '' @ err)\<rparr>)"

inductive_simps process_step_simps [simp]:
  "process_step L W (Work ev) x y" "process_step L W Signal x y" "process_step L W (ListenError err) x y"
  "process_step L W Drained x y" "process_step L W (TimedOut err) x y"

inductive process_run ::
  "'l libs \<Rightarrow> 's cleanup_worker \<Rightarrow> process_event list \<Rightarrow> ('s, 'l) server \<Rightarrow> ('s, 'l) server \<Rightarrow> bool" for L W where
  Nothing: "process_run L W [] x x"
| Then: "process_step L W ev x y \<Longrightarrow> process_run L W evs y z \<Longrightarrow> process_run L W (ev # evs) x z"

text \<open>What the worker's machine sees of an event.\<close>

fun worker_events :: "process_event list \<Rightarrow> worker_event list" where
  "worker_events [] = []"
| "worker_events (Work ev # evs) = ev # worker_events evs"
| "worker_events (Signal # evs) = Close # worker_events evs"
| "worker_events (_ # evs) = worker_events evs"

section \<open>Facts\<close>

text \<open>The process refines the worker's machine.\<close>

lemma process_run_worker:
  "process_run L W evs x y \<Longrightarrow> worker_run L W (worker_events evs) (sv_sys x) (sv_sys y)"
proof (induction rule: process_run.induct)
  case (Then ev x y evs z)
  then show ?case by (cases ev) (auto intro: worker_run.intros worker_step.intros simp del: worker_step_simps)
qed (simp add: worker_run.Nothing)

lemma process_run_ended: "process_run L W evs x y \<Longrightarrow> \<not> alive x \<Longrightarrow> evs = [] \<and> y = x"
proof (induction rule: process_run.induct)
  case (Then ev x y evs z)
  then show ?case by (cases ev) auto
qed simp

text \<open>What the events so far say of the phase.\<close>

definition ending :: "'s cleanup_worker \<Rightarrow> process_event list \<Rightarrow> ('s, 'l) server \<Rightarrow> bool" where
  "ending W past x \<longleftrightarrow>
     (case sv_phase x of
        Serving \<Rightarrow> Signal \<notin> set past
      | Draining \<Rightarrow> wk_done (sv_sys x) \<and> (\<exists>pre mid. past = pre @ Signal # mid \<and> Signal \<notin> set pre \<and> Signal \<notin> set mid)
      | Exited \<Rightarrow> wk_done (sv_sys x)
          \<and> (\<exists>pre mid. past = pre @ Signal # mid @ [Drained] \<and> Signal \<notin> set pre \<and> Signal \<notin> set mid)
      | Failed msg \<Rightarrow> \<exists>pre err. past = pre @ [ListenError err] \<and> msg = ''Server error: '' @ err
          \<or> past = pre @ [TimedOut err] \<and> msg = ''Server forced to shutdown: '' @ err \<and> Signal \<in> set pre)
     \<and> (wk_pc (sv_sys x) = Panicked \<longrightarrow> Work NewTicker \<in> set past \<and> cw_interval W \<le> 0)"

lemma ending_work:
  assumes "worker_step L W wev (sv_sys x) y" "wev \<noteq> Close" "alive x" "ending W past x"
  shows "ending W (past @ [Work wev]) (x\<lparr>sv_sys := y\<rparr>)"
proof -
  have "wk_done y = wk_done (sv_sys x)" "wk_pc y = Panicked \<longrightarrow> wev = NewTicker \<and> cw_interval W \<le> 0"
    using assms(1-3) by (cases wev; auto simp: alive_def split: if_splits)+
  moreover have "\<exists>pre' mid'. past @ [Work wev] = pre' @ Signal # mid' \<and> Signal \<notin> set pre' \<and> Signal \<notin> set mid'"
    if "past = pre @ Signal # mid" "Signal \<notin> set pre" "Signal \<notin> set mid" for pre mid
    using that by (intro exI [of _ pre] exI [of _ "mid @ [Work wev]"]) simp
  ultimately show ?thesis using assms(3,4) by (auto simp: ending_def alive_def)
qed

lemma ending_step: "process_step L W ev x y \<Longrightarrow> ending W past x \<Longrightarrow> ending W (past @ [ev]) y"
proof (induction rule: process_step.induct)
  case (Work x ev y)
  then show ?case by (intro ending_work) simp_all
next
  case (Signal x y)
  then have "past @ [Signal] = past @ Signal # [] \<and> Signal \<notin> set past" "wk_done y" "wk_pc y = wk_pc (sv_sys x)"
    by (auto simp: ending_def)
  with Signal show ?case by (fastforce simp: ending_def alive_def)
qed (fastforce simp: ending_def alive_def)+

lemma ending_run: "process_run L W evs x y \<Longrightarrow> ending W past x \<Longrightarrow> ending W (past @ evs) y"
proof (induction arbitrary: past rule: process_run.induct)
  case (Then ev x y evs z)
  from Then.IH [OF ending_step [OF Then.hyps(1) Then.prems]] show ?case by simp
qed simp

text \<open>Seeding adds the administrator, or finds the name taken and changes nothing.\<close>

context store begin

lemma seeded:
  assumes "inv (Suc l) s" "up s" "repr (se_now e)"
  shows "\<exists>s'. seed_admin S e s = Inr s' \<and> inv l s' \<and> sessions s' = sessions s
    \<and> (if \<exists>u \<in> ran (users s). U_Username u = ''admin'' then users s' = users s
       else \<exists>i. users s i = None \<and> users s' = (users s)(i \<mapsto> \<lparr>U_ID = i, U_Username = ''admin'', U_PasswordHash = adminHash,
           U_Role = ''admin'', U_CreatedAt = res (se_now e), U_UpdatedAt = res (se_now e)\<rparr>))"
proof (cases "\<exists>u \<in> ran (users s). U_Username u = ''admin''")
  case True
  then obtain v where v: "v \<in> ran (users s)" "U_Username v = ''admin''" by blast
  note inv = inv_less [OF assms(1)]
  from create_user_dup [OF inv assms(2) v, of e adminHash "''admin''"] obtain m s' where
    c: "CreateUser S e ''admin'' adminHash ''admin'' s = (Inl m, s')" "Contains m ''already exists''"
    by (metis prod.collapse)
  with create_user_err [OF inv assms(2) c(1)] True show ?thesis by (simp add: seed_admin_def)
next
  case False
  from create_user_total [OF assms(1,2), of "''admin''" e adminHash "''admin''"] False obtain u s' where
    c: "CreateUser S e ''admin'' adminHash ''admin'' s = (Inr u, s')" by (metis prod.collapse)
  note new = create_user_ok [OF assms(1,3) c]
  then have u: "u = \<lparr>U_ID = U_ID u, U_Username = ''admin'', U_PasswordHash = adminHash, U_Role = ''admin'',
      U_CreatedAt = se_now e, U_UpdatedAt = se_now e\<rparr>" by (elim conjE)
  have "stored_user res u = \<lparr>U_ID = U_ID u, U_Username = ''admin'', U_PasswordHash = adminHash,
      U_Role = ''admin'', U_CreatedAt = res (se_now e), U_UpdatedAt = res (se_now e)\<rparr>"
    by (subst u) (simp add: stored_user_def)
  with new False c show ?thesis by (auto simp: seed_admin_def)
qed

end

end
