(* ===== verification/Process_Properties.thy ===== *)
theory Process_Properties
  imports Lifecycle Samples
begin

text \<open>
  The properties of the process as a whole: its start, the cleanup worker beside the server, and its end.
\<close>

section \<open>Start\<close>

lemma booted:
  assumes "sql_engine E tables avail room" "db_Open E ''users.db'' = Inr d" "db_Ping E d = None" "avail d"
    and "sq_wf tables d \<or> tables d = Map.empty" "room (Suc l) d" "std_year (se_now e)"
  obtains s where "boot E None files e env lim = Booted (NewCleanupWorker (sqlite_ops E) (cleanupInterval env),
        Start ((new_world s lim)\<lparr>h_audit := (case files ''audit.log'' of None \<Rightarrow> [] | Some lines \<Rightarrow> lines)\<rparr>))"
    "sq_inv tables room l s" "sq_sessions tables s = sq_sessions tables d"
    "if \<exists>u \<in> ran (sq_users tables d). U_Username u = ''admin'' then sq_users tables s = sq_users tables d
     else \<exists>i. sq_users tables d i = None \<and> sq_users tables s = (sq_users tables d)(i \<mapsto>
       \<lparr>U_ID = i, U_Username = ''admin'', U_PasswordHash = adminHash, U_Role = ''admin'',
        U_CreatedAt = trunc_sec (se_now e), U_UpdatedAt = trunc_sec (se_now e)\<rparr>)"
proof -
  from reopened [OF assms(1-6)] obtain d' where d': "NewSQLiteStore E ''users.db'' = Inr d'" "sq_inv tables room (Suc l) d'"
      "sq_users tables d' = sq_users tables d" "sq_sessions tables d' = sq_sessions tables d" "avail d'"
    by blast
  from store.seeded [OF sql_engine.contract [OF assms(1)] d'(2,5) assms(7)] obtain s where
      "seed_admin (sqlite_ops E) e d' = Inr s" "sq_inv tables room l s" "sq_sessions tables s = sq_sessions tables d'"
      "if \<exists>u \<in> ran (sq_users tables d'). U_Username u = ''admin'' then sq_users tables s = sq_users tables d'
       else \<exists>i. sq_users tables d' i = None \<and> sq_users tables s = (sq_users tables d')(i \<mapsto>
         \<lparr>U_ID = i, U_Username = ''admin'', U_PasswordHash = adminHash, U_Role = ''admin'',
          U_CreatedAt = trunc_sec (se_now e), U_UpdatedAt = trunc_sec (se_now e)\<rparr>)"
    by blast
  note s = this [unfolded d'(3,4)]
  have "boot E None files e env lim = Booted (NewCleanupWorker (sqlite_ops E) (cleanupInterval env),
        Start ((new_world s lim)\<lparr>h_audit := (case files ''audit.log'' of None \<Rightarrow> [] | Some lines \<Rightarrow> lines)\<rparr>))"
    using d'(1) s(1) by (simp add: boot_def NewLogger_def)
  then show thesis using s(2-4) by (rule that)
qed

text \<open>The server starts on every usable database file, new or old, and loses nothing in it: the administrator is
  added when no user has that name, with the built-in hash, and otherwise the users are left alone.\<close>

theorem boot_keeps_accounts:
  assumes "sql_engine E tables avail room" "db_Open E ''users.db'' = Inr d" "db_Ping E d = None" "avail d"
    and "sq_wf tables d \<or> tables d = Map.empty" "room (Suc l) d"
    and "std_year (se_now e)"
  shows "\<exists>s. boot E None files e env lim = Booted (NewCleanupWorker (sqlite_ops E) (cleanupInterval env),
        Start ((new_world s lim)\<lparr>h_audit := (case files ''audit.log'' of None \<Rightarrow> [] | Some lines \<Rightarrow> lines)\<rparr>))
    \<and> sq_inv tables room l s \<and> sq_sessions tables s = sq_sessions tables d
    \<and> (if \<exists>u \<in> ran (sq_users tables d). U_Username u = ''admin'' then sq_users tables s = sq_users tables d
       else \<exists>i. sq_users tables d i = None \<and> sq_users tables s = (sq_users tables d)(i \<mapsto>
         \<lparr>U_ID = i, U_Username = ''admin'', U_PasswordHash = adminHash, U_Role = ''admin'',
          U_CreatedAt = trunc_sec (se_now e), U_UpdatedAt = trunc_sec (se_now e)\<rparr>))"
proof (rule booted [OF assms, of files env lim], goal_cases)
  case (1 s)
  then show ?case by (intro exI [of _ s] conjI)
qed

lemma sample_file:
  "db_Open ref_engine ''users.db'' = Inr Map.empty" "db_Ping ref_engine Map.empty = None" "ref_room 7 Map.empty"
  "std_year (se_now sample_senv)"
  using kept_0 by (simp_all add: ref_engine_def ref_room_def max_rowid_def kept_def)

theorem boot_keeps_accounts_witness:
  "\<exists>s. boot ref_engine None Map.empty sample_senv (\<lambda>_. []) (5::nat)
      = Booted (NewCleanupWorker (sqlite_ops ref_engine) (24 * Hour), Start (new_world s 5))
    \<and> (\<exists>u \<in> ran (sq_users (\<lambda>d. d) s). U_Username u = ''admin'')"
proof -
  have "sq_users (\<lambda>d. d) Map.empty = Map.empty"
    by (simp add: sq_users_def rows_of_def by_id_def List.map_filter_simps)
  with boot_keeps_accounts [OF ref.sql_engine_axioms sample_file(1,2) _ _ _ sample_file(4), of 6 Map.empty "\<lambda>_. []" "5::nat"] sample_file(3)
  show ?thesis by (auto simp: cleanupInterval_def new_world_def)
qed

text \<open>\<open>CLEANUP_INTERVAL\<close> as a whole number of a unit is read exactly, anything else that \<open>ParseDuration\<close> does not
  accept means 24 hours, and the interval is an \<open>int64\<close> in any case; it need not be positive.\<close>

theorem cleanup_interval_read:
  assumes "(u, k) \<in> set unit_map" "int n * k < 2 ^ 63" "env ''CLEANUP_INTERVAL'' = show_nat n @ u"
  shows "cleanupInterval env = int n * k \<and> in_int64 (cleanupInterval env')
    \<and> (ParseDuration (env' ''CLEANUP_INTERVAL'') = None \<longrightarrow> cleanupInterval env' = 24 * Hour)"
proof -
  have "in_int64 (24 * Hour)" by (simp add: in_int64_def duration_units)
  then have "in_int64 (cleanupInterval env')"
    by (auto simp: cleanupInterval_def Let_def dest: ParseDuration_in_int64 split: option.splits)
  with ParseDuration_whole [OF assms(1,2)] assms(3) show_nat_nonempty [of n] show ?thesis
    by (auto simp: cleanupInterval_def Let_def)
qed

theorem cleanup_interval_read_witness: "cleanupInterval (\<lambda>_. ''90m'') = 90 * Minute \<and> cleanupInterval (\<lambda>_. ''0s'') = 0"
proof -
  have "show_nat 90 = ''90''" "show_nat 0 = ''0''" by code_simp+
  with cleanup_interval_read [of "''m''" Minute 90 "\<lambda>_. ''90m''"] cleanup_interval_read [of "''s''" Second 0 "\<lambda>_. ''0s''"]
  show ?thesis by (simp add: unit_map_def duration_units)
qed

section \<open>The worker beside the server\<close>

text \<open>C35: A pass of the worker, whose clock reads from \<open>t0\<close> to \<open>t1\<close> while it goes over the users, logs each user
  that has not been updated for more than 24 hours at \<open>t0\<close> once, and none that has been at \<open>t1\<close>; or it logs that the
  users could not be read, and nothing else, which happens only when the file is not available.\<close>

theorem worker_logs_stale_users:
  assumes "sql_engine E tables avail room" "sq_inv tables room l d" "W = NewCleanupWorker (sqlite_ops E) interval"
    and "\<forall>i. t0 \<le> clock i \<and> clock i \<le> t1"
  shows "(\<exists>err. pass_lines W e clock d = [ListFailed err] \<and> \<not> avail d)
    \<or> (\<exists>us. pass_lines W e clock d = map (\<lambda>u. StaleUser (U_ID u) (U_UpdatedAt u)) us \<and> distinct us
        \<and> {u \<in> ran (sq_users tables d). U_UpdatedAt u + 24 * Hour < t0} \<subseteq> set us
        \<and> set us \<subseteq> {u \<in> ran (sq_users tables d). U_UpdatedAt u + 24 * Hour < t1})"
proof -
  note S = sql_engine.contract [OF assms(1)]
  show ?thesis
  proof (cases "ListUsers (sqlite_ops E) e [] d")
    case (Inl err)
    with store.list_users_up [OF S assms(2), of e "[]"] show ?thesis
      by (auto simp: pass_lines_def assms(3) NewCleanupWorker_def)
  next
    case (Inr us)
    from store.list_users_ok [OF S assms(2) Inr] have us: "distinct us" "set us = ran (sq_users tables d)" by simp_all
    with report_spec [where clock = clock and i = 0 and us = us, of t0 t1] assms(4) Inr show ?thesis
      by (auto simp: pass_lines_def assms(3) NewCleanupWorker_def)
  qed
qed

theorem worker_logs_stale_users_witness:
  "StaleUser 2 0 \<in> set (pass_lines (NewCleanupWorker (sqlite_ops ref_engine) Hour) sample_senv (\<lambda>i. 25 * Hour + min (int i) 3) sample_db)"
proof -
  let ?P = "pass_lines (NewCleanupWorker (sqlite_ops ref_engine) Hour) sample_senv (\<lambda>i. 25 * Hour + min (int i) 3) sample_db"
  have users: "ran (sq_users (\<lambda>d. d) sample_db) = {root, alice}"
    using ref.sq_invI(2) [OF sample_db_ok] ran_by_id [of U_ID "[root, alice]"] by simp
  have clock: "\<forall>i. 25 * Hour \<le> 25 * Hour + min (int i) 3 \<and> 25 * Hour + min (int i) 3 \<le> 25 * Hour + 3" by simp
  obtain us where us: "?P = map (\<lambda>u. StaleUser (U_ID u) (U_UpdatedAt u)) us"
    "{u \<in> ran (sq_users (\<lambda>d. d) sample_db). U_UpdatedAt u + 24 * Hour < 25 * Hour} \<subseteq> set us"
    using worker_logs_stale_users [OF ref.sql_engine_axioms sample_db_inv refl clock, of Hour sample_senv] by blast
  have "alice \<in> {u \<in> ran (sq_users (\<lambda>d. d) sample_db). U_UpdatedAt u + 24 * Hour < 25 * Hour}"
    by (simp add: users) (simp add: alice_def duration_units)
  with us(2) have "StaleUser (U_ID alice) (U_UpdatedAt alice) \<in> set ?P" unfolding us(1) set_map by blast
  then show ?thesis by (simp add: alice_def)
qed



text \<open>C34: The worker stops: in every fair execution in which \<open>done\<close> gets closed, with a positive interval, the
  goroutine returns, and from then on neither runs nor logs.\<close>

theorem worker_returns:
  assumes "execution L W lab sys" "fair L W lab sys" "sys 0 = Start w" "wk_done (sys n)" "0 < cw_interval W"
  shows "\<exists>m \<ge> n. \<forall>k \<ge> m. wk_pc (sys k) = Returned \<and> wk_lines (sys k) = wk_lines (sys m)"
proof -
  have "wk_pc (sys n) \<noteq> Panicked"
  proof (rule execution_stays [where P = "\<lambda>x. wk_pc x \<noteq> Panicked", OF assms(1) _ _ le0])
    show "wk_pc y \<noteq> Panicked" if "worker_step L W ev x y" "wk_pc x \<noteq> Panicked" for ev x y
      using that assms(5) by (cases ev) auto
  qed (simp add: assms(3) Start_def)
  from fair_returns [OF assms(1,2,4) this assms(5)] obtain m where m: "m \<ge> n" "wk_pc (sys m) = Returned" by blast
  have "wk_pc (sys k) = Returned \<and> wk_lines (sys k) = wk_lines (sys m)" if "k \<ge> m" for k
    by (rule execution_stays [where P = "\<lambda>x. wk_pc x = Returned \<and> wk_lines x = wk_lines (sys m)", OF assms(1) _ _ that])
      (use m(2) in \<open>auto dest: returned_stays\<close>)
  with m(1) show ?thesis by blast
qed

text \<open>An execution: the worker starts, \<open>done\<close> is closed, the worker returns, and the server idles on.\<close>

definition sample_events :: "nat \<Rightarrow> worker_event" where
  "sample_events n = (if n = 0 then NewTicker else if n = 1 then Close else if n = 2 then Stop else Idle)"

definition sample_states :: "nat \<Rightarrow> (mem, nat) system" where
  "sample_states n = (let x = (Start sample_world)\<lparr>wk_pc := Selecting\<rparr>
     in if n = 0 then Start sample_world else if n = 1 then x else if n = 2 then x\<lparr>wk_done := True\<rparr>
        else x\<lparr>wk_pc := Returned, wk_done := True, wk_lines := [WorkerStopped]\<rparr>)"

theorem worker_returns_witness:
  "\<exists>m \<ge> 2. \<forall>k \<ge> m. wk_pc (sample_states k) = Returned \<and> wk_lines (sample_states k) = wk_lines (sample_states m)"
proof (rule worker_returns)
  let ?W = "NewCleanupWorker mem_ops Hour"
  have h [simp]: "cw_interval ?W = Hour" "0 < Hour" "\<not> Hour \<le> 0"
    by (simp_all add: NewCleanupWorker_def duration_units)
  show "0 < cw_interval ?W" by simp
  show "execution sample_libs ?W sample_events sample_states"
    by (auto simp: execution_def sample_events_def sample_states_def Let_def Start_def)
  show "fair sample_libs ?W sample_events sample_states"
    unfolding fair_def
  proof (intro ballI allI impI)
    fix ev n assume ev: "ev \<in> {NewTicker, Stop}" and en: "\<forall>m \<ge> n. enabled sample_libs ?W ev (sample_states m)"
    from en have "enabled sample_libs ?W ev (sample_states (n + 3))" by simp
    with ev show "\<exists>m \<ge> n. sample_events m = ev"
      by (auto simp: enabled_def sample_states_def Let_def)
  qed
  show "sample_states 0 = Start sample_world" "wk_done (sample_states 2)" by (simp_all add: sample_states_def Let_def)
qed

text \<open>C36: The worker's loop cannot spin: whatever happens around it, the goroutine takes at most one step for each tick
  and two more, and it never takes one after it has returned.\<close>

theorem worker_steps_bounded:
  assumes "worker_run L W evs (Start w) x"
  shows "length (filter own evs) \<le> length (filter (\<lambda>ev. ev = Tick) evs) + 2
    \<and> (wk_pc x = Returned \<longrightarrow> worker_run L W evs' x y \<longrightarrow> filter own evs' = [])"
proof -
  from run_budget [OF assms] have "length (filter own evs) \<le> length (filter (\<lambda>ev. ev = Tick) evs) + 2"
    by (simp add: budget_def Start_def)
  moreover have "filter own evs' = []" if "worker_run L W evs' x y" "wk_pc x = Returned" for evs' x y
    using that
  proof (induction rule: worker_run.induct)
    case (Then ev x y evs z)
    then show ?case by (cases ev) (auto simp: own_def)
  qed simp
  ultimately show ?thesis by blast
qed

theorem worker_steps_bounded_witness:
  "\<exists>evs x. worker_run sample_libs (NewCleanupWorker mem_ops Hour) evs (Start sample_world) x \<and> length (filter own evs) = 3
    \<and> length (filter own evs) \<le> length (filter (\<lambda>ev. ev = Tick) evs) + 2"
proof -
  have [simp]: "\<not> Hour \<le> 0" by (simp add: duration_units)
  let ?evs = "[NewTicker, Tick, Pass sample_senv (\<lambda>_. 0), Close, Stop]"
  have "\<exists>x. worker_run sample_libs (NewCleanupWorker mem_ops Hour) ?evs (Start sample_world) x"
    by (intro exI worker_run.intros worker_step.intros)
      (auto simp: Start_def NewCleanupWorker_def intro: worker_run.Nothing)
  then obtain x where x: "worker_run sample_libs (NewCleanupWorker mem_ops Hour) ?evs (Start sample_world) x" by blast
  have "length (filter own ?evs) = 3" by (simp add: own_def)
  with x conjunct1 [OF worker_steps_bounded [OF x]] show ?thesis by blast
qed

text \<open>The product that gives the session lifetime is not bounded; this many hours are negative.\<close>

lemma session_ttl_overflow: "sessionTTL (\<lambda>_. ''2562048'') < 0" "sessionTTL (\<lambda>_. ''2562047'') = 2562047 * Hour"
  by code_simp+

end
