(* ===== verification/Store_Calls.thy ===== *)
theory Store_Calls
  imports Server_Facts
begin

text \<open>
  What a request may write. Whatever the store answers (the operations \<open>S\<close> keep no law here), a request makes at
  most one call that writes (\<open>server_writes\<close>), with an audit line where only an administrator may make it, and its
  handler made sure of what \<open>justified\<close> says before the call: the claims, the answers of the lookups, the password.
  So a law of the single calls, however weak, is a law of the server.
\<close>

section \<open>Writing calls\<close>

datatype store_write =
    WCreateUser senv string string string
  | WUpdateUser senv int string string string
  | WDeleteUser int
  | WCreateSession senv int string string duration
  | WDeleteSession int
  | WDeleteSessionsByUserID senv int string

fun write_call :: "'s store_ops \<Rightarrow> store_write \<Rightarrow> 's \<Rightarrow> 's" where
  "write_call S (WCreateUser e n h ro) s = snd (CreateUser S e n h ro s)"
| "write_call S (WUpdateUser e i n h ro) s = snd (UpdateUser S e i n h ro s)"
| "write_call S (WDeleteUser i) s = snd (DeleteUser S i s)"
| "write_call S (WCreateSession e uid n ro ttl) s = snd (CreateSession S e uid n ro ttl s)"
| "write_call S (WDeleteSession i) s = snd (DeleteSession S i s)"
| "write_call S (WDeleteSessionsByUserID e uid t) s = snd (DeleteSessionsByUserID S e uid t s)"

text \<open>The instants a call hands to the store.\<close>

fun timely :: "(instant \<Rightarrow> bool) \<Rightarrow> store_write \<Rightarrow> bool" where
  "timely ok (WCreateUser e n h ro) = ok (se_now e)"
| "timely ok (WUpdateUser e i n h ro) = ok (se_now e)"
| "timely ok (WCreateSession e uid n ro ttl) = (ok (se_now e) \<and> ok (se_now e + ttl))"
| "timely ok _ = True"

section \<open>What justifies a call\<close>

definition found :: "'s store_ops \<Rightarrow> reqenv \<Rightarrow> request \<Rightarrow> 's \<Rightarrow> user \<Rightarrow> bool" where
  "found S E r s u \<longleftrightarrow>
     (\<exists>c. request_claims r = Some c \<and> GetUserByUsername S (store_env E 0) (C_Username c) s = Inr u)"

definition own_password_call :: "'l libs \<Rightarrow> 's store_ops \<Rightarrow> reqenv \<Rightarrow> request \<Rightarrow> 's \<Rightarrow> store_write \<Rightarrow> bool" where
  "own_password_call L S E r s c \<longleftrightarrow>
     (\<exists>u current new h. found S E r s u \<and> password_request r current new
        \<and> bcrypt_CompareHashAndPassword L (U_PasswordHash u) current
        \<and> bcrypt_GenerateFromPassword L new (getBcryptCost L (getenv E)) (salt E) = Inr h
        \<and> c = WUpdateUser (store_env E 1) (U_ID u) (U_Username u) h (U_Role u))"

definition edit_call :: "'s store_ops \<Rightarrow> reqenv \<Rightarrow> request \<Rightarrow> 's \<Rightarrow> store_write \<Rightarrow> bool" where
  "edit_call S E r s c \<longleftrightarrow>
     (\<exists>u i n h ro. is_admin r \<and> path_user_id r = Inr i \<and> GetUser S i s = Inr u \<and> (valid_role ro \<or> ro = U_Role u)
        \<and> c = WUpdateUser (store_env E 0) i n h ro)"

fun justified :: "'l libs \<Rightarrow> 's store_ops \<Rightarrow> reqenv \<Rightarrow> request \<Rightarrow> 's \<Rightarrow> store_write \<Rightarrow> bool" where
  "justified L S E r s (WCreateUser e n h ro) = (is_admin r \<and> e = store_env E 0 \<and> valid_role ro)"
| "justified L S E r s (WUpdateUser e i n h ro) =
     (own_password_call L S E r s (WUpdateUser e i n h ro) \<or> edit_call S E r s (WUpdateUser e i n h ro))"
| "justified L S E r s (WDeleteUser i) = (is_admin r \<and> path_user_id r = Inr i)"
| "justified L S E r s (WCreateSession e uid n ro ttl) =
     (\<exists>u name pw. credentials r name pw \<and> GetUserByUsername S (store_env E 0) name s = Inr u
        \<and> bcrypt_CompareHashAndPassword L (U_PasswordHash u) pw
        \<and> e = store_env E 1 \<and> uid = U_ID u \<and> n = U_Username u \<and> ro = U_Role u \<and> ttl = sessionTTL (getenv E))"
| "justified L S E r s (WDeleteSession i) =
     (\<exists>u x. found S E r s u \<and> GetSessionByID S i s = Inr x \<and> S_UserID x = U_ID u)"
| "justified L S E r s (WDeleteSessionsByUserID e uid t) =
     (\<exists>u. found S E r s u \<and> uid = U_ID u \<and> e = store_env E 1 \<and> t = Header_Get r ''X-Session-Token'' \<and> t \<noteq> [])"

definition one_write :: "'l libs \<Rightarrow> 's store_ops \<Rightarrow> reqenv \<Rightarrow> request \<Rightarrow> 's \<Rightarrow> 's \<Rightarrow> bool" where
  "one_write L S E r s s' \<longleftrightarrow> s' = s \<or> (\<exists>c. justified L S E r s c \<and> s' = write_call S c s)"

lemma one_write_none [simp]: "one_write L S E r s s"
  by (simp add: one_write_def)

lemma one_write_call:
  "CreateUser S e n h ro s = (y, s') \<Longrightarrow> justified L S E r s (WCreateUser e n h ro) \<Longrightarrow> one_write L S E r s s'"
  "UpdateUser S e i n h ro s = (y, s') \<Longrightarrow> justified L S E r s (WUpdateUser e i n h ro) \<Longrightarrow> one_write L S E r s s'"
  "DeleteUser S i s = (z, s') \<Longrightarrow> justified L S E r s (WDeleteUser i) \<Longrightarrow> one_write L S E r s s'"
  "CreateSession S e uid n ro ttl s = (x, s') \<Longrightarrow> justified L S E r s (WCreateSession e uid n ro ttl) \<Longrightarrow>
    one_write L S E r s s'"
  "DeleteSession S i s = (z, s') \<Longrightarrow> justified L S E r s (WDeleteSession i) \<Longrightarrow> one_write L S E r s s'"
  "DeleteSessionsByUserID S e uid t s = (z, s') \<Longrightarrow> justified L S E r s (WDeleteSessionsByUserID e uid t) \<Longrightarrow>
    one_write L S E r s s'"
  unfolding one_write_def by (metis write_call.simps snd_conv)+

text \<open>The calls that only an administrator may make.\<close>

fun by_admin :: "'l libs \<Rightarrow> 's store_ops \<Rightarrow> reqenv \<Rightarrow> request \<Rightarrow> 's \<Rightarrow> store_write \<Rightarrow> bool" where
  "by_admin L S E r s (WCreateUser e n h ro) = True"
| "by_admin L S E r s (WUpdateUser e i n h ro) = (\<not> own_password_call L S E r s (WUpdateUser e i n h ro))"
| "by_admin L S E r s (WDeleteUser i) = True"
| "by_admin L S E r s _ = False"

definition own_write :: "'l libs \<Rightarrow> 's store_ops \<Rightarrow> reqenv \<Rightarrow> request \<Rightarrow> 's \<Rightarrow> 's \<Rightarrow> bool" where
  "own_write L S E r s s' \<longleftrightarrow>
     s' = s \<or> (\<exists>c. justified L S E r s c \<and> \<not> by_admin L S E r s c \<and> s' = write_call S c s)"

lemma own_write_none [simp]: "own_write L S E r s s"
  by (simp add: own_write_def)

lemma own_write_call:
  "UpdateUser S e i n h ro s = (y, s') \<Longrightarrow> own_password_call L S E r s (WUpdateUser e i n h ro) \<Longrightarrow> own_write L S E r s s'"
  "CreateSession S e uid n ro ttl s = (x, s') \<Longrightarrow> justified L S E r s (WCreateSession e uid n ro ttl) \<Longrightarrow>
    own_write L S E r s s'"
  "DeleteSession S i s = (z, s') \<Longrightarrow> justified L S E r s (WDeleteSession i) \<Longrightarrow> own_write L S E r s s'"
  "DeleteSessionsByUserID S e uid t s = (z, s') \<Longrightarrow> justified L S E r s (WDeleteSessionsByUserID e uid t) \<Longrightarrow>
    own_write L S E r s s'"
  unfolding own_write_def by (metis write_call.simps justified.simps(2) by_admin.simps(2) snd_conv,
    (metis write_call.simps by_admin.simps snd_conv)+)

lemma justified_timely:
  "good_env ok E \<Longrightarrow> justified L S E r s c \<Longrightarrow> timely ok c"
  by (cases c) (auto simp: own_password_call_def edit_call_def good_env_def)

section \<open>The handlers\<close>

lemma login_writes: "own_write L S E r (h_store w) (h_store (LoginHandler L S E r w))"
  by (auto simp: LoginHandler_def Let_def credentials_def simp del: One_nat_def
    intro!: own_write_call(2) split: prod.splits option.splits sum.splits)

lemma delete_session_writes: "own_write L S E r (h_store w) (h_store (DeleteSessionHandler S E r w))"
  by (auto simp: DeleteSessionHandler_def http_unauthorized_def found_def
    intro!: own_write_call(3) split: prod.splits option.splits sum.splits)

lemma delete_all_writes: "own_write L S E r (h_store w) (h_store (DeleteAllSessionsHandler S E r w))"
  by (auto simp: DeleteAllSessionsHandler_def http_unauthorized_def found_def Let_def simp del: One_nat_def
    intro!: own_write_call(4) split: prod.splits option.splits sum.splits)

lemma password_writes: "own_write L S E r (h_store w) (h_store (PasswordChangeHandler L S E r w))"
  by (auto simp: PasswordChangeHandler_def http_unauthorized_def found_def own_password_call_def password_request_def
      simp del: One_nat_def intro!: own_write_call(1) split: prod.splits option.splits sum.splits)

lemma create_user_writes:
  "is_admin r \<Longrightarrow> one_write L S E r (h_store w) (h_store (CreateUserHandler L S E r w))"
  by (auto simp: CreateUserHandler_def intro!: one_write_call(1) split: prod.splits option.splits sum.splits)

lemma update_user_writes:
  assumes "is_admin r" shows "one_write L S E r (h_store w) (h_store (UpdateUserHandler L S E r w))"
proof -
  have call: "one_write L S E r (h_store w) s'"
    if "path_user_id r = Inr i" "GetUser S i (h_store w) = Inr u" "valid_role ro \<or> ro = U_Role u"
      "UpdateUser S (store_env E 0) i n h ro (h_store w) = (y, s')" for i u n h ro y s'
    using that assms by (intro one_write_call(2) [OF that(4)]) (auto simp: edit_call_def)
  show ?thesis
    by (auto simp: UpdateUserHandler_def Let_def intro: call split: prod.splits option.splits sum.splits)
qed

lemma delete_user_writes:
  "is_admin r \<Longrightarrow> one_write L S E r (h_store w) (h_store (DeleteUserHandler S r w))"
  by (auto simp: DeleteUserHandler_def intro!: one_write_call(3) split: prod.splits option.splits sum.splits)

lemma h_store_reads [simp]:
  "h_store (SessionsHandler S E r w) = h_store w" "h_store (ListUsersHandler S E r w) = h_store w"
  "h_store (GetUserHandler S E r w) = h_store w"
  by (auto simp: SessionsHandler_def ListUsersHandler_def GetUserHandler_def http_unauthorized_def
    split: option.splits sum.splits)

section \<open>The server\<close>

text \<open>At most one call, and what only an administrator may do is in the audit file.\<close>

definition effect :: "'l libs \<Rightarrow> 's store_ops \<Rightarrow> reqenv \<Rightarrow> request \<Rightarrow> request \<Rightarrow> ('s, 'l) world \<Rightarrow> ('s, 'l) world \<Rightarrow> bool" where
  "effect L S E r r' w w' \<longleftrightarrow> h_store w' = h_store w \<or>
     (\<exists>c. justified L S E r' (h_store w) c \<and> h_store w' = write_call S c (h_store w)
       \<and> (by_admin L S E r' (h_store w) c \<longrightarrow> audited E r r' w w'))"

definition server_effect :: "'l libs \<Rightarrow> 's store_ops \<Rightarrow> reqenv \<Rightarrow> request \<Rightarrow> ('s, 'l) world \<Rightarrow> ('s, 'l) world \<Rightarrow> bool" where
  "server_effect L S E r w w' \<longleftrightarrow> (\<exists>r'. served_as L E r r' \<and> effect L S E r r' w w')"

lemma effect_own: "own_write L S E r' (h_store w) (h_store w') \<Longrightarrow> effect L S E r r' w w'"
  unfolding own_write_def effect_def by blast

lemma effect_audited: "one_write L S E r' (h_store w) (h_store w') \<Longrightarrow> audited E r r' w w' \<Longrightarrow> effect L S E r r' w w'"
  unfolding one_write_def effect_def by blast

lemma effect_same [simp]: "h_store w' = h_store w \<Longrightarrow> effect L S E r r' w w'"
  by (simp add: effect_def)

lemma admin_writes:
  assumes "r_path r = r_path r0"
  shows "\<exists>q. effect L S E r0 (r\<lparr>r_path_values := q\<rparr>) w (RequireRole E ''admin'' (ServeMux (admin_routes L S E)) r w)"
proof (rule RequireRole_cases [of E "''admin''" "ServeMux (admin_routes L S E)" r w], goal_cases refused passed)
  case (passed c)
  let ?w = "audit E \<lparr>ev_Timestamp = [], ev_User = C_Subject c, ev_Role = ''admin'',
    ev_Action = ''ACCESS_ROLE_'' @ ''admin'', ev_Resource = r_path r, ev_Result = ''allow''\<rparr> w"
  show ?case unfolding passed(3)
  proof (rule ServeMux_cases [of "admin_routes L S E" r ?w], goal_cases own handler)
    case (handler pat h pvs)
    let ?r = "r\<lparr>r_path_values := pvs\<rparr>"
    have adm: "is_admin ?r" using passed(1,2) by (simp add: is_admin_def)
    from handler(1) have h: "h = admin_users_route L S E \<or> h = admin_user_route L S E" by (auto simp: admin_routes_def)
    then have "one_write L S E ?r (h_store w) (h_store (h ?r ?w))"
      using create_user_writes [OF adm, of L S E ?w] update_user_writes [OF adm, of L S E ?w]
        delete_user_writes [OF adm, of L S E ?w]
      by (elim disjE) (simp_all add: admin_users_route_def admin_user_route_def)
    moreover have "audited E r0 ?r w (h ?r ?w)"
      using h passed(1) assms by (elim disjE) (simp_all add: audited_def h_audit_admin_routes h_audit_audit)
    ultimately show ?case unfolding handler(3) by (intro exI [of _ pvs] effect_audited)
  qed simp
qed simp

lemma auth_writes:
  assumes "r_claims r = None"
    and "\<And>c. authenticated L E r c \<Longrightarrow>
      \<exists>q. effect L S E r (r\<lparr>r_claims := Some (Some c), r_path_values := q\<rparr>) w
        (h (r\<lparr>r_claims := Some (Some c), r_path_values := p\<rparr>) w)"
  shows "server_effect L S E r w (AuthMiddleware L E h (r\<lparr>r_path_values := p\<rparr>) w)"
proof (rule AuthMiddleware_cases [of L E h "r\<lparr>r_path_values := p\<rparr>" w], goal_cases refused passed)
  case refused
  with served_as_plain [OF assms(1), of L E "[]"] show ?case by (auto simp: server_effect_def)
next
  case (passed c)
  then have a: "authenticated L E r c" by simp
  from assms(2) [OF a] served_as_claims [OF a] show ?case
    unfolding passed(2) claims_path server_effect_def by blast
qed

lemma server_writes:
  assumes "r_claims r = None"
  shows "server_effect L S E r w (ServerHandler L S E r w)"
proof -
  let ?w = "w\<lparr>h_out := new_writer\<rparr>"
  have plain: "server_effect L S E r ?w v" if "effect L S E r (r\<lparr>r_path_values := p\<rparr>) ?w v" for p v
    using served_as_plain [OF assms] that by (auto simp: server_effect_def)
  let ?v = "ServeMux (main_routes L S E) r ?w" and ?u = "ServerHandler L S E r w"
  have "server_effect L S E r ?w (ServeMux (main_routes L S E) r ?w)"
  proof (rule ServeMux_cases [of "main_routes L S E" r ?w], goal_cases own handler)
    case (own f)
    then show ?case by (intro plain [of "[]"] effect_same) simp
  next
    case (handler pat h pvs)
    let ?r = "\<lambda>c. r\<lparr>r_claims := Some (Some c), r_path_values := pvs\<rparr>"
    from handler(1) consider "h = HealthHandler" | "h = LoginHandler L S E"
      | g where "h = AuthMiddleware L E g" "g = ServeMux (protected_routes E) \<or> g = MeHandler
          \<or> g = PasswordChangeHandler L S E \<or> g = sessions_route S E \<or> g = DeleteSessionHandler S E"
      | "h = AuthMiddleware L E (RequireRole E ''admin'' (ServeMux (admin_routes L S E)))"
      by (auto simp: main_routes_def Let_def)
    then show ?case unfolding handler(3)
    proof cases
      case (3 g)
      have "own_write L S E (?r c) (h_store ?w) (h_store (g (?r c) ?w))" for c
        using 3(2) password_writes [of L S E "?r c" ?w] delete_session_writes [of L S E "?r c" ?w]
          delete_all_writes [of L S E "?r c" ?w]
        by (auto simp: sessions_route_def)
      then show "server_effect L S E r ?w (h (r\<lparr>r_path_values := pvs\<rparr>) ?w)"
        unfolding 3(1) using assms effect_own by (intro auth_writes) blast+
    next
      case 4
      have "\<exists>q. effect L S E r (?r c\<lparr>r_path_values := q\<rparr>) ?w
          (RequireRole E ''admin'' (ServeMux (admin_routes L S E)) (?r c) ?w)" for c
        by (rule admin_writes) simp
      then show "server_effect L S E r ?w (h (r\<lparr>r_path_values := pvs\<rparr>) ?w)"
        unfolding 4 using assms by (intro auth_writes) simp_all
    next
      case 2
      show "server_effect L S E r ?w (h (r\<lparr>r_path_values := pvs\<rparr>) ?w)"
        unfolding 2 by (rule plain, rule effect_own, rule login_writes)
    qed (simp add: plain)
  qed
  then obtain r' where r': "served_as L E r r'" "effect L S E r r' ?w ?v" by (auto simp: server_effect_def)
  have "h_store ?u = h_store ?v" "h_audit ?u = h_audit ?v" by (simp_all add: ServerHandler_def RequestLogger_def Let_def)
  with r'(2) have "effect L S E r r' w ?u" by (auto simp: effect_def audited_def)
  with r'(1) show ?thesis by (auto simp: server_effect_def)
qed

end
