(* ===== verification/Durable_Store.thy ===== *)
theory Durable_Store
  imports Store_Calls
begin

text \<open>
  A weaker contract than \<open>store\<close>, for a store whose medium may fail at any moment: a call that writes, whatever it
  returns, has either done its work or changed nothing, and IDs are given out in ascending order and never twice. What a store
  holds is a \<open>content\<close>; \<open>written\<close> is the work of a call on it, and \<open>later\<close> how contents follow each other.
\<close>

section \<open>Contents\<close>

record content =
  users_of :: "int \<rightharpoonup> user"
  sessions_of :: "int \<rightharpoonup> session"
  last_user :: int
  last_session :: int

text \<open>Entries are filed under their IDs, which are at most the last ID given out; names and tokens are unique.\<close>

definition filed :: "('a \<Rightarrow> int) \<Rightarrow> ('a \<Rightarrow> string) \<Rightarrow> int \<Rightarrow> (int \<rightharpoonup> 'a) \<Rightarrow> bool" where
  "filed f g n m \<longleftrightarrow> (\<forall>i a. m i = Some a \<longrightarrow> f a = i \<and> 0 < i \<and> i \<le> n)
     \<and> (\<forall>i j a b. m i = Some a \<longrightarrow> m j = Some b \<longrightarrow> g a = g b \<longrightarrow> i = j)"

definition sound :: "content \<Rightarrow> bool" where
  "sound c \<longleftrightarrow> filed U_ID U_Username (last_user c) (users_of c) \<and> filed S_ID S_Token (last_session c) (sessions_of c)
     \<and> 0 \<le> last_user c \<and> 0 \<le> last_session c"

fun written :: "(instant \<Rightarrow> instant) \<Rightarrow> store_write \<Rightarrow> content \<Rightarrow> content \<Rightarrow> bool" where
  "written res (WCreateUser e n h r) c c' =
     (\<exists>i. last_user c < i \<and> (\<forall>u \<in> ran (users_of c). U_Username u \<noteq> n)
        \<and> c' = c\<lparr>users_of := (users_of c)(i \<mapsto> \<lparr>U_ID = i, U_Username = n, U_PasswordHash = h, U_Role = r,
                   U_CreatedAt = res (se_now e), U_UpdatedAt = res (se_now e)\<rparr>), last_user := i\<rparr>)"
| "written res (WUpdateUser e i n h r) c c' =
     (\<exists>u. users_of c i = Some u \<and> (\<forall>j v. users_of c j = Some v \<longrightarrow> U_Username v = n \<longrightarrow> j = i)
        \<and> c' = c\<lparr>users_of := (users_of c)(i \<mapsto>
            u\<lparr>U_Username := n, U_PasswordHash := h, U_Role := r, U_UpdatedAt := res (se_now e)\<rparr>)\<rparr>)"
| "written res (WDeleteUser i) c c' = (c' = c\<lparr>users_of := (users_of c)(i := None)\<rparr>)"
| "written res (WCreateSession e uid n r ttl) c c' =
     (\<exists>i b. se_rand e = Inr b \<and> last_session c < i \<and> (\<forall>x \<in> ran (sessions_of c). S_Token x \<noteq> EncodeToString b)
        \<and> c' = c\<lparr>sessions_of := (sessions_of c)(i \<mapsto> \<lparr>S_ID = i, S_UserID = uid, S_Username = n, S_Role = r,
                   S_Token = EncodeToString b, S_CreatedAt = res (se_now e), S_ExpiresAt = res (se_now e + ttl)\<rparr>),
                 last_session := i\<rparr>)"
| "written res (WDeleteSession i) c c' = (c' = c\<lparr>sessions_of := (sessions_of c)(i := None)\<rparr>)"
| "written res (WDeleteSessionsByUserID e uid t) c c' =
     (c' = c\<lparr>sessions_of := (\<lambda>i. case sessions_of c i of None \<Rightarrow> None
          | Some x \<Rightarrow> if S_UserID x = uid \<and> S_Token x \<noteq> t then None else Some x)\<rparr>)"

text \<open>Later contents: a user that was there before keeps its creation time, a session is the same, and what is new has
  an ID above all the earlier ones.\<close>

definition later :: "content \<Rightarrow> content \<Rightarrow> bool" where
  "later c c' \<longleftrightarrow> last_user c \<le> last_user c' \<and> last_session c \<le> last_session c'
     \<and> (\<forall>i u. users_of c' i = Some u \<longrightarrow> i \<le> last_user c \<longrightarrow>
           (\<exists>v. users_of c i = Some v \<and> U_CreatedAt v = U_CreatedAt u))
     \<and> (\<forall>i x. sessions_of c' i = Some x \<longrightarrow> i \<le> last_session c \<longrightarrow> sessions_of c i = Some x)"

lemma later_same [simp]: "later c c"
  by (simp add: later_def)

lemma laterD:
  assumes "later c c'"
  shows "last_user c \<le> last_user c'" "last_session c \<le> last_session c'"
    and "users_of c' i = Some u \<Longrightarrow> i \<le> last_user c \<Longrightarrow> \<exists>v. users_of c i = Some v \<and> U_CreatedAt v = U_CreatedAt u"
    and "sessions_of c' i = Some x \<Longrightarrow> i \<le> last_session c \<Longrightarrow> sessions_of c i = Some x"
  using assms unfolding later_def by blast+

lemma laterI:
  assumes "last_user c \<le> last_user c'" "last_session c \<le> last_session c'"
    and "\<And>i u. users_of c' i = Some u \<Longrightarrow> i \<le> last_user c \<Longrightarrow> \<exists>v. users_of c i = Some v \<and> U_CreatedAt v = U_CreatedAt u"
    and "\<And>i x. sessions_of c' i = Some x \<Longrightarrow> i \<le> last_session c \<Longrightarrow> sessions_of c i = Some x"
  shows "later c c'"
  unfolding later_def using assms by blast

lemma later_trans:
  assumes "later c c'" "later c' c''" shows "later c c''"
proof (rule laterI)
  show "last_user c \<le> last_user c''" "last_session c \<le> last_session c''"
    using laterD(1,2) [OF assms(1)] laterD(1,2) [OF assms(2)] by simp_all
  show "\<exists>v. users_of c i = Some v \<and> U_CreatedAt v = U_CreatedAt u"
    if "users_of c'' i = Some u" "i \<le> last_user c" for i u
    using laterD(3) [OF assms(2) that(1)] laterD(3) [OF assms(1)] laterD(1) [OF assms(1)] that(2) by fastforce
  show "sessions_of c i = Some x" if "sessions_of c'' i = Some x" "i \<le> last_session c" for i x
    using laterD(4) [OF assms(2) that(1)] laterD(4) [OF assms(1)] laterD(2) [OF assms(1)] that(2) by fastforce
qed

lemma filedD:
  "filed f g n m \<Longrightarrow> m i = Some a \<Longrightarrow> f a = i \<and> 0 < i \<and> i \<le> n"
  "filed f g n m \<Longrightarrow> m i = Some a \<Longrightarrow> m j = Some b \<Longrightarrow> g a = g b \<Longrightarrow> i = j"
  unfolding filed_def by blast+

lemma filed_new:
  assumes "filed f g n m" "0 \<le> n" "n < i" "f a = i" "\<forall>b \<in> ran m. g b \<noteq> g a"
  shows "filed f g i (m(i \<mapsto> a))"
proof -
  have old: "f b = j \<and> 0 < j \<and> j \<le> i \<and> g b \<noteq> g a \<and> g a \<noteq> g b" if "m j = Some b" for j b
    using filedD(1) [OF assms(1) that] assms(3,5) ranI [of m j b, OF that] by auto
  show ?thesis
    unfolding filed_def using assms(2-4) old filedD(2) [OF assms(1)] by (auto split: if_splits)
qed

lemma filed_change:
  assumes "filed f g n m" "m i = Some b" "f a = i" "\<forall>j c. m j = Some c \<longrightarrow> g c = g a \<longrightarrow> j = i"
  shows "filed f g n (m(i \<mapsto> a))"
  using assms by (auto simp: filed_def)

lemma filed_sub: "filed f g n m \<Longrightarrow> (\<And>i a. m' i = Some a \<Longrightarrow> m i = Some a) \<Longrightarrow> filed f g n m'"
  unfolding filed_def by blast

lemma sound_users:
  "sound c \<Longrightarrow> filed U_ID U_Username n m \<Longrightarrow> 0 \<le> n \<Longrightarrow> sound (c\<lparr>users_of := m, last_user := n\<rparr>)"
  "sound c \<Longrightarrow> filed U_ID U_Username (last_user c) m \<Longrightarrow> sound (c\<lparr>users_of := m\<rparr>)"
  by (simp_all add: sound_def)

lemma sound_sessions:
  "sound c \<Longrightarrow> filed S_ID S_Token n m \<Longrightarrow> 0 \<le> n \<Longrightarrow> sound (c\<lparr>sessions_of := m, last_session := n\<rparr>)"
  "sound c \<Longrightarrow> filed S_ID S_Token (last_session c) m \<Longrightarrow> sound (c\<lparr>sessions_of := m\<rparr>)"
  by (simp_all add: sound_def)

lemma soundD:
  "sound c \<Longrightarrow> filed U_ID U_Username (last_user c) (users_of c)"
  "sound c \<Longrightarrow> filed S_ID S_Token (last_session c) (sessions_of c)"
  "sound c \<Longrightarrow> 0 \<le> last_user c" "sound c \<Longrightarrow> 0 \<le> last_session c"
  by (simp_all add: sound_def)

lemma written_sound:
  assumes "sound c" "written res w c c'" shows "sound c'"
proof (cases w)
  case (WCreateUser e n h r)
  with assms(2) obtain i where "last_user c < i" "\<forall>u \<in> ran (users_of c). U_Username u \<noteq> n"
    "c' = c\<lparr>users_of := (users_of c)(i \<mapsto> \<lparr>U_ID = i, U_Username = n, U_PasswordHash = h, U_Role = r,
                   U_CreatedAt = res (se_now e), U_UpdatedAt = res (se_now e)\<rparr>), last_user := i\<rparr>" by auto
  with soundD(1,3) [OF assms(1)] show ?thesis by (simp add: sound_users(1) [OF assms(1)] filed_new)
next
  case (WUpdateUser e i n h r)
  with assms(2) obtain u where u: "users_of c i = Some u" "\<forall>j v. users_of c j = Some v \<longrightarrow> U_Username v = n \<longrightarrow> j = i"
    "c' = c\<lparr>users_of := (users_of c)(i \<mapsto> u\<lparr>U_Username := n, U_PasswordHash := h, U_Role := r, U_UpdatedAt := res (se_now e)\<rparr>)\<rparr>"
    by auto
  from filedD(1) [OF soundD(1) [OF assms(1)] u(1)] have "U_ID u = i" by blast
  with u show ?thesis by (simp add: sound_users(2) [OF assms(1)] filed_change [OF soundD(1) [OF assms(1)] u(1)])
next
  case (WDeleteUser i)
  have "filed U_ID U_Username (last_user c) ((users_of c)(i := None))"
    by (rule filed_sub [OF soundD(1) [OF assms(1)]]) (simp split: if_splits)
  with assms WDeleteUser show ?thesis by (simp add: sound_users(2))
next
  case (WCreateSession e uid n r ttl)
  with assms(2) obtain i b where "last_session c < i" "\<forall>x \<in> ran (sessions_of c). S_Token x \<noteq> EncodeToString b"
    "c' = c\<lparr>sessions_of := (sessions_of c)(i \<mapsto> \<lparr>S_ID = i, S_UserID = uid, S_Username = n, S_Role = r,
                   S_Token = EncodeToString b, S_CreatedAt = res (se_now e), S_ExpiresAt = res (se_now e + ttl)\<rparr>),
                 last_session := i\<rparr>" by auto
  with soundD(2,4) [OF assms(1)] show ?thesis by (simp add: sound_sessions(1) [OF assms(1)] filed_new)
next
  case (WDeleteSession i)
  have "filed S_ID S_Token (last_session c) ((sessions_of c)(i := None))"
    by (rule filed_sub [OF soundD(2) [OF assms(1)]]) (simp split: if_splits)
  with assms WDeleteSession show ?thesis by (simp add: sound_sessions(2))
next
  case (WDeleteSessionsByUserID e uid t)
  have "filed S_ID S_Token (last_session c) (\<lambda>i. case sessions_of c i of None \<Rightarrow> None
          | Some x \<Rightarrow> if S_UserID x = uid \<and> S_Token x \<noteq> t then None else Some x)"
    by (rule filed_sub [OF soundD(2) [OF assms(1)]]) (simp split: option.splits if_splits)
  with assms WDeleteSessionsByUserID show ?thesis by (simp add: sound_sessions(2))
qed

lemma written_later: "written res w c c' \<Longrightarrow> later c c'"
  by (cases w) (auto intro!: laterI split: option.splits if_splits)

text \<open>What is gone stays gone.\<close>

lemma gone:
  assumes "sound c" "later c c'" "later c' c''"
  shows "users_of c i = Some u \<Longrightarrow> users_of c' i = None \<Longrightarrow> users_of c'' i = None"
    and "sessions_of c i = Some x \<Longrightarrow> sessions_of c' i = None \<Longrightarrow> sessions_of c'' i = None"
proof -
  note bound = laterD(1,2) [OF assms(2)]
  show "users_of c'' i = None" if "users_of c i = Some u" "users_of c' i = None"
    using that bound(1) assms(1) laterD(3) [OF assms(3), of i]
    by (cases "users_of c'' i") (fastforce simp: sound_def dest!: filedD(1))+
  show "sessions_of c'' i = None" if "sessions_of c i = Some x" "sessions_of c' i = None"
    using that bound(2) assms(1) laterD(4) [OF assms(3), of i]
    by (cases "sessions_of c'' i") (fastforce simp: sound_def dest!: filedD(1))+
qed

section \<open>The contract\<close>

locale durable_store =
  fixes S :: "'s store_ops"
    and wf :: "'s \<Rightarrow> bool"
    and repr :: "instant \<Rightarrow> bool"
    and res :: "instant \<Rightarrow> instant"
    and content_of :: "'s \<Rightarrow> content"
  assumes wf_sound: "wf s \<Longrightarrow> sound (content_of s)"
    and wf_write: "wf s \<Longrightarrow> timely repr w \<Longrightarrow> wf (write_call S w s)"
    and writes: "wf s \<Longrightarrow> timely repr w \<Longrightarrow> content_of (write_call S w s) = content_of s
      \<or> written res w (content_of s) (content_of (write_call S w s))"
    and reads_user: "wf s \<Longrightarrow> GetUser S i s = Inr u \<Longrightarrow> users_of (content_of s) i = Some u"
    and reads_name: "wf s \<Longrightarrow> GetUserByUsername S e n s = Inr u \<Longrightarrow>
      users_of (content_of s) (U_ID u) = Some u \<and> U_Username u = n"
    and reads_session: "wf s \<Longrightarrow> GetSessionByID S i s = Inr x \<Longrightarrow> sessions_of (content_of s) i = Some x"
begin

lemma write_later: "wf s \<Longrightarrow> timely repr w \<Longrightarrow> later (content_of s) (content_of (write_call S w s))"
  using writes [of s w] written_later by force

end

end
