(* ===== verification/Histories.thy ===== *)
theory Histories
  imports Durable_Store
begin

text \<open>
  Requests are served concurrently, and only a single call of the store is atomic. Every handler looks up first and
  writes at most once, at the end: a request therefore is a step of the store at the moment of its write, whose
  lookups were answered by earlier states (\<open>overtaken\<close>). \<open>interleaved\<close> are all histories of such steps. The lemmas,
  for any \<open>durable_store\<close>, say what every history keeps and what each step of one may do.
\<close>

section \<open>Overtaken requests\<close>

lemma write_call_overtaken [simp]: "write_call (overtaken s t S) w = write_call S w"
  by (rule ext) (cases w; simp)

lemma found_overtaken [simp]: "found (overtaken s t S) E r s' u = found S E r s u"
  by (simp add: found_def)

section \<open>Histories\<close>

record ('s, 'l) served =
  st_env :: reqenv
  st_request :: request
  st_first :: 's
  st_second :: 's
  st_before :: "('s, 'l) world"
  st_after :: "('s, 'l) world"

definition states :: "'s \<Rightarrow> ('s, 'l) served list \<Rightarrow> 's list" where
  "states s h = s # map (\<lambda>st. h_store (st_after st)) h"

text \<open>The steps in the order of their writes. What the other requests do to the limiter, the audit file and the logs
  between two steps is left open.\<close>

inductive interleaved ::
  "'l libs \<Rightarrow> 's store_ops \<Rightarrow> (reqenv \<Rightarrow> bool) \<Rightarrow> 's \<Rightarrow> ('s, 'l) served list \<Rightarrow> bool" for L S ok s0 where
  Start: "interleaved L S ok s0 []"
| Serve: "interleaved L S ok s0 h \<Longrightarrow> ok E \<Longrightarrow> i \<le> j \<Longrightarrow> j \<le> length h \<Longrightarrow>
    s = states s0 h ! i \<Longrightarrow> t = states s0 h ! j \<Longrightarrow> h_store w = last (states s0 h) \<Longrightarrow>
    interleaved L S ok s0 (h @ [\<lparr>st_env = E, st_request = r, st_first = s, st_second = t, st_before = w,
      st_after = ServerHandler L (overtaken s t S) E (incoming r) w\<rparr>])"

inductive_cases interleaved_snocE: "interleaved L S ok s0 (h @ [st])"

lemma states_simps [simp]:
  "states s [] = [s]" "states s (h @ [st]) = states s h @ [h_store (st_after st)]" "length (states s h) = Suc (length h)"
  "states s h \<noteq> []" "states s h ! 0 = s"
  by (simp_all add: states_def)

lemma states_prefix: "k \<le> length h \<Longrightarrow> states s (h @ h') ! k = states s h ! k"
  by (simp add: states_def nth_append nth_Cons split: nat.split)

text \<open>One step of a history.\<close>

definition overtaken_step ::
  "'l libs \<Rightarrow> 's store_ops \<Rightarrow> (reqenv \<Rightarrow> bool) \<Rightarrow> ('s, 'l) served \<Rightarrow> bool" where
  "overtaken_step L S ok st \<longleftrightarrow> ok (st_env st)
     \<and> st_after st = ServerHandler L (overtaken (st_first st) (st_second st) S) (st_env st)
         (incoming (st_request st)) (st_before st)"

lemma interleaved_nth:
  assumes "interleaved L S ok s0 h" "k < length h"
  shows "overtaken_step L S ok (h ! k)
    \<and> h_store (st_before (h ! k)) = states s0 h ! k \<and> h_store (st_after (h ! k)) = states s0 h ! Suc k
    \<and> (\<exists>i j. i \<le> j \<and> j \<le> k \<and> st_first (h ! k) = states s0 h ! i \<and> st_second (h ! k) = states s0 h ! j)"
  using assms
proof (induction rule: interleaved.induct)
  case (Serve h E i j s t w r)
  let ?st = "\<lparr>st_env = E, st_request = r, st_first = s, st_second = t, st_before = w,
      st_after = ServerHandler L (overtaken s t S) E (incoming r) w\<rparr>"
  show ?case
  proof (cases "k < length h")
    case True
    then have n: "(h @ [?st]) ! k = h ! k" by (simp add: nth_append)
    from Serve.IH [OF True] obtain i j where ij: "i \<le> j" "j \<le> k" "st_first (h ! k) = states s0 h ! i"
      "st_second (h ! k) = states s0 h ! j" by blast
    have "\<exists>i j. i \<le> j \<and> j \<le> k \<and> st_first (h ! k) = states s0 (h @ [?st]) ! i \<and> st_second (h ! k) = states s0 (h @ [?st]) ! j"
      by (rule exI [of _ i], rule exI [of _ j]) (use ij True in \<open>simp add: states_prefix del: states_simps(2)\<close>)
    with Serve.IH [OF True] True show ?thesis
      unfolding n by (simp add: states_prefix del: states_simps(2))
  next
    case False
    with Serve.prems have k: "k = length h" by simp
    have "last (states s0 h) = states s0 h ! length h" by (simp add: last_conv_nth)
    moreover have "\<exists>i j. i \<le> j \<and> j \<le> k \<and> s = states s0 (h @ [?st]) ! i \<and> t = states s0 (h @ [?st]) ! j"
      by (rule exI [of _ i], rule exI [of _ j]) (use Serve.hyps k in \<open>simp add: states_prefix del: states_simps(2)\<close>)
    ultimately show ?thesis
      using Serve.hyps(2,7) unfolding k by (simp add: overtaken_step_def nth_append)
  qed
qed simp

section \<open>What a history keeps\<close>

text \<open>A step is one justified write on the state it finds, or changes nothing.\<close>

definition step_effect ::
  "(instant \<Rightarrow> instant) \<Rightarrow> ('s \<Rightarrow> content) \<Rightarrow> 'l libs \<Rightarrow> 's store_ops \<Rightarrow> ('s, 'l) served \<Rightarrow> request \<Rightarrow> store_write \<Rightarrow> bool" where
  "step_effect res content_of L S st r' w \<longleftrightarrow> served_as L (st_env st) (incoming (st_request st)) r'
     \<and> justified L (overtaken (st_first st) (st_second st) S) (st_env st) r' (h_store (st_before st)) w
     \<and> written res w (content_of (h_store (st_before st))) (content_of (h_store (st_after st)))
     \<and> (by_admin L (overtaken (st_first st) (st_second st) S) (st_env st) r' (h_store (st_before st)) w \<longrightarrow>
         audited (st_env st) (incoming (st_request st)) r' (st_before st) (st_after st))"

text \<open>The audit line of an administrator's request, unless the file could not be written.\<close>

definition recorded :: "claims \<Rightarrow> ('s, 'l) served \<Rightarrow> bool" where
  "recorded c st \<longleftrightarrow> (audit_fault (st_env st) = None \<longrightarrow> h_audit (st_after st) = h_audit (st_before st) @
     [\<lparr>ev_Timestamp = Format (t_audit (st_env st)), ev_User = C_Subject c, ev_Role = ''admin'',
       ev_Action = ''ACCESS_ROLE_admin'', ev_Resource = r_path (st_request st), ev_Result = ''allow''\<rparr>])"

context durable_store begin

lemma step_cases:
  assumes "overtaken_step L S (good_env repr) st" "wf (h_store (st_before st))"
  obtains (same) "content_of (h_store (st_after st)) = content_of (h_store (st_before st))" "wf (h_store (st_after st))"
  | (wrote) r' w where "step_effect res content_of L S st r' w" "wf (h_store (st_after st))"
proof -
  let ?S = "overtaken (st_first st) (st_second st) S" and ?s = "h_store (st_before st)"
  have after: "st_after st = ServerHandler L ?S (st_env st) (incoming (st_request st)) (st_before st)"
    and ok: "good_env repr (st_env st)"
    using assms(1) by (simp_all add: overtaken_step_def)
  from server_writes [of "incoming (st_request st)" L ?S "st_env st" "st_before st"]
  obtain r' where r': "served_as L (st_env st) (incoming (st_request st)) r'"
    and one: "effect L ?S (st_env st) (incoming (st_request st)) r' (st_before st) (st_after st)"
    unfolding after [symmetric] server_effect_def by (auto simp: incoming_def)
  from one consider "h_store (st_after st) = ?s"
    | w where "justified L ?S (st_env st) r' ?s w" "h_store (st_after st) = write_call S w ?s"
        "by_admin L ?S (st_env st) r' ?s w \<longrightarrow> audited (st_env st) (incoming (st_request st)) r' (st_before st) (st_after st)"
    by (auto simp: effect_def)
  then show thesis
  proof cases
    case 1
    with assms(2) show ?thesis by (intro same) simp_all
  next
    case (2 w)
    note t = justified_timely [OF ok 2(1)]
    have "wf (h_store (st_after st))" unfolding 2(2) by (rule wf_write [OF assms(2) t])
    with writes [OF assms(2) t] 2 r' same wrote show ?thesis
      unfolding step_effect_def by metis
  qed
qed

lemma step_later:
  assumes "overtaken_step L S (good_env repr) st" "wf (h_store (st_before st))"
  shows "wf (h_store (st_after st)) \<and> later (content_of (h_store (st_before st))) (content_of (h_store (st_after st)))"
  by (rule step_cases [OF assms]) (auto simp: step_effect_def intro: written_later)

lemma interleaved_later:
  assumes "interleaved L S (good_env repr) s0 h" "wf s0"
  shows "(\<forall>s \<in> set (states s0 h). wf s) \<and> sorted_wrt (\<lambda>s t. later (content_of s) (content_of t)) (states s0 h)"
  using assms
proof (induction rule: interleaved.induct)
  case (Serve h E i j s t w r)
  let ?st = "\<lparr>st_env = E, st_request = r, st_first = s, st_second = t, st_before = w,
      st_after = ServerHandler L (overtaken s t S) E (incoming r) w\<rparr>"
  from Serve.IH [OF Serve.prems] have wf: "\<forall>s \<in> set (states s0 h). wf s"
    and sorted: "sorted_wrt (\<lambda>s t. later (content_of s) (content_of t)) (states s0 h)" by auto
  have "overtaken_step L S (good_env repr) ?st" using Serve.hyps(2) by (simp add: overtaken_step_def)
  moreover have "wf (h_store (st_before ?st))" using wf Serve.hyps(7) last_in_set [OF states_simps(4)] by simp
  ultimately have new: "wf (h_store (st_after ?st))" "later (content_of (h_store w)) (content_of (h_store (st_after ?st)))"
    using step_later by fastforce+
  have "later (content_of u) (content_of (h_store w))" if "u \<in> set (states s0 h)" for u
  proof -
    from append_butlast_last_id [OF states_simps(4), of s0 h] Serve.hyps(7)
    have st: "states s0 h = butlast (states s0 h) @ [h_store w]" by simp
    from sorted have "sorted_wrt (\<lambda>s t. later (content_of s) (content_of t)) (butlast (states s0 h) @ [h_store w])"
      by (subst (asm) st)
    moreover from that have "u \<in> set (butlast (states s0 h) @ [h_store w])" by (subst (asm) st)
    ultimately show ?thesis by (auto simp: sorted_wrt_append)
  qed
  with new wf sorted show ?case by (auto simp: sorted_wrt_append intro: later_trans)
qed simp

lemma states_later:
  assumes "interleaved L S (good_env repr) s0 h" "wf s0" "i \<le> j" "j \<le> length h"
  shows "wf (states s0 h ! i)" "later (content_of (states s0 h ! i)) (content_of (states s0 h ! j))"
proof -
  note all = interleaved_later [OF assms(1,2)]
  show "wf (states s0 h ! i)" using all assms(3,4) by (simp add: less_Suc_eq_le)
  show "later (content_of (states s0 h ! i)) (content_of (states s0 h ! j))"
    using sorted_wrt_nth_less [OF conjunct2 [OF all], of i j] assms(3,4) by (cases "i = j") auto
qed

text \<open>The step from state \<open>k\<close> to the next one.\<close>

lemma history_step:
  assumes "interleaved L S (good_env repr) s0 h" "wf s0" "k < length h"
  obtains (same) "content_of (states s0 h ! Suc k) = content_of (states s0 h ! k)"
  | (wrote) r' w i j where "i \<le> j" "j \<le> k" "st_first (h ! k) = states s0 h ! i" "st_second (h ! k) = states s0 h ! j"
      "served_as L (st_env (h ! k)) (incoming (st_request (h ! k))) r'"
      "justified L (overtaken (states s0 h ! i) (states s0 h ! j) S) (st_env (h ! k)) r' (states s0 h ! k) w"
      "written res w (content_of (states s0 h ! k)) (content_of (states s0 h ! Suc k))"
      "by_admin L (overtaken (states s0 h ! i) (states s0 h ! j) S) (st_env (h ! k)) r' (states s0 h ! k) w \<longrightarrow>
        audited (st_env (h ! k)) (incoming (st_request (h ! k))) r' (st_before (h ! k)) (st_after (h ! k))"
proof -
  from interleaved_nth [OF assms(1,3)] obtain i j where n: "overtaken_step L S (good_env repr) (h ! k)"
    "h_store (st_before (h ! k)) = states s0 h ! k" "h_store (st_after (h ! k)) = states s0 h ! Suc k"
    "i \<le> j" "j \<le> k" "st_first (h ! k) = states s0 h ! i" "st_second (h ! k) = states s0 h ! j" by blast
  have wf: "wf (h_store (st_before (h ! k)))"
    unfolding n(2) using assms(3) by (intro states_later(1) [OF assms(1,2), of k k]) simp_all
  show thesis
    by (rule step_cases [OF n(1) wf]) (use same wrote n(2-) in \<open>auto simp: step_effect_def\<close>)
qed

lemma first_found:
  assumes "interleaved L S (good_env repr) s0 h" "wf s0" "i \<le> length h"
    and "served_as L E r r'" "found S E r' (states s0 h ! i) u"
  shows "\<exists>c. authenticated L E r c \<and> users_of (content_of (states s0 h ! i)) (U_ID u) = Some u \<and> U_Username u = C_Username c"
proof -
  from assms(5) obtain c where c: "request_claims r' = Some c"
    "GetUserByUsername S (store_env E 0) (C_Username c) (states s0 h ! i) = Inr u" by (auto simp: found_def)
  from reads_name [OF states_later(1) [OF assms(1,2) order_refl assms(3)] c(2)] c(1) assms(4) show ?thesis
    by (auto simp: served_as_def)
qed

lemma served_as_credentials:
  "served_as L E r r' \<Longrightarrow> credentials r' n pw = credentials r n pw"
  "served_as L E r r' \<Longrightarrow> password_request r' n pw = password_request r n pw"
  by (auto simp: served_as_def credentials_def password_request_def Header_Get_def)

lemma served_as_recorded:
  assumes "served_as L (st_env st) (incoming (st_request st)) r'" "is_admin r'"
    and "audited (st_env st) (incoming (st_request st)) r' (st_before st) (st_after st)"
  shows "\<exists>c. authenticated L (st_env st) (incoming (st_request st)) c \<and> C_Role c = ''admin'' \<and> recorded c st"
  using assms by (auto simp: served_as_def is_admin_def audited_def recorded_def incoming_def)

lemma session_closed:
  assumes h: "interleaved L S (good_env repr) s0 h" "wf s0" and k: "k < length h"
    and x: "sessions_of (content_of (states s0 h ! k)) n = Some x"
    and gone: "sessions_of (content_of (states s0 h ! Suc k)) n \<noteq> Some x"
  shows "\<exists>c u. authenticated L (st_env (h ! k)) (incoming (st_request (h ! k))) c
    \<and> users_of (content_of (st_first (h ! k))) (U_ID u) = Some u \<and> U_Username u = C_Username c \<and> S_UserID x = U_ID u"
proof (rule history_step [OF h k])
  assume "content_of (states s0 h ! Suc k) = content_of (states s0 h ! k)"
  with x gone show ?thesis by simp
next
  fix r' w i j
  assume ij: "i \<le> j" "j \<le> k" "st_first (h ! k) = states s0 h ! i" "st_second (h ! k) = states s0 h ! j"
    and r': "served_as L (st_env (h ! k)) (incoming (st_request (h ! k))) r'"
    and J: "justified L (overtaken (states s0 h ! i) (states s0 h ! j) S) (st_env (h ! k)) r' (states s0 h ! k) w"
    and W: "written res w (content_of (states s0 h ! k)) (content_of (states s0 h ! Suc k))"
  have le: "i \<le> length h" "j \<le> length h" "k \<le> length h" using ij k by simp_all
  note F = first_found [OF h le(1) r', folded ij(3)]
  have ids: "n \<le> last_session (content_of (states s0 h ! k))"
    using filedD(1) [OF soundD(2) [OF wf_sound [OF states_later(1) [OF h order_refl le(3)]]] x] by simp
  show ?thesis
  proof (cases w)
    case (WDeleteSession m)
    with J obtain u y where u: "found S (st_env (h ! k)) r' (states s0 h ! i) u"
      "GetSessionByID S m (states s0 h ! j) = Inr y" "S_UserID y = U_ID u" by auto
    have y: "sessions_of (content_of (states s0 h ! j)) m = Some y"
      by (rule reads_session [OF states_later(1) [OF h order_refl le(2)] u(2)])
    have "m = n" using W x gone WDeleteSession by (auto split: if_splits)
    moreover have "m \<le> last_session (content_of (states s0 h ! j))"
      using filedD(1) [OF soundD(2) [OF wf_sound [OF states_later(1) [OF h order_refl le(2)]]] y] by simp
    ultimately have "x = y" using laterD(4) [OF states_later(2) [OF h ij(2) le(3)]] x y by fastforce
    with u(3) F [folded ij(3), OF u(1) [folded ij(3)]] show ?thesis by blast
  next
    case (WDeleteSessionsByUserID e uid t)
    with J obtain u where u: "found S (st_env (h ! k)) r' (states s0 h ! i) u" "uid = U_ID u" by auto
    have "S_UserID x = uid" using W x gone WDeleteSessionsByUserID by (auto split: if_splits)
    with u(2) F [OF u(1) [folded ij(3)]] show ?thesis by blast
  qed (use W x gone ids in \<open>auto split: if_splits\<close>)
qed

lemma session_opened:
  assumes h: "interleaved L S (good_env repr) s0 h" "wf s0" and k: "k < length h"
    and none: "sessions_of (content_of (states s0 h ! k)) n = None"
    and x: "sessions_of (content_of (states s0 h ! Suc k)) n = Some x"
  shows "\<exists>u pw. users_of (content_of (st_first (h ! k))) (U_ID u) = Some u \<and> S_UserID x = U_ID u
    \<and> S_Username x = U_Username u \<and> S_Role x = U_Role u \<and> credentials (incoming (st_request (h ! k))) (U_Username u) pw
    \<and> bcrypt_CompareHashAndPassword L (U_PasswordHash u) pw"
proof (rule history_step [OF h k])
  assume "content_of (states s0 h ! Suc k) = content_of (states s0 h ! k)"
  with x none show ?thesis by simp
next
  fix r' w i j
  assume ij: "i \<le> j" "j \<le> k" "st_first (h ! k) = states s0 h ! i" "st_second (h ! k) = states s0 h ! j"
    and r': "served_as L (st_env (h ! k)) (incoming (st_request (h ! k))) r'"
    and J: "justified L (overtaken (states s0 h ! i) (states s0 h ! j) S) (st_env (h ! k)) r' (states s0 h ! k) w"
    and W: "written res w (content_of (states s0 h ! k)) (content_of (states s0 h ! Suc k))"
  show ?thesis
  proof (cases w)
    case (WCreateSession e uid a ro ttl)
    with J obtain u name pw where u: "credentials r' name pw" "bcrypt_CompareHashAndPassword L (U_PasswordHash u) pw"
      "GetUserByUsername S (store_env (st_env (h ! k)) 0) name (states s0 h ! i) = Inr u"
      "uid = U_ID u" "a = U_Username u" "ro = U_Role u" by auto
    have i: "i \<le> length h" using ij k by simp
    from reads_name [OF states_later(1) [OF h order_refl i] u(3)]
    have "users_of (content_of (states s0 h ! i)) (U_ID u) = Some u" "U_Username u = name" by simp_all
    moreover have "S_UserID x = uid \<and> S_Username x = a \<and> S_Role x = ro"
      using W none x WCreateSession by (auto split: if_splits)
    ultimately show ?thesis using u r' ij(3) by (auto simp: served_as_credentials)
  qed (use W x none in \<open>auto split: if_splits option.splits\<close>)
qed

lemma users_changed:
  assumes h: "interleaved L S (good_env repr) s0 h" "wf s0" and k: "k < length h"
    and diff: "users_of (content_of (states s0 h ! Suc k)) \<noteq> users_of (content_of (states s0 h ! k))"
  shows "\<exists>c. authenticated L (st_env (h ! k)) (incoming (st_request (h ! k))) c \<and> (C_Role c = ''admin'' \<and> recorded c (h ! k) \<or>
    (\<exists>u current new g t v. users_of (content_of (st_first (h ! k))) (U_ID u) = Some u \<and> U_Username u = C_Username c
      \<and> password_request (incoming (st_request (h ! k))) current new \<and> bcrypt_CompareHashAndPassword L (U_PasswordHash u) current
      \<and> users_of (content_of (states s0 h ! k)) (U_ID u) = Some v
      \<and> users_of (content_of (states s0 h ! Suc k)) = (users_of (content_of (states s0 h ! k)))(U_ID u \<mapsto>
          v\<lparr>U_Username := U_Username u, U_PasswordHash := g, U_Role := U_Role u, U_UpdatedAt := t\<rparr>)))"
proof (rule history_step [OF h k])
  assume "content_of (states s0 h ! Suc k) = content_of (states s0 h ! k)"
  with diff show ?thesis by simp
next
  fix r' w i j
  assume ij: "i \<le> j" "j \<le> k" "st_first (h ! k) = states s0 h ! i" "st_second (h ! k) = states s0 h ! j"
    and r': "served_as L (st_env (h ! k)) (incoming (st_request (h ! k))) r'"
    and J: "justified L (overtaken (states s0 h ! i) (states s0 h ! j) S) (st_env (h ! k)) r' (states s0 h ! k) w"
    and W: "written res w (content_of (states s0 h ! k)) (content_of (states s0 h ! Suc k))"
    and A: "by_admin L (overtaken (states s0 h ! i) (states s0 h ! j) S) (st_env (h ! k)) r' (states s0 h ! k) w \<longrightarrow>
      audited (st_env (h ! k)) (incoming (st_request (h ! k))) r' (st_before (h ! k)) (st_after (h ! k))"
  have i: "i \<le> length h" using ij k by simp
  have admin: ?thesis if "is_admin r'"
      "by_admin L (overtaken (states s0 h ! i) (states s0 h ! j) S) (st_env (h ! k)) r' (states s0 h ! k) w"
    using served_as_recorded [OF r' that(1)] A that(2) by blast
  show ?thesis
  proof (cases w)
    case (WUpdateUser e n a g ro)
    with J consider "is_admin r'" "by_admin L (overtaken (states s0 h ! i) (states s0 h ! j) S) (st_env (h ! k)) r' (states s0 h ! k) w"
      | u current new where "found S (st_env (h ! k)) r' (states s0 h ! i) u" "password_request r' current new"
          "bcrypt_CompareHashAndPassword L (U_PasswordHash u) current" "n = U_ID u" "a = U_Username u" "ro = U_Role u"
      by (auto simp: own_password_call_def edit_call_def)
    then show ?thesis
    proof cases
      case (2 u current new)
      from W obtain v where "users_of (content_of (states s0 h ! k)) n = Some v"
        "users_of (content_of (states s0 h ! Suc k)) = (users_of (content_of (states s0 h ! k)))(n \<mapsto>
          v\<lparr>U_Username := a, U_PasswordHash := g, U_Role := ro, U_UpdatedAt := res (se_now e)\<rparr>)"
        unfolding WUpdateUser by auto
      with 2 first_found [OF h i r' 2(1)] served_as_credentials(2) [OF r'] show ?thesis
        unfolding ij(3) by blast
    qed (rule admin)
  qed (use J W diff admin in auto)
qed

text \<open>Roles that an administrator gave stay valid: a password change can bring an earlier role back, but no other one.\<close>

lemma history_roles:
  assumes h: "interleaved L S (good_env repr) s0 h" "wf s0"
    and start: "\<forall>u \<in> ran (users_of (content_of s0)). valid_role (U_Role u)"
  shows "k \<le> length h \<Longrightarrow> \<forall>u \<in> ran (users_of (content_of (states s0 h ! k))). valid_role (U_Role u)"
proof (induction k rule: less_induct)
  case (less k)
  show ?case
  proof (cases k)
    case 0
    with start show ?thesis by simp
  next
    case (Suc m)
    then have m: "m < length h" "m < k" "m \<le> length h" using less.prems by simp_all
    have IH: "valid_role (U_Role u)" if "users_of (content_of (states s0 h ! m)) n = Some u" for n u
      using less.IH [OF m(2,3)] that by (blast intro: ranI)
    show ?thesis
    proof (rule history_step [OF h m(1)], goal_cases)
      case 1
      then show ?thesis by (auto simp: Suc ran_def intro: IH)
    next
      case (2 r' w i j)
      have i: "i \<le> length h" "i < k" using 2 m by simp_all
      have old: "valid_role (U_Role u)" if "users_of (content_of (states s0 h ! i)) n = Some u" for n u
        using less.IH [OF i(2,1)] that by (blast intro: ranI)
      have read: "users_of (content_of (states s0 h ! i)) (U_ID u) = Some u" if "found S E r' (states s0 h ! i) u" for E u
        using that reads_name [OF states_later(1) [OF h order_refl i(1)]] by (auto simp: found_def)
      show ?thesis
      proof (cases w)
        case (WUpdateUser e n a g ro)
        have "valid_role ro"
          using 2(6) reads_user [OF states_later(1) [OF h order_refl i(1)]] read old
          unfolding WUpdateUser by (fastforce simp: own_password_call_def edit_call_def)
        with 2(7) show ?thesis unfolding WUpdateUser Suc by (auto simp: ran_def intro: IH split: if_splits)
      qed (use 2(6,7) in \<open>auto simp: Suc ran_def intro: IH split: if_splits\<close>)
    qed
  qed
qed

end

end
