(* ===== verification/Traceback.thy ===== *)
theory Traceback
  imports Histories Route_Facts
begin

text \<open>
  Where authority comes from. Claims are not checked against the store again: what a user may do is what the token says.
  An accepted token that a login of the same history handed out traces back to that login: less than fifteen minutes
  before, with the password of a user who then had the role in the token. Any other accepted token comes from outside:
  it was signed with the server's secret elsewhere, by \<open>cmd/token\<close>, or by an earlier process.
\<close>

definition bearer_token :: "request \<Rightarrow> string" where
  "bearer_token r = TrimPrefix (Header_Get r ''Authorization'') ''Bearer ''"

text \<open>The step is a login that hands out the token.\<close>

definition hands_out :: "('s, 'l) served \<Rightarrow> string \<Rightarrow> bool" where
  "hands_out st tok \<longleftrightarrow> login_path (st_request st) \<and> status (h_out (st_after st)) = 200
     \<and> (\<exists>x. w_body (h_out (st_after st)) = [JsonLine (login_response tok x)])"

text \<open>The request presents a token that is accepted, and that no login before it handed out.\<close>

definition outside_token :: "'l libs \<Rightarrow> ('s, 'l) served list \<Rightarrow> nat \<Rightarrow> bool" where
  "outside_token L h k \<longleftrightarrow> (\<exists>c. authenticated L (st_env (h ! k)) (incoming (st_request (h ! k))) c)
     \<and> (\<forall>m < k. \<not> hands_out (h ! m) (bearer_token (st_request (h ! k))))"

text \<open>The secret stays the same, and the names are in ASCII, which a token carries unchanged.\<close>

definition one_secret :: "('s, 'l) served list \<Rightarrow> bool" where
  "one_secret h \<longleftrightarrow> (\<forall>k < length h. jwtSecret (getenv (st_env (h ! k))) = jwtSecret (getenv (st_env (h ! 0))))"

definition ascii_users :: "(int \<rightharpoonup> user) \<Rightarrow> bool" where
  "ascii_users m \<longleftrightarrow> (\<forall>u \<in> ran m. ascii (U_Username u) \<and> ascii (U_Role u))"

lemma Header_Get_incoming [simp]: "Header_Get (incoming r) n = Header_Get r n"
  by (simp add: incoming_def Header_Get_def)

lemma login_response_token: "login_response t x = login_response t' x' \<Longrightarrow> t = t'"
  by (simp add: login_response_def)

lemma handed_out:
  assumes "st_after st = ServerHandler L S (st_env st) (incoming (st_request st)) (st_before st)" "hands_out st tok"
  shows "\<exists>u name pw. credentials (st_request st) name pw
    \<and> GetUserByUsername S (store_env (st_env st) 0) name (h_store (st_before st)) = Inr u
    \<and> bcrypt_CompareHashAndPassword L (U_PasswordHash u) pw
    \<and> GenerateToken L (st_env st) (U_Role u) (U_Username u) = Inr tok"
proof -
  let ?r = "incoming (st_request st)\<lparr>r_path_values := []\<rparr>" and ?w = "st_before st\<lparr>h_out := new_writer\<rparr>"
  let ?v = "LoginHandler L S (st_env st) ?r ?w"
  have "login_path (incoming (st_request st))"
    using assms(2) by (simp add: hands_out_def login_path_def incoming_def)
  then have out: "h_out (st_after st) = h_out ?v"
  proof (cases rule: login_reached [where L = L and S = S and E = "st_env st" and w = ?w])
    case (own f)
    then have "status (h_out (st_after st)) \<in> {301, 404}" by (simp add: assms(1) ServerHandler_def RequestLogger_def Let_def)
    with assms(2) show ?thesis by (simp add: hands_out_def)
  qed (simp add: assms(1) ServerHandler_def RequestLogger_def Let_def)
  from assms(2) obtain x where x: "status (h_out ?v) = 200" "w_body (h_out ?v) = [JsonLine (login_response tok x)]"
    by (auto simp: hands_out_def out)
  have "fresh (h_out ?w)" by simp
  from login_status [OF this x(1)] x(2) show ?thesis
    by (auto simp: credentials_def Header_Get_def incoming_def dest: login_response_token)
qed

lemma trunc_sec_le: "trunc_sec t \<le> t"
  by (simp add: trunc_sec_def unix_sec_def duration_units)

context durable_store begin

lemma accepted_token_origin:
  assumes h: "interleaved L S (good_env repr) s0 h" "wf s0" and k: "k < length h"
    and "jwt_laws L" "\<not> outside_token L h k" "one_secret h"
    and ascii: "\<And>i. i \<le> k \<Longrightarrow> ascii_users (users_of (content_of (states s0 h ! i)))"
    and auth: "authenticated L (st_env (h ! k)) (incoming (st_request (h ! k))) c"
  shows "\<exists>m < k. \<exists>u pw. credentials (st_request (h ! m)) (U_Username u) pw
    \<and> users_of (content_of (st_first (h ! m))) (U_ID u) = Some u \<and> bcrypt_CompareHashAndPassword L (U_PasswordHash u) pw
    \<and> C_Username c = U_Username u \<and> C_Role c = U_Role u
    \<and> t_validate (st_env (h ! k)) < t_expires (st_env (h ! m)) + 15 * Minute"
proof -
  let ?tok = "bearer_token (st_request (h ! k))" and ?E = "st_env (h ! k)"
  from assms(5) auth obtain m where m: "m < k" "hands_out (h ! m) ?tok" unfolding outside_token_def by blast
  then have ml: "m < length h" using k by simp
  from interleaved_nth [OF h(1) ml] obtain i j where n: "overtaken_step L S (good_env repr) (h ! m)" "i \<le> j" "j \<le> m"
    "st_first (h ! m) = states s0 h ! i" by blast
  then have i: "i \<le> length h" "i \<le> k" using ml m(1) by simp_all
  from n(1) have after: "st_after (h ! m) = ServerHandler L (overtaken (st_first (h ! m)) (st_second (h ! m)) S)
      (st_env (h ! m)) (incoming (st_request (h ! m))) (st_before (h ! m))" by (simp add: overtaken_step_def)
  from handed_out [OF after m(2)] obtain u name pw where u: "credentials (st_request (h ! m)) name pw"
      "GetUserByUsername S (store_env (st_env (h ! m)) 0) name (states s0 h ! i) = Inr u"
      "bcrypt_CompareHashAndPassword L (U_PasswordHash u) pw"
      "GenerateToken L (st_env (h ! m)) (U_Role u) (U_Username u) = Inr ?tok"
    by (auto simp: n(4))
  from reads_name [OF states_later(1) [OF h order_refl i(1)] u(2)]
  have stored: "users_of (content_of (states s0 h ! i)) (U_ID u) = Some u" "U_Username u = name" by simp_all
  have "ascii (U_Role u)" "ascii (U_Username u)" using ascii [OF i(2)] stored(1) by (auto simp: ascii_users_def ran_def)
  moreover have "jwtSecret (getenv ?E) = jwtSecret (getenv (st_env (h ! m)))"
    using assms(6) k ml by (simp add: one_secret_def)
  moreover have "ValidateToken L ?E ?tok = Inr c" using auth by (simp add: authenticated_def bearer_token_def)
  ultimately have "t_validate ?E < trunc_sec (t_expires (st_env (h ! m)) + 15 * Minute)"
      "C_Username c = U_Username u" "C_Role c = U_Role u"
    using token_valid [OF assms(4) _ _ u(4), of ?E] by (auto split: if_splits)
  with u(1,3) stored m(1) n(4) trunc_sec_le [of "t_expires (st_env (h ! m)) + 15 * Minute"] show ?thesis
    by (intro exI [of _ m] exI [of _ u] exI [of _ pw]) auto
qed

text \<open>As long as nobody has logged in, nothing changes: the first change of the users or of the sessions goes back to
  a login with the password of a user that was there from the start, or to a token from outside.\<close>

definition same_accounts :: "'s \<Rightarrow> 's \<Rightarrow> bool" where
  "same_accounts s t \<longleftrightarrow> users_of (content_of s) = users_of (content_of t) \<and> sessions_of (content_of s) = sessions_of (content_of t)"

lemma first_change:
  assumes h: "interleaved L S (good_env repr) s0 h" "wf s0" and k: "k \<le> length h"
    and jwt: "jwt_laws L" "one_secret h"
    and init: "sessions_of (content_of s0) = Map.empty" "ascii_users (users_of (content_of s0))"
    and diff: "\<not> same_accounts (states s0 h ! k) s0"
  shows "\<exists>m < k. outside_token L h m \<or> (\<exists>u pw. credentials (st_request (h ! m)) (U_Username u) pw
    \<and> users_of (content_of s0) (U_ID u) = Some u \<and> bcrypt_CompareHashAndPassword L (U_PasswordHash u) pw)"
proof -
  define n where "n = (LEAST n. \<not> same_accounts (states s0 h ! n) s0)"
  have n: "\<not> same_accounts (states s0 h ! n) s0" "n \<le> k"
    unfolding n_def using diff by (rule LeastI, rule Least_le)
  have "n \<noteq> 0" using n(1) by (auto simp: same_accounts_def)
  then obtain j where j: "n = Suc j" by (cases n) simp
  have same: "same_accounts (states s0 h ! i) s0" if "i \<le> j" for i
    using not_less_Least [of i "\<lambda>n. \<not> same_accounts (states s0 h ! n) s0"] that by (auto simp: j n_def [symmetric])
  have jl: "j < length h" "j < k" using n(2) k by (simp_all add: j)
  have first: "users_of (content_of (st_first (h ! m))) = users_of (content_of s0)" if "m \<le> j" for m
  proof -
    have "m < length h" using that jl(1) by simp
    from interleaved_nth [OF h(1) this] that same show ?thesis by (auto simp: same_accounts_def)
  qed
  show ?thesis
  proof (cases "users_of (content_of (states s0 h ! Suc j)) = users_of (content_of (states s0 h ! j))")
    case False
    from users_changed [OF h jl(1) False] obtain c where
      c: "authenticated L (st_env (h ! j)) (incoming (st_request (h ! j))) c" by blast
    have ascii: "ascii_users (users_of (content_of (states s0 h ! i)))" if "i \<le> j" for i
      using same [OF that] init(2) by (simp add: same_accounts_def)
    show ?thesis
    proof (cases "outside_token L h j")
      case True
      with jl(2) show ?thesis by blast
    next
      case False
      from accepted_token_origin [OF h jl(1) jwt(1) False jwt(2) ascii c] obtain m u pw where m: "m < j"
      "credentials (st_request (h ! m)) (U_Username u) pw" "users_of (content_of (st_first (h ! m))) (U_ID u) = Some u"
      "bcrypt_CompareHashAndPassword L (U_PasswordHash u) pw" by blast
      with first [of m] jl(2) show ?thesis
        by (intro exI [of _ m] conjI disjI2 exI [of _ u] exI [of _ pw]) simp_all
    qed
  next
    case True
    with n(1) same [OF order_refl] have
      "sessions_of (content_of (states s0 h ! Suc j)) \<noteq> sessions_of (content_of (states s0 h ! j))"
      by (auto simp: j same_accounts_def)
    moreover have none: "sessions_of (content_of (states s0 h ! j)) = Map.empty"
      using same [OF order_refl] init(1) by (simp add: same_accounts_def)
    ultimately obtain i x where "sessions_of (content_of (states s0 h ! Suc j)) i = Some x"
      by (metis ext not_Some_eq)
    from session_opened [OF h jl(1) _ this] none first [OF order_refl] jl(2) show ?thesis
      by (intro exI [of _ j]) (auto simp: credentials_def Header_Get_def incoming_def)
  qed
qed

end

end
