(* ===== verification/Sqlite_Durable.thy ===== *)
theory Sqlite_Durable
  imports Durable_Store Sqlite_Properties
begin

text \<open>
  \<open>SQLiteStore\<close> is a durable store: over any driver that keeps the laws of \<open>sql_engine\<close>, with no assumption that the
  file answers or that IDs are left, every call leaves the tables as they were or does its work on them. The IDs that the
  \<open>AUTOINCREMENT\<close> columns give out are never used again.
\<close>

definition seq_of :: "db \<Rightarrow> string \<Rightarrow> int" where
  "seq_of d t = (case d t of None \<Rightarrow> 0 | Some tb \<Rightarrow> t_seq tb)"

definition sq_content :: "('d \<Rightarrow> db) \<Rightarrow> 'd \<Rightarrow> content" where
  "sq_content tables d = \<lparr>users_of = sq_users tables d, sessions_of = sq_sessions tables d,
     last_user = seq_of (tables d) ''users'', last_session = seq_of (tables d) ''sessions''\<rparr>"

definition row_content :: "user list \<Rightarrow> int \<Rightarrow> session list \<Rightarrow> int \<Rightarrow> content" where
  "row_content us n xs m = \<lparr>users_of = by_id U_ID us, sessions_of = by_id S_ID xs, last_user = n, last_session = m\<rparr>"

lemma sq_content_rows:
  assumes "holds_rows (tables d) us n xs m" "rows_wf us n xs m"
  shows "sq_content tables d = row_content us n xs m"
  using assms sq_view [where tables = tables and d = d, OF assms]
  by (simp add: sq_content_def row_content_def seq_of_def holds_rows_def users_table_def sessions_table_def)

lemma sq_wfE:
  assumes "sq_wf tables d"
  obtains us n xs m where "holds_rows (tables d) us n xs m" "rows_wf us n xs m" "sq_content tables d = row_content us n xs m"
  using assms sq_content_rows [where tables = tables and d = d] unfolding sq_wf_def by blast

lemma sq_content_tables: "tables d' = tables d \<Longrightarrow> sq_content tables d' = sq_content tables d"
  by (simp add: sq_content_def sq_users_def sq_sessions_def)

lemma filed_by_id:
  assumes "distinct (map f as)" "distinct (map g as)" "\<And>a. a \<in> set as \<Longrightarrow> 0 < f a \<and> f a \<le> n"
  shows "filed f g n (by_id f as)"
  using assms(2,3) by (auto simp: filed_def by_id_iff [OF assms(1)] distinct_map dest: inj_onD)

lemma row_content_sound: "rows_wf us n xs m \<Longrightarrow> sound (row_content us n xs m)"
  by (simp add: sound_def row_content_def filed_by_id rows_wfD)

text \<open>The rows a statement leaves.\<close>

lemma rows_wf_change_user:
  assumes "rows_wf us n xs m" "U_ID v = i" "kept_user v"
    and "distinct (map U_Username (map (\<lambda>u. if U_ID u = i then v else u) us))"
  shows "rows_wf (map (\<lambda>u. if U_ID u = i then v else u) us) n xs m"
proof -
  have "map U_ID (map (\<lambda>u. if U_ID u = i then v else u) us) = map U_ID us" using assms(2) by simp
  with assms show ?thesis by (auto simp: rows_wf_def list_all_iff simp del: map_map)
qed

lemma by_id_remove:
  assumes "distinct (map f as)"
  shows "by_id f (filter (\<lambda>a. f a \<noteq> i) as) = (by_id f as)(i := None)"
  by (rule map_eqI) (auto simp: by_id_iff [OF assms] by_id_iff [OF distinct_map_filterI [OF assms]])

section \<open>Each call\<close>

definition sq_step :: "('d \<Rightarrow> db) \<Rightarrow> store_write \<Rightarrow> 'd \<Rightarrow> 'd \<Rightarrow> bool" where
  "sq_step tables w d d' \<longleftrightarrow> sq_wf tables d'
     \<and> (sq_content tables d' = sq_content tables d \<or> written trunc_sec w (sq_content tables d) (sq_content tables d'))"

lemma sq_step_same: "sq_wf tables d \<Longrightarrow> tables d' = tables d \<Longrightarrow> sq_step tables w d d'"
  using sq_content_tables [of tables d' d] by (simp add: sq_step_def sq_wf_def)

lemma sq_step_rows:
  assumes "holds_rows (tables d) us n xs m" "rows_wf us n xs m"
    and "holds_rows (tables d') us' n' xs' m'" "rows_wf us' n' xs' m'"
    and "written trunc_sec w (row_content us n xs m) (row_content us' n' xs' m')"
  shows "sq_step tables w d d'"
  using assms sq_content_rows [of tables d, OF assms(1,2)] sq_content_rows [of tables d', OF assms(3,4)]
  unfolding sq_step_def sq_wf_def by auto

context sql_engine begin

lemma exec_either:
  assumes "understood st vs (tables d)"
  shows "tables (snd (db_Exec E st vs d)) = tables d
    \<or> (\<exists>i n. free_id st (tables d) i \<and> sem_exec i st vs (tables d) = Some (Done n, tables (snd (db_Exec E st vs d))))"
proof (cases "db_Exec E st vs d")
  case (Pair z d')
  with exec_done [OF _ assms, of _ d'] exec_failed [of st vs d _ d'] show ?thesis by (cases z) auto
qed

text \<open>A statement that is refused or does its work, and what it would leave.\<close>

lemma exec_rows:
  assumes d: "holds_rows (tables d) us n xs m" "rows_wf us n xs m"
    and sem: "\<And>i. sem_exec i st vs (tables d) = Some (if P i then (Done k, db' i) else (UniqueViolation, tables d))"
    and new: "\<And>i. free_id st (tables d) i \<Longrightarrow> P i \<Longrightarrow> holds_rows (db' i) (us' i) (n' i) (xs' i) (m' i)
      \<and> rows_wf (us' i) (n' i) (xs' i) (m' i)
      \<and> written trunc_sec w (row_content us n xs m) (row_content (us' i) (n' i) (xs' i) (m' i))"
  shows "sq_step tables w d (snd (db_Exec E st vs d))"
proof (cases "tables (snd (db_Exec E st vs d)) = tables d")
  case True
  with d show ?thesis by (intro sq_step_same) (auto simp: sq_wf_def)
next
  case False
  have "understood st vs (tables d)" by (simp add: understood_def sem)
  from exec_either [OF this] False obtain i n' where "free_id st (tables d) i"
    "sem_exec i st vs (tables d) = Some (Done n', tables (snd (db_Exec E st vs d)))" by blast
  with sem [of i] new [of i] show ?thesis
    by (intro sq_step_rows [where tables = tables and d = d, OF d]) (auto split: if_splits)
qed

lemma step_create_user:
  assumes "sq_wf tables d" "std_year (se_now e)"
  shows "sq_step tables (WCreateUser e a h r) d (snd (sq_CreateUser E e a h r d))"
proof -
  from assms(1) obtain us n xs m where d: "holds_rows (tables d) us n xs m" "rows_wf us n xs m" by (rule sq_wfE)
  let ?t = "trunc_sec (se_now e)"
  let ?v = "\<lambda>i. \<lparr>U_ID = i, U_Username = a, U_PasswordHash = h, U_Role = r, U_CreatedAt = ?t, U_UpdatedAt = ?t\<rparr>"
  let ?P = "\<lambda>i. i \<notin> U_ID ` set us \<and> a \<notin> U_Username ` set us"
  let ?st = "Insert ''users'' [''username'', ''password_hash'', ''role'', ''created_at'', ''updated_at'']"
  note wf = rows_wfD [OF d(2)]
  have u: "tables d ''users'' = Some (users_table us n)" using d(1) by (simp add: holds_rows_def)
  have sem: "sem_exec i ?st [VText a, VText h, VText r, VText (Format (se_now e)), VText (Format (se_now e))] (tables d)
    = Some (if ?P i then (Done 1, (tables d)(''users'' \<mapsto> users_table (us @ [?v i]) i)) else (UniqueViolation, tables d))" for i
    using sem_insert_user [where d = "tables d", OF u, of "?v i" i a h r ?t ?t] wf(1,2) by simp
  show ?thesis unfolding sq_writes_snd
  proof (rule exec_rows [OF d sem, where us' = "\<lambda>i. us @ [?v i]" and n' = "\<lambda>i. i" and xs' = "\<lambda>_. xs" and m' = "\<lambda>_. m"])
    fix i assume P: "?P i" and "free_id ?st (tables d) i"
    then have i: "n < i" "i \<le> max_rowid" using u by (simp_all add: users_table_def)
    have "kept_user (?v i)" using assms(2) by (simp add: kept_user_def kept_trunc)
    moreover have "written trunc_sec (WCreateUser e a h r) (row_content us n xs m) (row_content (us @ [?v i]) i xs m)"
      using P i(1) wf(1) by (auto simp: row_content_def by_id_snoc ran_by_id)
    ultimately show "holds_rows ((tables d)(''users'' \<mapsto> users_table (us @ [?v i]) i)) (us @ [?v i]) i xs m
        \<and> rows_wf (us @ [?v i]) i xs m
        \<and> written trunc_sec (WCreateUser e a h r) (row_content us n xs m) (row_content (us @ [?v i]) i xs m)"
      using d(1) P i by (intro conjI rows_wf_add_user [OF d(2)]) (auto simp: holds_rows_def)
  qed
qed

lemma step_create_session:
  assumes "sq_wf tables d" "std_year (se_now e)" "std_year (se_now e + ttl)"
  shows "sq_step tables (WCreateSession e uid a r ttl) d (snd (sq_CreateSession E e uid a r ttl d))"
proof (cases "se_rand e")
  case (Inl err)
  with assms(1) show ?thesis by (simp add: sq_writes_snd sq_step_same)
next
  case (Inr b)
  from assms(1) obtain us n xs m where d: "holds_rows (tables d) us n xs m" "rows_wf us n xs m" by (rule sq_wfE)
  let ?t = "trunc_sec (se_now e)" and ?x = "trunc_sec (se_now e + ttl)" and ?k = "EncodeToString b"
  let ?v = "\<lambda>i. \<lparr>S_ID = i, S_UserID = uid, S_Username = a, S_Role = r, S_Token = ?k, S_CreatedAt = ?t, S_ExpiresAt = ?x\<rparr>"
  let ?P = "\<lambda>i. i \<notin> S_ID ` set xs \<and> ?k \<notin> S_Token ` set xs"
  let ?st = "Insert ''sessions'' [''user_id'', ''username'', ''role'', ''token'', ''created_at'', ''expires_at'']"
  note wf = rows_wfD [OF d(2)]
  have u: "tables d ''sessions'' = Some (sessions_table xs m)" using d(1) by (simp add: holds_rows_def)
  have sem: "sem_exec i ?st [VInt uid, VText a, VText r, VText ?k, VText (Format (se_now e)), VText (Format (se_now e + ttl))] (tables d)
    = Some (if ?P i then (Done 1, (tables d)(''sessions'' \<mapsto> sessions_table (xs @ [?v i]) i)) else (UniqueViolation, tables d))" for i
    using sem_insert_session [where d = "tables d", OF u, of "?v i" i uid a r ?k ?t ?x] wf(7,8) by simp
  show ?thesis unfolding sq_writes_snd Inr sum.case
  proof (rule exec_rows [OF d sem, where us' = "\<lambda>_. us" and n' = "\<lambda>_. n" and xs' = "\<lambda>i. xs @ [?v i]" and m' = "\<lambda>i. i"])
    fix i assume P: "?P i" and "free_id ?st (tables d) i"
    then have i: "m < i" "i \<le> max_rowid" using u by (simp_all add: sessions_table_def)
    have "kept_session (?v i)" using assms(2,3) by (simp add: kept_session_def kept_trunc)
    moreover have "written trunc_sec (WCreateSession e uid a r ttl) (row_content us n xs m)
        (row_content us n (xs @ [?v i]) i)"
      using P i(1) wf(7) Inr by (auto simp: row_content_def by_id_snoc ran_by_id image_iff)
    ultimately show "holds_rows ((tables d)(''sessions'' \<mapsto> sessions_table (xs @ [?v i]) i)) us n (xs @ [?v i]) i
        \<and> rows_wf us n (xs @ [?v i]) i
        \<and> written trunc_sec (WCreateSession e uid a r ttl) (row_content us n xs m) (row_content us n (xs @ [?v i]) i)"
      using d(1) P i by (intro conjI rows_wf_add_session [OF d(2)]) (auto simp: holds_rows_def)
  qed
qed

lemma step_delete_user:
  assumes "sq_wf tables d" shows "sq_step tables (WDeleteUser i) d (snd (sq_DeleteUser E i d))"
proof -
  from assms obtain us n xs m where d: "holds_rows (tables d) us n xs m" "rows_wf us n xs m" by (rule sq_wfE)
  have u: "tables d ''users'' = Some (users_table us n)" using d(1) by (simp add: holds_rows_def)
  show ?thesis unfolding sq_writes_snd
    by (rule exec_rows [OF d, where P = "\<lambda>_. True", unfolded if_True, OF sem_delete_users [where d = "tables d", OF u],
          where n' = "\<lambda>_. n" and xs' = "\<lambda>_. xs" and m' = "\<lambda>_. m"])
      (use d(1) rows_wf_filter(1) [OF d(2)] rows_wfD(1) [OF d(2)] in
        \<open>auto simp: holds_rows_def row_content_def by_id_remove\<close>)
qed

lemma step_delete_sessions:
  assumes "sq_wf tables d"
  shows "sq_step tables (WDeleteSession i) d (snd (sq_DeleteSession E i d))"
    and "sq_step tables (WDeleteSessionsByUserID e uid t) d (snd (sq_DeleteSessionsByUserID E e uid t d))"
proof -
  from assms obtain us n xs m where d: "holds_rows (tables d) us n xs m" "rows_wf us n xs m" by (rule sq_wfE)
  have u: "tables d ''sessions'' = Some (sessions_table xs m)" using d(1) by (simp add: holds_rows_def)
  note wf = rows_wf_filter(2) [OF d(2)] rows_wfD(7) [OF d(2)]
  have sem: "sem_exec j (Delete ''sessions'' [(''id'', Eq)]) [VInt i] (tables d)
    = Some (Done (int (length (filter (\<lambda>x. S_ID x = i) xs))),
        (tables d)(''sessions'' \<mapsto> sessions_table (filter (\<lambda>x. S_ID x \<noteq> i) xs) m))" for j
    by (rule sem_delete_sessions [where d = "tables d", OF u]) simp_all
  show "sq_step tables (WDeleteSession i) d (snd (sq_DeleteSession E i d))"
    unfolding sq_writes_snd using d(1) wf
    by (intro exec_rows [OF d, where P = "\<lambda>_. True", unfolded if_True, OF sem,
          where us' = "\<lambda>_. us" and n' = "\<lambda>_. n" and m' = "\<lambda>_. m"]) (auto simp: holds_rows_def row_content_def by_id_remove)
  let ?Q = "\<lambda>x. S_UserID x = uid \<and> S_Token x \<noteq> t"
  have sem': "sem_exec j (Delete ''sessions'' [(''user_id'', Eq), (''token'', Ne)]) [VInt uid, VText t] (tables d)
    = Some (Done (int (length (filter ?Q xs))), (tables d)(''sessions'' \<mapsto> sessions_table (filter (\<lambda>x. \<not> ?Q x) xs) m))" for j
    by (rule sem_delete_sessions [where d = "tables d", OF u]) simp_all
  have "written trunc_sec (WDeleteSessionsByUserID e uid t) (row_content us n xs m)
      (row_content us n (filter (\<lambda>x. \<not> ?Q x) xs) m)"
    by (auto simp: row_content_def by_id_filter [OF wf(2)] fun_eq_iff split: option.split)
  then show "sq_step tables (WDeleteSessionsByUserID e uid t) d (snd (sq_DeleteSessionsByUserID E e uid t d))"
    unfolding sq_writes_snd using d(1) wf(1)
    by (intro exec_rows [OF d, where P = "\<lambda>_. True", unfolded if_True, OF sem',
          where us' = "\<lambda>_. us" and n' = "\<lambda>_. n" and m' = "\<lambda>_. m"]) (auto simp: holds_rows_def)
qed

lemma step_update_user:
  assumes "sq_wf tables d" "std_year (se_now e)"
  shows "sq_step tables (WUpdateUser e i a h r) d (snd (sq_UpdateUser E e i a h r d))"
proof -
  from assms(1) obtain us n xs m where d: "holds_rows (tables d) us n xs m" "rows_wf us n xs m" by (rule sq_wfE)
  note wf = rows_wfD [OF d(2)]
  let ?new = "\<lambda>v. v\<lparr>U_Username := a, U_PasswordHash := h, U_Role := r, U_UpdatedAt := trunc_sec (se_now e)\<rparr>"
  let ?us = "map (\<lambda>w. if U_ID w = i then ?new w else w) us"
  have u: "tables d ''users'' = Some (users_table us n)" using d(1) by (simp add: holds_rows_def)
  note sem = sem_update_user [where d = "tables d", OF u wf(1), where a = a and h = h and r = r and t = "trunc_sec (se_now e)" and i = i, unfolded Let_def Format_trunc]
  show ?thesis
  proof (cases "i \<in> U_ID ` set us")
    case False
    then have us: "?us = us" by (simp add: map_no_hit)
    have "(tables d)(''users'' \<mapsto> users_table us n) = tables d" using u by (rule fun_upd_idem)
    with wf(2) have "(if distinct (map U_Username us) then (Done k, (tables d)(''users'' \<mapsto> users_table us n))
        else (UniqueViolation, tables d)) = (Done k, tables d)" for k
      by (simp only: if_True)
    note sem = sem [unfolded us this]
    have "tables (snd (sq_UpdateUser E e i a h r d)) = tables d"
      unfolding sq_writes_snd using exec_either [of _ _ d, unfolded understood_def, OF sem [THEN option.discI]] sem by auto
    with assms(1) show ?thesis by (rule sq_step_same)
  next
    case True
    then obtain v where v: "v \<in> set us" "U_ID v = i" by auto
    have us: "?us = map (\<lambda>w. if U_ID w = i then ?new v else w) us"
      using v wf(1) by (auto simp: distinct_map inj_on_def)
    have uniq: "distinct (map U_Username ?us) \<longleftrightarrow> (\<forall>w \<in> set us. U_Username w = a \<longrightarrow> U_ID w = i)"
      unfolding us by (rule distinct_renamed [OF wf(1,2) v]) simp
    show ?thesis unfolding sq_writes_snd
    proof (rule exec_rows [OF d sem, where us' = "\<lambda>_. ?us" and n' = "\<lambda>_. n" and xs' = "\<lambda>_. xs" and m' = "\<lambda>_. m"])
      assume P: "distinct (map U_Username ?us)"
      have "rows_wf ?us n xs m"
        unfolding us using P v wf(3) assms(2) us
        by (intro rows_wf_change_user [OF d(2)]) (simp_all add: list_all_iff kept_user_def kept_trunc)
      moreover have "by_id U_ID ?us = (by_id U_ID us)(i \<mapsto> ?new v)"
        unfolding us using v by (intro by_id_update [OF wf(1)]) simp_all
      then have "written trunc_sec (WUpdateUser e i a h r) (row_content us n xs m) (row_content ?us n xs m)"
        using P [unfolded uniq] v by (auto simp: row_content_def by_id_iff [OF wf(1)] intro!: exI [of _ v])
      ultimately show "holds_rows ((tables d)(''users'' \<mapsto> users_table ?us n)) ?us n xs m \<and> rows_wf ?us n xs m
          \<and> written trunc_sec (WUpdateUser e i a h r) (row_content us n xs m) (row_content ?us n xs m)"
        using d(1) by (simp add: holds_rows_def)
    qed
  qed
qed

lemma sq_write_step:
  assumes "sq_wf tables d" "timely std_year w"
  shows "sq_step tables w d (write_call (sqlite_ops E) w d)"
  using assms step_create_user step_update_user step_delete_user step_create_session step_delete_sessions
  by (cases w) (simp_all add: sqlite_ops_def)

lemma sq_wf_read:
  assumes "sq_wf tables d"
  shows "sq_GetUser E i d = Inr u \<Longrightarrow> sq_users tables d i = Some u"
    and "sq_GetUserByUsername E e a d = Inr u \<Longrightarrow> sq_users tables d (U_ID u) = Some u \<and> U_Username u = a"
    and "sq_GetSessionByID E i d = Inr x \<Longrightarrow> sq_sessions tables d i = Some x"
proof -
  from assms obtain us n xs m where d: "holds_rows (tables d) us n xs m" "rows_wf us n xs m" by (rule sq_wfE)
  note wf = rows_wfD(1,7) [OF d(2)]
  note v = sq_view [where tables = tables and d = d, OF d]
  show "sq_GetUser E i d = Inr u \<Longrightarrow> sq_users tables d i = Some u"
    using sq_GetUser_spec [OF d, where i = i] by (simp add: v by_id_iff [OF wf(1)])
  show "sq_GetUserByUsername E e a d = Inr u \<Longrightarrow> sq_users tables d (U_ID u) = Some u \<and> U_Username u = a"
    using sq_GetUserByUsername_spec [OF d, where e = e and a = a] by (simp add: v by_id_iff [OF wf(1)])
  show "sq_GetSessionByID E i d = Inr x \<Longrightarrow> sq_sessions tables d i = Some x"
    using sq_GetSessionByID_spec [OF d, where i = i] by (simp add: v by_id_iff [OF wf(2)])
qed

end

sublocale sql_engine \<subseteq> du: durable_store "sqlite_ops E" "sq_wf tables" std_year trunc_sec "sq_content tables"
proof (unfold_locales, goal_cases)
  case (1 d)
  then show ?case by (auto elim!: sq_wfE intro: row_content_sound)
qed (use sq_write_step sq_wf_read in \<open>auto simp: sq_step_def sq_content_def sqlite_ops_def\<close>)

context sql_engine begin

lemma durable: "durable_store (sqlite_ops E) (sq_wf tables) std_year trunc_sec (sq_content tables)"
  by (rule du.durable_store_axioms)

end

end
