(* ===== verification/Interleaving.thy ===== *)
theory Interleaving
  imports Histories Password_Facts
begin

text \<open>
  A request that another one overtakes between its lookup and its write, over any store that keeps the contract: what
  the write then loses. (The lookup's answer is a value: this is so of \<open>SQLiteStore\<close>, and not of the pointers that
  \<open>InMemoryStore\<close> hands out.)
\<close>

context store begin

lemma overtaken_password_change:
  assumes "fresh (h_out w)" "inv l (h_store w)" "up (h_store w)" "good_env repr E" "good_env repr E'"
    and "password_change r current new" "caller (users (h_store w)) r u"
    and "bcrypt_CompareHashAndPassword L (U_PasswordHash u) current"
    and "bcrypt_GenerateFromPassword L new (getBcryptCost L (getenv E)) (salt E) = Inr h"
    and "r_method r' = ''PUT''" "path_user_id r' = Inr (U_ID u)"
    and "Decode True [''username'', ''password'', ''role''] (r_body r') = Some req"
    and "updated_user L E' req u (res (se_now (store_env E' 0))) = Some v" "U_Username v = U_Username u"
    and w1_def: "w1 = UpdateUserHandler L S E' r' w" and "up (h_store w1)"
    and w2_def: "w2 = PasswordChangeHandler L (overtaken (h_store w) (h_store w) S) E r (w1\<lparr>h_out := new_writer\<rparr>)"
  shows "status (h_out w1) = 200 \<and> users (h_store w1) = (users (h_store w))(U_ID u \<mapsto> v)
    \<and> status (h_out w2) = 200
    \<and> users (h_store w2) = (users (h_store w))(U_ID u \<mapsto>
        v\<lparr>U_PasswordHash := h, U_Role := U_Role u, U_UpdatedAt := res (se_now (store_env E 1))\<rparr>)"
proof -
  from assms(7) obtain c where c: "request_claims r = Some c" and u: "users (h_store w) (U_ID u) = Some u"
    by (auto simp: caller_def)
  have g: "GetUserByUsername S (store_env E 0) (C_Username c) (h_store w) = Inr u"
    by (rule iffD1 [OF caller_lookup [OF assms(2,3) c] assms(7)])
  have only: "\<forall>j x. users (h_store w) j = Some x \<longrightarrow> U_Username x = U_Username u \<longrightarrow> j = U_ID u"
    using users_unique [OF assms(2) _ u] by blast
  note w1 = user_updated [OF assms(1-3,5,10,11) u assms(12,13) only [folded assms(14)] w1_def]
  have id: "users (h_store w1) (U_ID u) \<noteq> None"
    and only1: "\<forall>j x. users (h_store w1) j = Some x \<longrightarrow> U_Username x = U_Username u \<longrightarrow> j = U_ID u"
    using w1 only by auto
  obtain x s' where d: "UpdateUser S (store_env E 1) (U_ID u) (U_Username u) h (U_Role u) (h_store w1) = (Inr x, s')"
    using call_okE [OF update_user_total [OF _ assms(16) good_envD(1) [OF assms(4)] id only1]] w1 by metis
  have inv1: "inv l (h_store w1)" using w1 by blast
  note upd = update_user_ok [OF inv1 good_envD(1) [OF assms(4)] d]
  have x: "x = v\<lparr>U_PasswordHash := h, U_Role := U_Role u, U_UpdatedAt := res (se_now (store_env E 1))\<rparr>"
    using upd w1 assms(14) by auto
  from assms(6) obtain req' where req: "r_method r = ''POST''"
      "HasPrefix (Header_Get r ''Content-Type'') ''application/json''"
      "Decode False [''currentpassword'', ''newpassword''] (r_body r) = Some req'"
      "str_field req' ''currentpassword'' = current" "str_field req' ''newpassword'' = new"
      "\<not> blank current" "\<not> blank new"
    by (auto simp: password_change_def password_request_def)
  have "h_store w2 = s' \<and> status (h_out w2) = 200"
    by (simp add: w2_def PasswordChangeHandler_def c g req assms(8,9) d del: One_nat_def)
  with w1 upd x show ?thesis by auto
qed

end

end
