(* ===== verification/Auth_Properties.thy ===== *)
theory Auth_Properties
  imports Samples
begin

text \<open>
  The properties of login, sessions and password change, for the server's handlers over
  \<open>InMemoryStore\<close>. Each rests on the lemmas proved in the locale \<open>store\<close> through its
  interpretation \<open>mem\<close>.
\<close>

section \<open>Login\<close>

text \<open>C20: A login that answers 200 was a well-formed POST with the name and a matching password of a stored user;
  the body holds a token generated for that user's role and name and the token of a new session, which is
  the only change to the store.\<close>

theorem login_sound:
  assumes "fresh (h_out w)" "mem_inv (Suc l) (h_store w)"
    and "status (h_out (LoginHandler L mem_ops E r w)) = 200"
    and "w' = LoginHandler L mem_ops E r w"
  shows "\<exists>name pw u tok x. credentials r name pw
    \<and> mem_users w (U_ID u) = Some u \<and> U_Username u = name
    \<and> bcrypt_CompareHashAndPassword L (U_PasswordHash u) pw
    \<and> GenerateToken L E (U_Role u) name = Inr tok
    \<and> session_for (store_env E 1) (sessionTTL (getenv E)) u x
    \<and> mem_sessions w (S_ID x) = None
    \<and> mem_inv l (h_store w') \<and> mem_users w' = mem_users w
    \<and> mem_sessions w' = (mem_sessions w)(S_ID x \<mapsto> x)
    \<and> w_body (h_out w') = [JsonLine (login_response tok (S_Token x))]"
  using mem.login_ok [OF assms(1,2) _ assms(3) assms(4)] by simp

theorem login_sound_witness:
  "\<exists>x. mem_sessions (LoginHandler sample_libs mem_ops sample_env (login_request ''alice'' ''pw'') sample_world)
     = (mem_sessions sample_world)(S_ID x \<mapsto> x)"
  using login_sound [of sample_world 5, OF _ _ sample_login_200 refl] sample_inv by auto

text \<open>C21: The name and the right password of a stored user are accepted, as long as the limiter lets the
  request through, the token can be signed, random bytes are available and the session lifetime is positive.\<close>

theorem login_complete:
  assumes "fresh (h_out w)" "mem_inv (Suc l) (h_store w)" "credentials r name pw"
    and "fst (limiter_Allow L (t_limiter E) (h_limiter w))"
    and "mem_users w i = Some u" "U_Username u = name"
    and "bcrypt_CompareHashAndPassword L (U_PasswordHash u) pw"
    and "GenerateToken L E (U_Role u) name = Inr tok"
    and "0 < sessionTTL (getenv E)" "se_rand (store_env E 1) = Inr b"
    and "\<forall>y \<in> ran (mem_sessions w). S_Token y \<noteq> EncodeToString b"
  shows "status (h_out (LoginHandler L mem_ops E r w)) = 200"
  using mem.login_accepted [OF assms(1,2) TrueI assms(3-11)] .

theorem login_complete_witness:
  "status (h_out (LoginHandler sample_libs mem_ops sample_env (login_request ''alice'' ''pw'') sample_world)) = 200"
  by (rule login_complete [where l = 5 and name = "''alice''" and pw = "''pw''" and i = 2 and u = alice and b = "''r''"])
    (use sample_inv sample_credentials sample_token in simp_all)

text \<open>C22: The refusal does not say whether the name exists: if nobody has the name, or its user has another password,
  the response is one and the same 401, and the store is unchanged.\<close>

theorem login_refusal_uniform:
  assumes "mem_inv l (h_store w)" "credentials r name pw"
    and "fst (limiter_Allow L (t_limiter E) (h_limiter w))"
    and "\<forall>u \<in> ran (mem_users w). U_Username u = name \<longrightarrow> \<not> bcrypt_CompareHashAndPassword L (U_PasswordHash u) pw"
  shows "h_out (LoginHandler L mem_ops E r w) = jsonError ''Unauthorized'' 401 (h_out w)"
  by (rule mem.login_refused [OF assms(1) TrueI assms(2-4)])

theorem login_refusal_uniform_witness:
  "h_out (LoginHandler sample_libs mem_ops sample_env (login_request ''alice'' ''no'') sample_world)
   = jsonError ''Unauthorized'' 401 new_writer"
  using login_refusal_uniform [of 5 sample_world "login_request ''alice'' ''no''" "''alice''" "''no''" sample_libs sample_env]
    sample_inv sample_credentials by simp

text \<open>C23: A login that does not answer 200 changes neither users nor sessions.\<close>

theorem login_failure_frame:
  assumes "fresh (h_out w)" "mem_inv l (h_store w)" "w' = LoginHandler L mem_ops E r w"
    and "status (h_out w') \<noteq> 200"
  shows "mem_inv l (h_store w') \<and> mem_users w' = mem_users w \<and> mem_sessions w' = mem_sessions w"
  using mem.login_failed [OF assms(1,2) TrueI _ assms(3)] assms(3,4) by blast

theorem login_failure_frame_witness:
  "mem_sessions (LoginHandler sample_libs mem_ops sample_env (login_request ''alice'' ''no'') sample_world)
   = mem_sessions sample_world"
proof -
  have "status (h_out (LoginHandler sample_libs mem_ops sample_env (login_request ''alice'' ''no'') sample_world)) \<noteq> 200"
    using mem.login_refused [of 5 sample_world "login_request ''alice'' ''no''" "''alice''" "''no''" sample_libs sample_env]
      sample_inv sample_credentials by simp
  from login_failure_frame [OF _ _ refl this, of 5] sample_inv show ?thesis by simp
qed

section \<open>Sessions\<close>

text \<open>The same store with other session tokens in it.\<close>

definition with_tokens :: "(session \<Rightarrow> string) \<Rightarrow> mem \<Rightarrow> mem" where
  "with_tokens f s = s\<lparr>m_sessions := map (\<lambda>(i, x). (i, x\<lparr>S_Token := f x\<rparr>)) (m_sessions s)\<rparr>"

lemma get_by_name_with_tokens: "mem_GetUserByUsername e name (with_tokens f s) = mem_GetUserByUsername e name s"
  by (simp add: mem_GetUserByUsername_def with_tokens_def)

lemma list_with_tokens:
  assumes "mem_ListSessionsByUserID e uid s = Inr xs"
  shows "mem_ListSessionsByUserID e uid (with_tokens f s) = Inr (map (\<lambda>x. x\<lparr>S_Token := f x\<rparr>) xs)"
proof -
  have "map snd (shuffle ks (m_sessions (with_tokens f s)))
      = map (\<lambda>x. x\<lparr>S_Token := f x\<rparr>) (map snd (shuffle ks (m_sessions s)))" for ks
    by (simp add: with_tokens_def shuffle_map case_prod_beta comp_def)
  with assms show ?thesis by (auto simp: mem_ListSessionsByUserID_def Let_def filter_map comp_def sort_key_map)
qed

lemma response_with_token [simp]: "session_response (x\<lparr>S_Token := t\<rparr>) = session_response x"
  by (simp add: session_response_def)

lemma listing_with_tokens:
  "h_out (SessionsHandler mem_ops E r (w\<lparr>h_store := with_tokens f (h_store w)\<rparr>)) = h_out (SessionsHandler mem_ops E r w)"
proof -
  have "mem_ListSessionsByUserID e uid s \<noteq> Inl m" for e uid s m by (simp add: mem_ListSessionsByUserID_def Let_def)
  then show ?thesis
    by (auto simp: SessionsHandler_def mem_ops_def get_by_name_with_tokens list_with_tokens comp_def
      split: option.split sum.split dest: list_with_tokens [where f = f])
qed

text \<open>C24: A caller who lists sessions gets exactly the own sessions that have not expired, each once, newest
  first; and no session token is shown: with any other tokens in the store the response is the same.\<close>

theorem sessions_listing:
  assumes "fresh (h_out w)" "mem_inv l (h_store w)" "r_method r = ''GET''" "caller (mem_users w) r u"
    and "w' = SessionsHandler mem_ops E r w"
  shows "status (h_out w') = 200 \<and> h_store w' = h_store w
    \<and> (\<exists>xs. w_body (h_out w') = [JsonLine (JArr (map session_response xs))] \<and> distinct xs
        \<and> sorted_wrt (\<lambda>x y. S_CreatedAt y \<le> S_CreatedAt x) xs
        \<and> set xs = {x \<in> ran (mem_sessions w). S_UserID x = U_ID u \<and> se_now (store_env E 1) < S_ExpiresAt x})
    \<and> (\<forall>f. h_out (SessionsHandler mem_ops E r (w\<lparr>h_store := with_tokens f (h_store w)\<rparr>)) = h_out w')"
  using mem.sessions_listed [OF assms(1,2) TrueI _ assms(3,4,5)] assms(5) by (simp add: listing_with_tokens)

theorem sessions_listing_witness:
  "\<exists>xs. w_body (h_out (SessionsHandler mem_ops sample_env (request_by alice (json_request ''GET'' ''/auth/sessions'' []))
      sample_world)) = [JsonLine (JArr (map session_response xs))]
    \<and> set xs = {session_of 1 alice ''a'', session_of 2 alice ''b''}"
proof -
  have "caller (mem_users sample_world) (request_by alice (json_request ''GET'' ''/auth/sessions'' [])) alice"
    by (simp add: caller_def)
  from sessions_listing [OF _ _ _ this refl, of 5 sample_env] sample_inv obtain xs where
    "w_body (h_out (SessionsHandler mem_ops sample_env (request_by alice (json_request ''GET'' ''/auth/sessions'' []))
      sample_world)) = [JsonLine (JArr (map session_response xs))]"
    "set xs = {x \<in> {session_of 1 alice ''a'', session_of 2 alice ''b'', session_of 3 root ''c''}.
        S_UserID x = 2 \<and> 0 < S_ExpiresAt x}"
    by auto
  moreover have "{x \<in> {session_of 1 alice ''a'', session_of 2 alice ''b'', session_of 3 root ''c''}. S_UserID x = 2 \<and> 0 < S_ExpiresAt x}
      = {session_of 1 alice ''a'', session_of 2 alice ''b''}" by auto
  ultimately show ?thesis by auto
qed

text \<open>C25: Deleting one session succeeds exactly when the method is DELETE and the path names a session of the caller;
  then that session goes and nothing else changes, otherwise the store is untouched.\<close>

theorem delete_session_spec:
  assumes "fresh (h_out w)" "mem_inv l (h_store w)" "w' = DeleteSessionHandler mem_ops E r w"
  shows "(\<exists>i. r_method r = ''DELETE'' \<and> deletable (mem_users w) (mem_sessions w) r i
      \<and> status (h_out w') = 204 \<and> mem_inv l (h_store w') \<and> mem_users w' = mem_users w
      \<and> mem_sessions w' = (mem_sessions w)(i := None))
    \<or> (\<nexists>i. r_method r = ''DELETE'' \<and> deletable (mem_users w) (mem_sessions w) r i)
      \<and> status (h_out w') \<noteq> 204 \<and> h_store w' = h_store w"
  using mem.session_deleted [OF assms(1,2) TrueI _ _ assms(3)] mem.session_kept [OF assms(1,2) TrueI _ assms(3)]
  by blast

definition delete_request :: "string \<Rightarrow> request" where
  "delete_request i = (json_request ''DELETE'' (''/auth/sessions/'' @ i) [])\<lparr>r_path_values := [(''id'', i)]\<rparr>"

theorem delete_session_spec_witness:
  "status (h_out (DeleteSessionHandler mem_ops sample_env (request_by alice (delete_request ''3'')) sample_world)) \<noteq> 204"
proof -
  have p: "ParseInt ''3'' = Some 3" by code_simp
  have v: "PathValue (delete_request ''3'') ''id'' = ''3''"
    by (simp add: delete_request_def PathValue_def first_value_def)
  have "\<not> deletable (mem_users sample_world) (mem_sessions sample_world) (request_by alice (delete_request ''3'')) i" for i
    by (auto simp: deletable_def caller_def p v split: if_splits)
  with delete_session_spec [where w = sample_world and l = 5 and E = sample_env and r = "request_by alice (delete_request ''3'')", OF _ _ refl] sample_inv
  show ?thesis by auto
qed

text \<open>C26: Deleting all other sessions removes the caller's sessions except those with the token of the header
  \<open>X-Session-Token\<close>, and keeps everybody else's; without a caller or the header nothing changes.\<close>

theorem delete_other_sessions_spec:
  assumes "fresh (h_out w)" "mem_inv l (h_store w)" "w' = DeleteAllSessionsHandler mem_ops E r w"
  shows "(\<exists>u. r_method r = ''DELETE'' \<and> caller (mem_users w) r u \<and> Header_Get r ''X-Session-Token'' \<noteq> []
      \<and> status (h_out w') = 204 \<and> mem_inv l (h_store w') \<and> mem_users w' = mem_users w
      \<and> (\<forall>i x. mem_sessions w' i = Some x \<longleftrightarrow> mem_sessions w i = Some x
            \<and> (S_UserID x \<noteq> U_ID u \<or> S_Token x = Header_Get r ''X-Session-Token'')))
    \<or> \<not> (r_method r = ''DELETE'' \<and> Header_Get r ''X-Session-Token'' \<noteq> [] \<and> (\<exists>u. caller (mem_users w) r u))
      \<and> status (h_out w') \<noteq> 204 \<and> h_store w' = h_store w"
proof (cases "r_method r = ''DELETE'' \<and> Header_Get r ''X-Session-Token'' \<noteq> [] \<and> (\<exists>u. caller (mem_users w) r u)")
  case True
  then obtain u where u: "r_method r = ''DELETE''" "caller (mem_users w) r u" "Header_Get r ''X-Session-Token'' \<noteq> []"
    by blast
  from mem.other_sessions_deleted [OF assms(1,2) TrueI u(1,2) refl u(3) assms(3)] u show ?thesis
    by (intro disjI1 exI [of _ u]) (auto split: option.splits if_splits)
next
  case False
  with mem.other_sessions_kept [OF assms(1,2) TrueI _ assms(3)] show ?thesis by simp
qed

theorem delete_other_sessions_spec_witness:
  "status (h_out (DeleteAllSessionsHandler mem_ops sample_env (request_by alice (json_request ''GET'' ''/auth/sessions'' []))
     sample_world)) \<noteq> 204"
  using delete_other_sessions_spec [where w = sample_world and l = 5 and E = sample_env
      and r = "request_by alice (json_request ''GET'' ''/auth/sessions'' [])", OF _ _ refl] sample_inv by auto

section \<open>Passwords\<close>

text \<open>C27: A password change by a caller who knows the current password replaces the stored hash by one of the new
  password and sets the time of the update; name, role, other users and all sessions stay.\<close>

theorem password_change_spec:
  assumes "fresh (h_out w)" "mem_inv l (h_store w)" "password_change r current new" "caller (mem_users w) r u"
    and "bcrypt_CompareHashAndPassword L (U_PasswordHash u) current"
    and "bcrypt_GenerateFromPassword L new (getBcryptCost L (getenv E)) (salt E) = Inr h"
    and "w' = PasswordChangeHandler L mem_ops E r w"
  shows "status (h_out w') = 200 \<and> mem_inv l (h_store w') \<and> mem_sessions w' = mem_sessions w
    \<and> mem_users w' = (mem_users w)(U_ID u \<mapsto> u\<lparr>U_PasswordHash := h, U_UpdatedAt := se_now (store_env E 1)\<rparr>)"
  using mem.password_changed [OF assms(1,2) TrueI _ assms(3-7)] by simp

definition password_body :: "string \<Rightarrow> string \<Rightarrow> request" where
  "password_body old new = request_by alice
     (json_request ''POST'' ''/auth/password'' [(''currentpassword'', old), (''newpassword'', new)])"

lemma sample_password_change: "password_change (password_body ''pw'' ''new'') ''pw'' ''new''"
  "caller (mem_users sample_world) (password_body ''pw'' ''new'') alice"
  "password_request (password_body ''no'' ''new'') ''no'' ''new''"
  "caller (mem_users sample_world) (password_body ''no'' ''new'') alice"
  by (simp_all add: password_change_def password_request_def password_body_def caller_def Decode_def str_field_def)

theorem password_change_spec_witness:
  "mem_users (PasswordChangeHandler sample_libs mem_ops sample_env (password_body ''pw'' ''new'') sample_world) 2
     = Some (alice\<lparr>U_PasswordHash := ''$new'', U_UpdatedAt := 0\<rparr>)"
  using password_change_spec [OF _ _ sample_password_change(1,2) _ _ refl, of 5 sample_libs sample_env "''$new''"] sample_inv
  by simp

text \<open>With a wrong current password the store does not change.\<close>

theorem wrong_password_keeps:
  assumes "mem_inv l (h_store w)" "caller (mem_users w) r u" "password_request r current new"
    and "\<not> bcrypt_CompareHashAndPassword L (U_PasswordHash u) current"
  shows "h_store (PasswordChangeHandler L mem_ops E r w) = h_store w"
  by (rule mem.password_kept [OF assms(1) TrueI assms(2-4) refl])

theorem wrong_password_keeps_witness:
  "h_store (PasswordChangeHandler sample_libs mem_ops sample_env (password_body ''no'' ''new'') sample_world) = sample_mem"
  using wrong_password_keeps [OF _ sample_password_change(4,3), of 5 sample_libs sample_env] sample_inv by simp

text \<open>C28: After a password change the new password opens a session, if \<open>bcrypt\<close> accepts the password a hash was
  made from.\<close>

theorem password_change_then_login:
  assumes "fresh (h_out w)" "mem_inv (Suc l) (h_store w)" "bcrypt_law L"
    and "password_change r current new" "caller (mem_users w) r u"
    and "bcrypt_CompareHashAndPassword L (U_PasswordHash u) current"
    and "bcrypt_GenerateFromPassword L new (getBcryptCost L (getenv E)) (salt E) = Inr h"
    and "v = PasswordChangeHandler L mem_ops E r w"
    and "credentials r' (U_Username u) new"
    and "fst (limiter_Allow L (t_limiter E') (h_limiter v))"
    and "GenerateToken L E' (U_Role u) (U_Username u) = Inr tok"
    and "0 < sessionTTL (getenv E')" "se_rand (store_env E' 1) = Inr b"
    and "\<forall>y \<in> ran (mem_sessions w). S_Token y \<noteq> EncodeToString b"
  shows "status (h_out (LoginHandler L mem_ops E' r' (v\<lparr>h_out := new_writer\<rparr>))) = 200"
  by (rule mem.change_then_login [OF assms(1,2) TrueI _ assms(3-8) TrueI assms(9-14)]) simp

theorem password_change_then_login_witness:
  "status (h_out (LoginHandler sample_libs mem_ops sample_env (login_request ''alice'' ''new'')
     ((PasswordChangeHandler sample_libs mem_ops sample_env (password_body ''pw'' ''new'') sample_world)\<lparr>h_out := new_writer\<rparr>))) = 200"
proof -
  have lim: "h_limiter (PasswordChangeHandler sample_libs mem_ops sample_env (password_body ''pw'' ''new'') sample_world) = 5"
    by (simp add: PasswordChangeHandler_def split: option.split sum.split prod.split)
  show ?thesis
    by (rule password_change_then_login [OF _ _ sample_bcrypt sample_password_change(1,2) _ _ refl, where l = 5 and h = "''$new''" and b = "''r''"])
      (use sample_inv sample_credentials sample_token lim in simp_all)
qed

end
