(* ===== verification/Admin_Properties.thy ===== *)
theory Admin_Properties
  imports Samples
begin

text \<open>
  The properties of user administration, for the server's handlers over \<open>InMemoryStore\<close>, through the
  interpretation \<open>mem\<close> of the store contract.
\<close>

text \<open>C29: A well-formed request for a new user with an unused name creates exactly that user, with a fresh ID,
  a hash of the password and the role asked for, and answers 201 with the user (no hash in it).\<close>

theorem create_user_spec:
  assumes "fresh (h_out w)" "mem_inv (Suc l) (h_store w)"
    and "user_request r name pw role" "\<forall>v \<in> ran (mem_users w). U_Username v \<noteq> name"
    and "bcrypt_GenerateFromPassword L pw (getBcryptCost L (getenv E)) (salt E) = Inr h"
    and "w' = CreateUserHandler L mem_ops E r w"
  shows "\<exists>u. status (h_out w') = 201 \<and> w_body (h_out w') = [JsonLine (user_response u)]
    \<and> U_Username u = name \<and> U_PasswordHash u = h \<and> U_Role u = role
    \<and> mem_users w (U_ID u) = None \<and> mem_inv l (h_store w')
    \<and> mem_users w' = (mem_users w)(U_ID u \<mapsto> u) \<and> mem_sessions w' = mem_sessions w"
  using mem.user_created [OF assms(1,2) TrueI _ assms(3-6)] by simp

definition new_user_request :: "string \<Rightarrow> request" where
  "new_user_request n = request_by root
     (json_request ''POST'' ''/admin/users'' [(''username'', n), (''password'', ''pw''), (''role'', ''viewer'')])"

lemma sample_user_request: "\<not> blank n \<Longrightarrow> user_request (new_user_request n) n ''pw'' ''viewer''"
  by (simp add: user_request_def new_user_request_def Decode_def str_field_def valid_role_def)

theorem create_user_spec_witness:
  "status (h_out (CreateUserHandler sample_libs mem_ops sample_env (new_user_request ''bob'') sample_world)) = 201"
  using create_user_spec [OF _ _ sample_user_request [of "''bob''"] _ _ refl, where w = sample_world and l = 5
      and L = sample_libs and E = sample_env and h = "''$pw''"] sample_inv
  by auto

text \<open>C30: A name that is taken is refused with 409, and nothing changes.\<close>

theorem create_user_conflict:
  assumes "fresh (h_out w)" "mem_inv l (h_store w)"
    and "user_request r name pw role" "v \<in> ran (mem_users w)" "U_Username v = name"
    and "bcrypt_GenerateFromPassword L pw (getBcryptCost L (getenv E)) (salt E) = Inr h"
    and "w' = CreateUserHandler L mem_ops E r w"
  shows "status (h_out w') = 409 \<and> mem_inv l (h_store w') \<and> mem_users w' = mem_users w
    \<and> mem_sessions w' = mem_sessions w"
  by (rule mem.user_name_taken [OF assms(1,2) TrueI assms(3-7)])

theorem create_user_conflict_witness:
  "status (h_out (CreateUserHandler sample_libs mem_ops sample_env (new_user_request ''alice'') sample_world)) = 409"
  using create_user_conflict [OF _ _ sample_user_request [of "''alice''"] _ _ _ refl, where w = sample_world and l = 5
      and L = sample_libs and E = sample_env and h = "''$pw''" and v = alice] sample_inv
  by simp

text \<open>C37: An update sets the fields the request names, keeps the others, stamps the time, and answers with the
  updated user; it needs a valid role, if one is named, and a name nobody else has.\<close>

theorem update_user_spec:
  assumes "fresh (h_out w)" "mem_inv l (h_store w)"
    and "r_method r = ''PUT''" "path_user_id r = Inr i" "mem_users w i = Some v"
    and "Decode True [''username'', ''password'', ''role''] (r_body r) = Some req"
    and "updated_user L E req v (se_now (store_env E 0)) = Some u"
    and "\<forall>j x. mem_users w j = Some x \<longrightarrow> U_Username x = U_Username u \<longrightarrow> j = i"
    and "w' = UpdateUserHandler L mem_ops E r w"
  shows "status (h_out w') = 200 \<and> w_body (h_out w') = [JsonLine (user_response u)]
    \<and> mem_inv l (h_store w') \<and> mem_users w' = (mem_users w)(i \<mapsto> u) \<and> mem_sessions w' = mem_sessions w"
  using mem.user_updated [OF assms(1,2) TrueI _ assms(3-9)] by simp

definition user_path_request :: "string \<Rightarrow> string \<Rightarrow> (string \<times> string) list \<Rightarrow> request" where
  "user_path_request m i kvs = (request_by root (json_request m (''/admin/users/'' @ i) kvs))\<lparr>r_path_values := [(''id'', i)]\<rparr>"

lemma sample_path: "path_user_id (user_path_request m ''2'' kvs) = Inr 2" "path_user_id (user_path_request m ''7'' kvs) = Inr 7"
proof -
  have p: "ParseInt ''2'' = Some 2" "ParseInt ''7'' = Some 7" by code_simp+
  show "path_user_id (user_path_request m ''2'' kvs) = Inr 2" "path_user_id (user_path_request m ''7'' kvs) = Inr 7"
    by (simp_all add: path_user_id_def user_path_request_def PathValue_def first_value_def p)
qed

lemma sample_path_request [simp]:
  "r_method (user_path_request m i kvs) = m"
  "r_body (user_path_request m i kvs) = Some (JObj (map (\<lambda>(k, v). (k, JStr v)) kvs))"
  by (simp_all add: user_path_request_def)

theorem update_user_spec_witness:
  "mem_users (UpdateUserHandler sample_libs mem_ops sample_env (user_path_request ''PUT'' ''2'' [(''role'', ''admin'')]) sample_world) 2
     = Some (alice\<lparr>U_Role := ''admin'', U_UpdatedAt := 0\<rparr>)"
proof -
  let ?u = "alice\<lparr>U_Username := ''alice'', U_PasswordHash := ''$pw'', U_Role := ''admin'', U_UpdatedAt := 0\<rparr>"
  have d: "Decode True [''username'', ''password'', ''role''] (r_body (user_path_request ''PUT'' ''2'' [(''role'', ''admin'')]))
      = Some [''role'' \<mapsto> ''admin'']"
    by (simp add: Decode_def)
  have u: "updated_user sample_libs sample_env [''role'' \<mapsto> ''admin''] alice (se_now (store_env sample_env 0)) = Some ?u"
    by (simp add: updated_user_def valid_role_def)
  have n: "\<forall>j x. mem_users sample_world j = Some x \<longrightarrow> U_Username x = U_Username ?u \<longrightarrow> j = 2"
    by (simp add: fun_upd_def)
  have "?u = alice\<lparr>U_Role := ''admin'', U_UpdatedAt := 0\<rparr>" by (simp add: alice_def)
  moreover have "mem_users (UpdateUserHandler sample_libs mem_ops sample_env
      (user_path_request ''PUT'' ''2'' [(''role'', ''admin'')]) sample_world) 2 = Some ?u"
    using update_user_spec [OF _ _ _ sample_path(1) _ d u n refl, of 5] sample_inv by simp
  ultimately show ?thesis by simp
qed

text \<open>Deleting a user answers 204 and removes that user only, or 404 if there is none; the user's sessions stay
  in the store.\<close>

theorem delete_user_spec:
  assumes "fresh (h_out w)" "mem_inv l (h_store w)" "r_method r = ''DELETE''" "path_user_id r = Inr i"
    and "w' = DeleteUserHandler mem_ops r w"
  shows "status (h_out w') = (if mem_users w i = None then 404 else 204)
    \<and> mem_inv l (h_store w') \<and> mem_users w' = (mem_users w)(i := None) \<and> mem_sessions w' = mem_sessions w"
  by (rule mem.user_removed [OF assms(1,2) TrueI assms(3-5)])

theorem delete_user_spec_witness:
  "status (h_out (DeleteUserHandler mem_ops (user_path_request ''DELETE'' ''2'' []) sample_world)) = 204
   \<and> mem_sessions (DeleteUserHandler mem_ops (user_path_request ''DELETE'' ''2'' []) sample_world) = mem_sessions sample_world"
  using delete_user_spec [OF _ _ _ sample_path(1) [of "''DELETE''" "[]"] refl, where w = sample_world and l = 5]
    sample_inv by simp

text \<open>Reading a user answers 200 with the stored user, or 404, and never writes.\<close>

theorem get_user_spec:
  assumes "fresh (h_out w)" "mem_inv l (h_store w)" "r_method r = ''GET''" "path_user_id r = Inr i"
    and "w' = GetUserHandler mem_ops E r w"
  shows "h_store w' = h_store w
    \<and> (case mem_users w i of None \<Rightarrow> status (h_out w') = 404
        | Some u \<Rightarrow> status (h_out w') = 200 \<and> w_body (h_out w') = [JsonLine (user_response u)])"
  by (rule mem.user_read [OF assms(1,2) TrueI assms(3-5)])

theorem get_user_spec_witness:
  "status (h_out (GetUserHandler mem_ops sample_env (user_path_request ''GET'' ''7'' []) sample_world)) = 404"
  using get_user_spec [OF _ _ _ sample_path(2) [of "''GET''" "[]"] refl, where w = sample_world and l = 5
      and E = sample_env] sample_inv by simp

text \<open>The list of users holds each stored user once, or only those with the role of the query.\<close>

theorem list_users_spec:
  assumes "fresh (h_out w)" "mem_inv l (h_store w)" "r_method r = ''GET''" "w' = ListUsersHandler mem_ops E r w"
  shows "h_store w' = h_store w \<and> status (h_out w') = 200
    \<and> (\<exists>us. w_body (h_out w') = [JsonLine (JArr (map user_json us))] \<and> distinct us
        \<and> set us = {u \<in> ran (mem_users w). Query_Get r ''role'' = [] \<or> U_Role u = Query_Get r ''role''})"
  by (rule mem.users_listed [OF assms(1,2) TrueI assms(3,4)])

theorem list_users_spec_witness:
  "status (h_out (ListUsersHandler mem_ops sample_env (json_request ''GET'' ''/admin/users'' []) sample_world)) = 200"
  using list_users_spec [OF _ _ _ refl, where w = sample_world and l = 5 and r = "json_request ''GET'' ''/admin/users'' []"
      and E = sample_env] sample_inv by simp

end
