(* ===== verification/Concurrent_Properties.thy ===== *)
theory Concurrent_Properties
  imports Traceback Sqlite_Durable Interleaving Auth_Properties Admin_Properties
begin

text \<open>
  The properties of concurrent serving, over \<open>SQLiteStore\<close> and any driver that keeps the laws of \<open>sql_engine\<close>: the
  requests interleave at the calls of the store, the database file may fail at any call, and IDs may run out. They are the
  facts of the locale \<open>durable_store\<close>, of which \<open>sql_engine\<close> is a sublocale.
\<close>

lemma sq_content_simps [simp]:
  "users_of (sq_content tables d) = sq_users tables d" "sessions_of (sq_content tables d) = sq_sessions tables d"
  by (simp_all add: sq_content_def)

section \<open>A history for the witnesses\<close>

text \<open>\<open>root\<close> logs in, and then deletes the user \<open>alice\<close>.\<close>

definition served_by :: "request \<Rightarrow> db \<Rightarrow> (db, nat) served" where
  "served_by r d = \<lparr>st_env = sample_env, st_request = r, st_first = d, st_second = d, st_before = new_world d 5,
     st_after = ServerHandler sample_libs (overtaken d d (sqlite_ops ref_engine)) sample_env (incoming r) (new_world d 5)\<rparr>"

abbreviation db_after :: "request \<Rightarrow> db \<Rightarrow> db" where
  "db_after r d \<equiv> h_store (st_after (served_by r d))"

abbreviation root_login :: request where
  "root_login \<equiv> login_request ''root'' ''toor''"

definition sample_history :: "(db, nat) served list" where
  "sample_history = [served_by root_login sample_db, served_by remove_request (db_after root_login sample_db)]"

lemma served_by_simps [simp]:
  "st_env (served_by r d) = sample_env" "st_request (served_by r d) = r" "st_first (served_by r d) = d"
  "st_second (served_by r d) = d" "h_store (st_before (served_by r d)) = d"
  by (simp_all add: served_by_def new_world_def)

lemma interleaved_served:
  assumes "interleaved sample_libs (sqlite_ops ref_engine) (good_env std_year) d h" "last (states d h) = d'"
  shows "interleaved sample_libs (sqlite_ops ref_engine) (good_env std_year) d (h @ [served_by r d'])"
  unfolding served_by_def using assms
  by (intro interleaved.Serve [where i = "length h" and j = "length h"])
    (simp_all add: sample_good_env new_world_def last_conv_nth)

lemma sample_interleaved:
  "interleaved sample_libs (sqlite_ops ref_engine) (good_env std_year) sample_db sample_history"
  using interleaved_served [OF interleaved_served [OF interleaved.Start]]
  by (simp add: sample_history_def states_def)

lemma sample_db_wf: "sq_wf (\<lambda>d. d) sample_db"
  using sample_db_ok unfolding sq_wf_def by blast

lemma sample_db_users: "sq_users (\<lambda>d. d) sample_db = [1 \<mapsto> root, 2 \<mapsto> alice]" "sq_sessions (\<lambda>d. d) sample_db = Map.empty"
  using ref.sq_invI(2,3) [OF sample_db_ok] by (auto simp: by_id_def)

lemma sample_states [simp]:
  "states sample_db sample_history = [sample_db, db_after root_login sample_db,
     db_after remove_request (db_after root_login sample_db)]"
  by (simp add: sample_history_def states_def)

lemma sample_history_length [simp]: "length sample_history = 2"
  by (simp add: sample_history_def)

lemma root_token_signed: "GenerateToken sample_libs sample_env ''admin'' ''root'' = Inr root_token"
  by (simp add: root_token_def GenerateToken_def Let_def sample_defs jwtSecret_def sample_sign_def trunc_sec_def
    unix_sec_def duration_units in_int64_def)

lemma root_text [simp]: "\<not> blank ''root''" "\<not> blank ''toor''"
  by (simp_all add: blank_def TrimSpace_def trim_left.simps utf8_spaces_def)

lemma LoginHandler_now: "LoginHandler L (overtaken (h_store w) t S) E r w = LoginHandler L S E r w"
  by (cases "limiter_Allow L (t_limiter E) (h_limiter w)")
    (simp add: LoginHandler_def Let_def cong: option.case_cong sum.case_cong if_cong)

lemmas ref_store = sql_engine.contract [OF ref.sql_engine_axioms]

lemma login_served:
  fixes d :: db
  assumes "sq_inv (\<lambda>d. d) ref_room (Suc l) d" "sq_sessions (\<lambda>d. d) d = Map.empty"
    and "sq_users (\<lambda>d. d) d i = Some u" "U_PasswordHash u = CHR ''$'' # pw" "\<not> blank (U_Username u)" "\<not> blank pw"
    and "GenerateToken sample_libs sample_env (U_Role u) (U_Username u) = Inr tok"
  defines "r \<equiv> login_request (U_Username u) pw"
  shows "hands_out (served_by r d) tok" "sq_users (\<lambda>d. d) (db_after r d) = sq_users (\<lambda>d. d) d"
    "\<exists>x. sq_sessions (\<lambda>d. d) (db_after r d) = [S_ID x \<mapsto> x]" "sq_inv (\<lambda>d. d) ref_room l (db_after r d)"
proof -
  let ?S = "sqlite_ops ref_engine" and ?r = "incoming r\<lparr>r_path_values := []\<rparr>"
  let ?w = "new_world d (5::nat)\<lparr>h_out := new_writer\<rparr>"
  let ?v = "LoginHandler sample_libs ?S sample_env ?r ?w"
  have path: "r_escaped_path (incoming r) = ''/auth/login''"
    by (simp add: r_def incoming_def login_request_def json_request_def)
  have w [simp]: "h_store ?w = d" "h_out ?w = new_writer" "h_limiter ?w = 5" by (simp_all add: new_world_def)
  have cred: "credentials ?r (U_Username u) pw"
    using sample_credentials [OF assms(5,6)] by (simp add: r_def credentials_def Header_Get_def incoming_def)
  have ok: "status (h_out ?v) = 200"
    by (rule store.login_accepted [OF ref_store, where l = l and name = "U_Username u" and pw = pw and i = i and u = u and b = "''r''"])
      (use cred assms(1-4,7) in simp_all)
  have inv: "sq_inv (\<lambda>d. d) ref_room (Suc l) (h_store ?w)" using assms(1) by simp
  from store.login_ok [OF ref_store _ inv sample_good_env ok refl] assms(2) obtain name pw' v t x where
    o: "credentials ?r name pw'" "sq_users (\<lambda>d. d) d (U_ID v) = Some v" "U_Username v = name"
      "GenerateToken sample_libs sample_env (U_Role v) name = Inr t"
      "sq_users (\<lambda>d. d) (h_store ?v) = sq_users (\<lambda>d. d) d"
      "sq_sessions (\<lambda>d. d) (h_store ?v) = [S_ID x \<mapsto> stored_session trunc_sec x]"
      "w_body (h_out ?v) = [JsonLine (login_response t (S_Token x))]" "sq_inv (\<lambda>d. d) ref_room l (h_store ?v)"
    by auto
  have "name = U_Username u" using o(1) cred by (auto simp: credentials_def)
  moreover from this have "v = u"
    using store.users_unique [OF ref_store, OF inv, of "U_ID v" v i u] o(2,3) assms(3) by simp
  ultimately have tok: "t = tok" using o(4) assms(7) by simp
  have v: "h_store (st_after (served_by r d)) = h_store ?v" "h_out (st_after (served_by r d)) = h_out ?v"
    using LoginHandler_now [of sample_libs ?w d ?S sample_env ?r]
    by (simp_all add: served_by_def ServerHandler_def RequestLogger_def Let_def login_route [OF path])
  show "hands_out (served_by r d) tok"
    using path ok o(7) tok by (auto simp: hands_out_def v incoming_def)
  show "sq_users (\<lambda>d. d) (db_after r d) = sq_users (\<lambda>d. d) d" by (simp add: v o(5))
  show "\<exists>x. sq_sessions (\<lambda>d. d) (db_after r d) = [S_ID x \<mapsto> x]"
    using o(6) by (intro exI [of _ "stored_session trunc_sec x"]) (simp add: v)
  show "sq_inv (\<lambda>d. d) ref_room l (db_after r d)" using o(8) by (simp add: v)
qed

lemma root_login_served:
  "hands_out (served_by root_login sample_db) root_token"
  "sq_users (\<lambda>d. d) (db_after root_login sample_db) = [1 \<mapsto> root, 2 \<mapsto> alice]"
  "\<exists>x. sq_sessions (\<lambda>d. d) (db_after root_login sample_db) = [S_ID x \<mapsto> x]"
  "sq_inv (\<lambda>d. d) ref_room 4 (db_after root_login sample_db)"
  using login_served [of 4 sample_db 1 root "''toor''" root_token] sample_db_inv sample_db_users root_token_signed
  by simp_all

lemma remove_incoming [simp]: "incoming remove_request = remove_request"
  by (simp add: incoming_def remove_request_def)

lemma db_after_remove: "db_after remove_request d = snd (DeleteUser (sqlite_ops ref_engine) 2 d)"
  using remove_step [of "overtaken d d (sqlite_ops ref_engine)" "new_world d 5"]
  by (simp add: served_by_def new_world_def)

lemma alice_removed:
  assumes "sq_inv (\<lambda>d. d) ref_room l d" "sq_users (\<lambda>d. d) d 2 = Some alice"
  shows "sq_users (\<lambda>d. d) (db_after remove_request d) = (sq_users (\<lambda>d. d) d)(2 := None)"
proof -
  obtain z s where z: "DeleteUser (sqlite_ops ref_engine) 2 d = (z, s)" by fastforce
  with store.delete_user_err [OF ref_store, OF assms(1)] assms(2) obtain y where y: "z = Inr y" by (cases z) auto
  from store.delete_user_ok [OF ref_store, OF assms(1) z [unfolded y]] z show ?thesis by (simp add: db_after_remove)
qed

lemma sample_removed: "sq_users (\<lambda>d. d) (db_after remove_request (db_after root_login sample_db)) = [1 \<mapsto> root]"
  using alice_removed [OF root_login_served(4)] by (simp add: root_login_served(2))

section \<open>What every history keeps\<close>

text \<open>C17: However the requests interleave and whatever the driver fails to do, the tables stay well-typed: in every state
  of a history each row has a value of the declared type in every column, and no two rows agree in a key or a \<open>UNIQUE\<close>
  column.\<close>

theorem concurrent_tables_typed:
  assumes "sql_engine E tables avail room" "sq_wf tables d" "interleaved L (sqlite_ops E) (good_env std_year) d h"
    and "k \<le> length h" "d' = states d h ! k"
  shows "\<exists>us ss. tables d' ''users'' = Some us \<and> t_cols us = users_columns \<and> well_typed us
    \<and> tables d' ''sessions'' = Some ss \<and> t_cols ss = sessions_columns \<and> well_typed ss"
proof -
  have "sq_wf tables d'"
    unfolding assms(5) by (rule durable_store.states_later(1) [OF sql_engine.durable [OF assms(1)] assms(3,2) order_refl assms(4)])
  then obtain us n xs m where h: "holds_rows (tables d') us n xs m" "rows_wf us n xs m" by (rule sq_wfE)
  from well_typed_tables [OF h] h(1) show ?thesis
    by (intro exI [of _ "users_table us n"] exI [of _ "sessions_table xs m"])
      (simp add: holds_rows_def users_table_def sessions_table_def)
qed

theorem concurrent_tables_typed_witness:
  "\<exists>us. db_after remove_request (db_after root_login sample_db) ''users'' = Some us \<and> well_typed us"
  using concurrent_tables_typed [OF ref.sql_engine_axioms sample_db_wf sample_interleaved, of 2] by auto

text \<open>C11: What is gone stays gone: in a history an ID of a user or of a session that was deleted is never given out
  again, and a session never changes, whatever fails and however the requests interleave.\<close>

theorem concurrent_ids_not_reused:
  assumes "sql_engine E tables avail room" "sq_wf tables d" "interleaved L (sqlite_ops E) (good_env std_year) d h"
    and "i \<le> j" "j \<le> k" "k \<le> length h"
  shows "(sq_users tables (states d h ! i) n = Some u \<longrightarrow> sq_users tables (states d h ! j) n = None \<longrightarrow>
      sq_users tables (states d h ! k) n = None)
    \<and> (sq_sessions tables (states d h ! i) n = Some x \<longrightarrow> sq_sessions tables (states d h ! j) n = None \<longrightarrow>
      sq_sessions tables (states d h ! k) n = None)
    \<and> (sq_sessions tables (states d h ! i) n = Some x \<longrightarrow> sq_sessions tables (states d h ! j) n \<in> {None, Some x})"
proof -
  note D = sql_engine.durable [OF assms(1)]
  have le: "j \<le> length h" "i \<le> length h" using assms(4-6) by simp_all
  have snd: "sound (sq_content tables (states d h ! i))"
    by (rule durable_store.wf_sound [OF D durable_store.states_later(1) [OF D assms(3,2) order_refl le(2)]])
  note ij = durable_store.states_later(2) [OF D assms(3,2,4) le(1)]
  note jk = durable_store.states_later(2) [OF D assms(3,2,5,6)]
  have "sq_sessions tables (states d h ! j) n \<in> {None, Some x}" if x: "sq_sessions tables (states d h ! i) n = Some x"
  proof (cases "sq_sessions tables (states d h ! j) n")
    case (Some y)
    have "n \<le> last_session (sq_content tables (states d h ! i))"
      using filedD(1) [OF soundD(2) [OF snd], of n x] x by simp
    with laterD(4) [OF ij, of n y] Some x show ?thesis by simp
  qed simp
  with gone [OF snd ij jk, of n] show ?thesis by simp
qed

theorem concurrent_ids_not_reused_witness:
  "sq_users (\<lambda>d. d) (db_after remove_request (db_after remove_request sample_db)) 2 = None"
proof -
  let ?d = "db_after remove_request sample_db"
  have d: "sq_users (\<lambda>d. d) ?d 2 = None"
    using alice_removed [OF sample_db_inv] by (simp add: sample_db_users(1))
  have h: "interleaved sample_libs (sqlite_ops ref_engine) (good_env std_year) sample_db
      [served_by remove_request sample_db, served_by remove_request ?d]"
    using interleaved_served [OF interleaved_served [OF interleaved.Start]] by (simp add: states_def)
  show ?thesis
    using concurrent_ids_not_reused [OF ref.sql_engine_axioms sample_db_wf h, of 0 1 2 2 alice] d
    by (simp add: states_def sample_db_users(1))
qed

text \<open>C10: In a history every user has one of the three roles, if all had in the beginning: no interleaving of updates and
  password changes gives a user a role that was never valid.\<close>

theorem concurrent_roles_valid:
  assumes "sql_engine E tables avail room" "sq_wf tables d" "interleaved L (sqlite_ops E) (good_env std_year) d h"
    and "\<forall>u \<in> ran (sq_users tables d). valid_role (U_Role u)" "k \<le> length h"
  shows "\<forall>u \<in> ran (sq_users tables (states d h ! k)). U_Role u \<in> {''admin'', ''developer'', ''viewer''}"
  using durable_store.history_roles [OF sql_engine.durable [OF assms(1)] assms(3,2) _ assms(5)] assms(4)
  by (simp add: valid_role_def)

theorem concurrent_roles_valid_witness:
  "\<exists>u. sq_users (\<lambda>d. d) (db_after remove_request (db_after root_login sample_db)) 1 = Some u
    \<and> U_Role u \<in> {''admin'', ''developer'', ''viewer''}"
proof -
  have "\<forall>u \<in> ran (sq_users (\<lambda>d. d) sample_db). valid_role (U_Role u)"
    by (simp add: sample_db_users(1) valid_role_def)
  from concurrent_roles_valid [OF ref.sql_engine_axioms sample_db_wf sample_interleaved this, of 2] sample_removed
  show ?thesis by simp
qed

section \<open>Who may change what\<close>

text \<open>C4: In a history a session appears only for a user whose name and password its request gave, and disappears only
  on behalf of the user it belongs to, even when other requests come between a handler's lookups and its
  deletion.\<close>

theorem concurrent_sessions:
  assumes "sql_engine E tables avail room" "sq_wf tables d" "interleaved L (sqlite_ops E) (good_env std_year) d h"
    and "k < length h" "st = h ! k"
    and "X = sq_sessions tables (states d h ! k)" "X' = sq_sessions tables (states d h ! Suc k)"
  shows "(X n = None \<longrightarrow> X' n = Some x \<longrightarrow>
      (\<exists>u pw. sq_users tables (st_first st) (U_ID u) = Some u \<and> S_UserID x = U_ID u \<and> S_Role x = U_Role u
        \<and> credentials (st_request st) (U_Username u) pw \<and> bcrypt_CompareHashAndPassword L (U_PasswordHash u) pw))
    \<and> (X n = Some x \<longrightarrow> X' n \<noteq> Some x \<longrightarrow>
      (\<exists>c u. authenticated L (st_env st) (incoming (st_request st)) c
        \<and> sq_users tables (st_first st) (U_ID u) = Some u \<and> U_Username u = C_Username c \<and> S_UserID x = U_ID u))"
  using durable_store.session_opened [OF sql_engine.durable [OF assms(1)] assms(3,2,4), of n x]
    durable_store.session_closed [OF sql_engine.durable [OF assms(1)] assms(3,2,4), of n x]
  unfolding assms(5-7) by (auto simp: credentials_def Header_Get_def incoming_def)

theorem concurrent_sessions_witness:
  "\<exists>x u pw. sq_sessions (\<lambda>d. d) (db_after root_login sample_db) (S_ID x) = Some x \<and> S_UserID x = U_ID u
    \<and> sq_users (\<lambda>d. d) sample_db (U_ID u) = Some u \<and> credentials root_login (U_Username u) pw \<and> bcrypt_CompareHashAndPassword sample_libs (U_PasswordHash u) pw"
proof -
  obtain x where x: "sq_sessions (\<lambda>d. d) (db_after root_login sample_db) = [S_ID x \<mapsto> x]"
    using root_login_served(3) by blast
  have h: "interleaved sample_libs (sqlite_ops ref_engine) (good_env std_year) sample_db [served_by root_login sample_db]"
    using interleaved_served [OF interleaved.Start] by simp
  let ?h = "[served_by root_login sample_db]"
  have n: "sq_sessions (\<lambda>d. d) (states sample_db ?h ! 0) (S_ID x) = None" by (simp add: sample_db_users(2))
  have sx: "sq_sessions (\<lambda>d. d) (db_after root_login sample_db) (S_ID x) = Some x" by (subst x) simp
  then have s: "sq_sessions (\<lambda>d. d) (states sample_db ?h ! Suc 0) (S_ID x) = Some x" by (simp add: states_def)
  have "0 < length ?h" by simp
  note c = concurrent_sessions [where k = 0, OF ref.sql_engine_axioms sample_db_wf h this refl refl refl, where n = "S_ID x" and x = x]
  from mp [OF mp [OF conjunct1 [OF c] n] s] sx show ?thesis unfolding nth_Cons_0 served_by_simps by blast
qed

text \<open>C3: In a history users change only on behalf of a token of an administrator, or by the password change of the user
  whose name is in the token and whose password, at the lookup, was the one given; the latter writes the name and
  the role of the lookup back. A change by an administrator appends exactly one line to the audit file, which names
  the subject of the token and the path, unless the file cannot be written.\<close>

theorem concurrent_users:
  assumes "sql_engine E tables avail room" "sq_wf tables d" "interleaved L (sqlite_ops E) (good_env std_year) d h"
    and "k < length h" "st = h ! k"
    and "U = sq_users tables (states d h ! k)" "U' = sq_users tables (states d h ! Suc k)" "U' \<noteq> U"
  shows "\<exists>c. authenticated L (st_env st) (incoming (st_request st)) c \<and> (C_Role c = ''admin'' \<and> recorded c st \<or>
    (\<exists>u current new g t v. sq_users tables (st_first st) (U_ID u) = Some u \<and> U_Username u = C_Username c
      \<and> password_request (st_request st) current new \<and> bcrypt_CompareHashAndPassword L (U_PasswordHash u) current
      \<and> U (U_ID u) = Some v \<and> U' = U(U_ID u \<mapsto>
          v\<lparr>U_Username := U_Username u, U_PasswordHash := g, U_Role := U_Role u, U_UpdatedAt := t\<rparr>)))"
  using durable_store.users_changed [OF sql_engine.durable [OF assms(1)] assms(3,2,4)] assms(8)
  unfolding assms(5-7) by (simp add: password_request_def incoming_def)

theorem concurrent_users_witness:
  "\<exists>c. authenticated sample_libs sample_env remove_request c \<and> (C_Role c = ''admin'' \<or>
    (\<exists>u. sq_users (\<lambda>d. d) (db_after root_login sample_db) (U_ID u) = Some u \<and> U_Username u = C_Username c))"
proof -
  have "sq_users (\<lambda>d. d) (states sample_db sample_history ! Suc 1) \<noteq> sq_users (\<lambda>d. d) (states sample_db sample_history ! 1)"
    using sample_removed by (auto simp: root_login_served(2) dest: fun_cong [where x = 2])
  from concurrent_users [OF ref.sql_engine_axioms sample_db_wf sample_interleaved _ refl refl refl this]
  show ?thesis by (fastforce simp: sample_history_def remove_incoming)
qed

text \<open>C5: Authority traces back to a login, and lapses after fifteen minutes: every change of users in a history goes back
  to an earlier step that logged a stored user in with its password, less than fifteen minutes before the token was
  checked, unless the request carries an accepted token that no login of the history handed out. Either that user was
  an administrator then, or the change is the change of its own password, with the current one given.\<close>

theorem user_changes_trace_back:
  assumes "sql_engine E tables avail room" "sq_wf tables d" "interleaved L (sqlite_ops E) (good_env std_year) d h"
    and "jwt_laws L" "one_secret h" "\<forall>i \<le> length h. ascii_users (sq_users tables (states d h ! i))"
    and "k < length h" "U = sq_users tables (states d h ! k)" "U' = sq_users tables (states d h ! Suc k)" "U' \<noteq> U"
  shows "outside_token L h k \<or> (\<exists>m < k. \<exists>u pw. credentials (st_request (h ! m)) (U_Username u) pw
    \<and> sq_users tables (st_first (h ! m)) (U_ID u) = Some u \<and> bcrypt_CompareHashAndPassword L (U_PasswordHash u) pw
    \<and> t_validate (st_env (h ! k)) < t_expires (st_env (h ! m)) + 15 * Minute
    \<and> (U_Role u = ''admin'' \<or>
       (\<exists>v current new. sq_users tables (st_first (h ! k)) (U_ID v) = Some v \<and> U_Username v = U_Username u
          \<and> password_request (st_request (h ! k)) current new \<and> bcrypt_CompareHashAndPassword L (U_PasswordHash v) current
          \<and> (\<forall>n. n \<noteq> U_ID v \<longrightarrow> U' n = U n))))"
proof (cases "outside_token L h k")
  case inside: False
  note D = sql_engine.durable [OF assms(1)]
  let ?own = "\<lambda>name v current new. sq_users tables (st_first (h ! k)) (U_ID v) = Some v \<and> U_Username v = name
    \<and> password_request (st_request (h ! k)) current new \<and> bcrypt_CompareHashAndPassword L (U_PasswordHash v) current
    \<and> (\<forall>n. n \<noteq> U_ID v \<longrightarrow> U' n = U n)"
  have own: "\<exists>c. authenticated L (st_env (h ! k)) (incoming (st_request (h ! k))) c
      \<and> (C_Role c = ''admin'' \<or> (\<exists>v current new. ?own (C_Username c) v current new))"
    using durable_store.users_changed [OF D assms(3,2,7)] assms(10)
    unfolding assms(8,9) by (fastforce simp: password_request_def incoming_def)
  then obtain c where c: "authenticated L (st_env (h ! k)) (incoming (st_request (h ! k))) c"
    and why: "C_Role c = ''admin'' \<or> (\<exists>v current new. ?own (C_Username c) v current new)" by blast
  have ascii: "ascii_users (users_of (sq_content tables (states d h ! i)))" if "i \<le> k" for i
    using assms(6,7) that by simp
  from durable_store.accepted_token_origin [OF D assms(3,2,7,4) inside assms(5) ascii c] obtain m u pw where
    "m < k" "credentials (st_request (h ! m)) (U_Username u) pw"
    "sq_users tables (st_first (h ! m)) (U_ID u) = Some u" "bcrypt_CompareHashAndPassword L (U_PasswordHash u) pw"
    "C_Username c = U_Username u" "C_Role c = U_Role u" "t_validate (st_env (h ! k)) < t_expires (st_env (h ! m)) + 15 * Minute"
    by auto
  with why show ?thesis by (intro disjI2) metis
qed simp

theorem user_changes_trace_back_witness:
  "\<exists>u pw. credentials root_login (U_Username u) pw \<and> sq_users (\<lambda>d. d) sample_db (U_ID u) = Some u
    \<and> U_Role u = ''admin'' \<and> bcrypt_CompareHashAndPassword sample_libs (U_PasswordHash u) pw"
proof -
  let ?h = sample_history
  have "bearer_token remove_request = root_token"
    by (simp add: bearer_token_def remove_request_def Header_Get_def first_value_def TrimPrefix_append del: append.simps)
  then have inside: "\<not> outside_token sample_libs ?h 1"
    using root_login_served(1) by (auto simp: outside_token_def sample_history_def)
  have secret: "one_secret ?h" by (auto simp: one_secret_def sample_history_def less_Suc_eq numeral_2_eq_2)
  have ascii: "\<forall>i \<le> length ?h. ascii_users (sq_users (\<lambda>d. d) (states sample_db ?h ! i))"
  proof (intro allI impI)
    fix i assume "i \<le> length ?h"
    moreover have "ascii ''root''" "ascii ''admin''" "ascii ''alice''" "ascii ''viewer''" by code_simp+
    moreover from calculation(1) have "i = 0 \<or> i = 1 \<or> i = 2" by auto
    ultimately show "ascii_users (sq_users (\<lambda>d. d) (states sample_db ?h ! i))"
      by (elim disjE) (auto simp: ascii_users_def sample_db_users(1) root_login_served(2) sample_removed ran_def
        numeral_2_eq_2 split: if_splits)
  qed
  have changed: "sq_users (\<lambda>d. d) (states sample_db ?h ! Suc 1) \<noteq> sq_users (\<lambda>d. d) (states sample_db ?h ! 1)"
    using sample_removed by (auto simp: root_login_served(2) dest: fun_cong [where x = 2])
  have "\<not> password_request remove_request current new" for current new
    by (simp add: password_request_def remove_request_def Decode_def)
  with user_changes_trace_back [OF ref.sql_engine_axioms sample_db_wf sample_interleaved sample_laws secret ascii _ refl refl changed]
    inside show ?thesis
    by (fastforce simp: sample_history_def)
qed

section \<open>What is lost\<close>

text \<open>C31: A handler's lookup and its write are two calls, and an update between them is lost: when an administrator
  changes a user's role after the user's password change has read the user's row and before it writes, both requests
  are answered 200, and the user ends with the old role again.\<close>

theorem role_change_lost:
  assumes "sql_engine E tables avail room" "fresh (h_out w)" "sq_inv tables room l (h_store w)"
    and "avail (h_store w)" "avail (h_store w1)" "good_env std_year R" "good_env std_year R'"
    and "password_change r current new" "caller (sq_users tables (h_store w)) r u"
    and "bcrypt_CompareHashAndPassword L (U_PasswordHash u) current"
    and "bcrypt_GenerateFromPassword L new (getBcryptCost L (getenv R)) (salt R) = Inr h"
    and "r_method r' = ''PUT''" "path_user_id r' = Inr (U_ID u)"
    and "Decode True [''username'', ''password'', ''role''] (r_body r') = Some req"
    and "updated_user L R' req u (trunc_sec (se_now (store_env R' 0))) = Some v" "U_Username v = U_Username u"
    and "w1 = UpdateUserHandler L (sqlite_ops E) R' r' w"
    and "w2 = PasswordChangeHandler L (overtaken (h_store w) (h_store w) (sqlite_ops E)) R r (w1\<lparr>h_out := new_writer\<rparr>)"
  shows "status (h_out w1) = 200 \<and> sq_users tables (h_store w1) (U_ID u) = Some v \<and> status (h_out w2) = 200
    \<and> map_option U_Role (sq_users tables (h_store w2) (U_ID u)) = Some (U_Role u)"
  using store.overtaken_password_change [OF sql_engine.contract [OF assms(1)] assms(2-4,6-17,5,18)] by simp

lemma sample_update:
  "Decode True [''username'', ''password'', ''role''] (r_body (user_path_request ''PUT'' ''2'' [(''role'', ''admin'')])) = Some [''role'' \<mapsto> ''admin'']"
  "updated_user sample_libs sample_env [''role'' \<mapsto> ''admin''] alice 0
    = Some (alice\<lparr>U_Username := ''alice'', U_PasswordHash := ''$pw'', U_Role := ''admin'', U_UpdatedAt := 0\<rparr>)"
  by (simp add: Decode_def, simp add: updated_user_def valid_role_def)

theorem role_change_lost_witness:
  "\<exists>w1. w1 = UpdateUserHandler sample_libs (sqlite_ops ref_engine) sample_env (user_path_request ''PUT'' ''2'' [(''role'', ''admin'')]) (new_world sample_db 5)
    \<and> map_option U_Role (sq_users (\<lambda>d. d) (h_store w1) 2) = Some ''admin''
    \<and> map_option U_Role (sq_users (\<lambda>d. d) (h_store (PasswordChangeHandler sample_libs
        (overtaken sample_db sample_db (sqlite_ops ref_engine)) sample_env (password_body ''pw'' ''new'') (w1\<lparr>h_out := new_writer\<rparr>))) 2)
      = Some ''viewer''"
proof -
  let ?w = "new_world sample_db (5::nat)"
  have w: "h_store ?w = sample_db" "h_out ?w = new_writer" by (simp_all add: new_world_def)
  have c: "caller (sq_users (\<lambda>d. d) (h_store ?w)) (password_body ''pw'' ''new'') alice"
    using sample_password_change(2) by (simp add: w caller_def sample_db_users(1))
  have p: "path_user_id (user_path_request ''PUT'' ''2'' [(''role'', ''admin'')]) = Inr (U_ID alice)"
    using sample_path(1) by simp
  have t: "trunc_sec (se_now (store_env sample_env 0)) = 0" using kept_0 by (simp add: kept_def)
  show ?thesis
    using role_change_lost [OF ref.sql_engine_axioms _ _ TrueI TrueI sample_good_env sample_good_env sample_password_change(1) c _ _ _ p
        sample_update(1) sample_update(2) [folded t] _ refl refl, of 5 "''$new''"] sample_db_inv
    by (simp add: w del: overtaken_simps)
qed

end
