(* ===== verification/Overlapping_Service.thy ===== *)
theory Overlapping_Service
  imports Histories Worker
begin

text \<open>
  The abstract service under overlapping requests. Its state is \<open>accounts\<close>, as in \<open>Service_Spec\<close>; a step of
  \<open>overlapping\<close> changes the present accounts by what earlier accounts, those of its lookups, gave it the authority for.
  Histories of any \<open>durable_store\<close>, and with them the runs of the process, are runs of this service.
\<close>

section \<open>The service\<close>

text \<open>The request, as it is served; the accounts of its first and second lookup, the present ones and the next ones.\<close>

inductive overlapping ::
  "'l libs \<Rightarrow> request \<Rightarrow> accounts \<Rightarrow> accounts \<Rightarrow> accounts \<Rightarrow> accounts \<Rightarrow> bool" for L r where
  Nothing: "overlapping L r A B C C"
| Login: "fst A (S_UserID x) = Some u \<Longrightarrow> S_Username x = U_Username u \<Longrightarrow> S_Role x = U_Role u \<Longrightarrow>
    credentials r (U_Username u) pw \<Longrightarrow> bcrypt_CompareHashAndPassword L (U_PasswordHash u) pw \<Longrightarrow>
    X (S_ID x) = None \<Longrightarrow> \<forall>y \<in> ran X. S_Token y \<noteq> S_Token x \<Longrightarrow>
    overlapping L r A B (U, X) (U, X(S_ID x \<mapsto> x))"
| Password: "caller (fst A) r u \<Longrightarrow> password_request r current new \<Longrightarrow>
    bcrypt_CompareHashAndPassword L (U_PasswordHash u) current \<Longrightarrow>
    bcrypt_GenerateFromPassword L new k z = Inr h \<Longrightarrow> U (U_ID u) = Some v \<Longrightarrow>
    overlapping L r A B (U, X) (U(U_ID u \<mapsto>
      v\<lparr>U_Username := U_Username u, U_PasswordHash := h, U_Role := U_Role u, U_UpdatedAt := t\<rparr>), X)"
| Create: "is_admin r \<Longrightarrow> valid_role (U_Role u) \<Longrightarrow> U (U_ID u) = None \<Longrightarrow> \<forall>v \<in> ran U. U_Username v \<noteq> U_Username u \<Longrightarrow>
    overlapping L r A B (U, X) (U(U_ID u \<mapsto> u), X)"
| Edit: "is_admin r \<Longrightarrow> path_user_id r = Inr i \<Longrightarrow> fst A i = Some u \<Longrightarrow> U i = Some v \<Longrightarrow>
    U_ID w = i \<Longrightarrow> U_CreatedAt w = U_CreatedAt v \<Longrightarrow> valid_role (U_Role w) \<or> U_Role w = U_Role u \<Longrightarrow>
    \<forall>j v. U j = Some v \<longrightarrow> U_Username v = U_Username w \<longrightarrow> j = i \<Longrightarrow>
    overlapping L r A B (U, X) (U(i \<mapsto> w), X)"
| Remove: "is_admin r \<Longrightarrow> path_user_id r = Inr i \<Longrightarrow> overlapping L r A B (U, X) (U(i := None), X)"
| CloseOne: "caller (fst A) r u \<Longrightarrow> snd B i = Some x \<Longrightarrow> S_UserID x = U_ID u \<Longrightarrow>
    overlapping L r A B (U, X) (U, X(i := None))"
| CloseOthers: "caller (fst A) r u \<Longrightarrow> t \<noteq> [] \<Longrightarrow>
    overlapping L r A B (U, X) (U, \<lambda>i. case X i of None \<Rightarrow> None
      | Some x \<Rightarrow> if S_UserID x = U_ID u \<and> S_Token x \<noteq> t then None else Some x)"

text \<open>A run: one step for each request, with lookups answered by accounts so far.\<close>

definition overlapping_run :: "'l libs \<Rightarrow> (reqenv \<times> request) list \<Rightarrow> accounts list \<Rightarrow> bool" where
  "overlapping_run L qs As \<longleftrightarrow> length As = Suc (length qs) \<and> (\<forall>k < length qs. \<exists>r' i j. i \<le> j \<and> j \<le> k
     \<and> served_as L (fst (qs ! k)) (incoming (snd (qs ! k))) r' \<and> overlapping L r' (As ! i) (As ! j) (As ! k) (As ! Suc k))"

section \<open>Histories refine it\<close>

definition accounts_in :: "content \<Rightarrow> accounts" where
  "accounts_in c = (users_of c, sessions_of c)"

lemma accounts_in_simps [simp]: "fst (accounts_in c) = users_of c" "snd (accounts_in c) = sessions_of c"
  by (simp_all add: accounts_in_def)

lemma served_as_self: "served_as L E (incoming r) (incoming r)"
  by (auto simp: served_as_def incoming_def request_claims_def intro!: exI [of _ None] exI [of _ "[]"])

context durable_store begin

lemma written_overlapping:
  assumes wf: "wf s1" "wf s2" "sound C"
    and J: "justified L (overtaken s1 s2 S) E r s w" and W: "written res w C C'"
  shows "overlapping L r (accounts_in (content_of s1)) (accounts_in (content_of s2)) (accounts_in C) (accounts_in C')"
proof -
  note filed = soundD(1,2) [OF wf(3)]
  have caller: "caller (users_of (content_of s1)) r u" if "found S E r s1 u" for u
    using that reads_name [OF wf(1)] by (fastforce simp: found_def caller_def)
  show ?thesis
  proof (cases w)
    case (WCreateUser e n h ro)
    with W obtain i where i: "last_user C < i" "\<forall>u \<in> ran (users_of C). U_Username u \<noteq> n"
      "C' = C\<lparr>users_of := (users_of C)(i \<mapsto> \<lparr>U_ID = i, U_Username = n, U_PasswordHash = h, U_Role = ro,
         U_CreatedAt = res (se_now e), U_UpdatedAt = res (se_now e)\<rparr>), last_user := i\<rparr>" by auto
    moreover have "users_of C i = None" using filedD(1) [OF filed(1), of i] i(1) by (cases "users_of C i") auto
    ultimately show ?thesis
      using J WCreateUser overlapping.Create [where u = "\<lparr>U_ID = i, U_Username = n, U_PasswordHash = h, U_Role = ro,
         U_CreatedAt = res (se_now e), U_UpdatedAt = res (se_now e)\<rparr>" and U = "users_of C" and L = L and r = r]
      by (simp add: accounts_in_def)
  next
    case (WUpdateUser e i n h ro)
    with W obtain v where v: "users_of C i = Some v" "\<forall>j v. users_of C j = Some v \<longrightarrow> U_Username v = n \<longrightarrow> j = i"
      "C' = C\<lparr>users_of := (users_of C)(i \<mapsto> v\<lparr>U_Username := n, U_PasswordHash := h, U_Role := ro, U_UpdatedAt := res (se_now e)\<rparr>)\<rparr>"
      by auto
    from J WUpdateUser consider "own_password_call L (overtaken s1 s2 S) E r s w" | "edit_call (overtaken s1 s2 S) E r s w"
      by auto
    then show ?thesis
    proof cases
      case 1
      with v WUpdateUser caller show ?thesis
        by (auto simp: own_password_call_def accounts_in_def intro!: overlapping.Password)
    next
      case 2
      with WUpdateUser obtain u where u: "is_admin r" "path_user_id r = Inr i" "GetUser S i s1 = Inr u"
        "valid_role ro \<or> ro = U_Role u" by (auto simp: edit_call_def)
      note found = reads_user [OF wf(1) u(3)]
      show ?thesis
        using u found v filedD(1) [OF filed(1) v(1)]
        by (auto simp: accounts_in_def intro!: overlapping.Edit [where u = u and v = v])
    qed
  next
    case (WDeleteUser i)
    with J W show ?thesis by (auto simp: accounts_in_def intro: overlapping.Remove)
  next
    case (WCreateSession e uid n ro ttl)
    with W obtain i b where i: "last_session C < i" "\<forall>x \<in> ran (sessions_of C). S_Token x \<noteq> EncodeToString b"
      "C' = C\<lparr>sessions_of := (sessions_of C)(i \<mapsto> \<lparr>S_ID = i, S_UserID = uid, S_Username = n, S_Role = ro,
         S_Token = EncodeToString b, S_CreatedAt = res (se_now e), S_ExpiresAt = res (se_now e + ttl)\<rparr>), last_session := i\<rparr>"
      by auto
    from J WCreateSession obtain u name pw where u: "credentials r name pw" "GetUserByUsername S (store_env E 0) name s1 = Inr u"
      "bcrypt_CompareHashAndPassword L (U_PasswordHash u) pw" "uid = U_ID u" "n = U_Username u" "ro = U_Role u" by auto
    have "sessions_of C i = None" using filedD(1) [OF filed(2), of i] i(1) by (cases "sessions_of C i") auto
    with i u reads_name [OF wf(1) u(2)] show ?thesis
      using overlapping.Login [where x = "\<lparr>S_ID = i, S_UserID = uid, S_Username = n, S_Role = ro,
         S_Token = EncodeToString b, S_CreatedAt = res (se_now e), S_ExpiresAt = res (se_now e + ttl)\<rparr>" and u = u and pw = pw
         and X = "sessions_of C" and L = L and r = r and A = "accounts_in (content_of s1)"]
      by (simp add: accounts_in_def)
  next
    case (WDeleteSession i)
    with J W caller reads_session [OF wf(2)] show ?thesis
      by (auto simp: accounts_in_def intro!: overlapping.CloseOne)
  next
    case (WDeleteSessionsByUserID e uid t)
    with J W caller show ?thesis by (auto simp: accounts_in_def intro!: overlapping.CloseOthers)
  qed
qed

lemma history_overlapping:
  assumes h: "interleaved L S (good_env repr) s0 h" "wf s0"
  shows "overlapping_run L (map (\<lambda>st. (st_env st, st_request st)) h) (map (\<lambda>s. accounts_in (content_of s)) (states s0 h))"
proof -
  let ?As = "map (\<lambda>s. accounts_in (content_of s)) (states s0 h)"
  have A: "?As ! n = accounts_in (content_of (states s0 h ! n))" if "n \<le> length h" for n
    using that by (simp add: less_Suc_eq_le)
  have "\<exists>r' i j. i \<le> j \<and> j \<le> k \<and> served_as L (st_env (h ! k)) (incoming (st_request (h ! k))) r'
      \<and> overlapping L r' (?As ! i) (?As ! j) (?As ! k) (?As ! Suc k)" if k: "k < length h" for k
  proof (rule history_step [OF h k])
    assume "content_of (states s0 h ! Suc k) = content_of (states s0 h ! k)"
    with k show ?thesis
      by (intro exI [of _ "incoming (st_request (h ! k))"] exI [of _ k]) (simp add: A served_as_self overlapping.Nothing)
  next
    fix r' w i j assume ij: "i \<le> j" "j \<le> k" and r': "served_as L (st_env (h ! k)) (incoming (st_request (h ! k))) r'"
      and J: "justified L (overtaken (states s0 h ! i) (states s0 h ! j) S) (st_env (h ! k)) r' (states s0 h ! k) w"
      and W: "written res w (content_of (states s0 h ! k)) (content_of (states s0 h ! Suc k))"
    have wf: "wf (states s0 h ! n)" if "n \<le> k" for n
      by (rule states_later(1) [OF h order_refl]) (use that k in simp)
    have "overlapping L r' (?As ! i) (?As ! j) (?As ! k) (?As ! Suc k)"
      using written_overlapping [OF wf wf wf_sound [OF wf] J W] ij k by (simp add: A)
    with ij r' show ?thesis by blast
  qed
  moreover have "map (\<lambda>st. (st_env st, st_request st)) h ! k = (st_env (h ! k), st_request (h ! k))" if "k < length h" for k
    using that by simp
  ultimately show ?thesis by (simp add: overlapping_run_def del: nth_map)
qed

end

section \<open>The worker beside it\<close>

definition plain :: "(reqenv \<times> request \<times> nat \<times> nat) list \<Rightarrow> (reqenv \<times> request) list" where
  "plain qs = map (\<lambda>(E, r, i, j). (E, r)) qs"

lemma plain_simps [simp]: "plain [] = []" "plain ((E, r, i, j) # qs) = (E, r) # plain qs" "length (plain qs) = length qs"
  by (simp_all add: plain_def)

text \<open>What happens to the store while the worker runs is a history.\<close>

lemma run_history:
  assumes "worker_run L W evs x y" "interleaved L (cw_store W) ok s0 h" "wk_past x = states s0 h"
    and "h_store (wk_world x) = last (states s0 h)" "\<forall>(E, r) \<in> set (plain (requests evs)). ok E"
  shows "\<exists>h'. interleaved L (cw_store W) ok s0 (h @ h') \<and> wk_past y = states s0 (h @ h')
    \<and> h_store (wk_world y) = last (states s0 (h @ h')) \<and> map (\<lambda>st. (st_env st, st_request st)) h' = plain (requests evs)"
  using assms
proof (induction arbitrary: h rule: worker_run.induct)
  case (Nothing x)
  then show ?case by (intro exI [of _ "[]"]) simp
next
  case (Then ev x y evs z)
  show ?case
  proof (cases "\<exists>E r i j. ev = Request E r i j")
    case True
    then obtain E r i j where ev: "ev = Request E r i j" by blast
    let ?w = "serve L (overtaken (wk_past x ! i) (wk_past x ! j) (cw_store W)) (E, r) (wk_world x)"
    let ?st = "\<lparr>st_env = E, st_request = r, st_first = wk_past x ! i, st_second = wk_past x ! j, st_before = wk_world x, st_after = ?w\<rparr>"
    have step: "i \<le> j" "j \<le> length h" "y = x\<lparr>wk_world := ?w, wk_past := wk_past x @ [h_store ?w]\<rparr>"
      using Then.hyps(1) Then.prems(2) by (auto simp: ev)
    have "ok E" using Then.prems(4) by (simp add: ev)
    from interleaved.Serve [OF Then.prems(1) this step(1,2) refl refl Then.prems(3), of r]
    have h: "interleaved L (cw_store W) ok s0 (h @ [?st])" by (simp add: serve_def Then.prems(2))
    from Then.IH [OF h] obtain h' where "interleaved L (cw_store W) ok s0 ((h @ [?st]) @ h')" "wk_past z = states s0 ((h @ [?st]) @ h')"
      "h_store (wk_world z) = last (states s0 ((h @ [?st]) @ h'))" "map (\<lambda>st. (st_env st, st_request st)) h' = plain (requests evs)"
      using Then.prems by (auto simp: step(3) ev)
    then show ?thesis by (intro exI [of _ "?st # h'"]) (simp add: ev)
  next
    case False
    with Then.hyps(1) have "wk_past y = wk_past x" "wk_world y = wk_world x" "requests (ev # evs) = requests evs"
      by (cases ev; force)+
    with Then.IH [OF Then.prems(1)] Then.prems show ?thesis by simp
  qed
qed

end
