(* ===== verification/Deployed.thy ===== *)
theory Deployed
  imports Process_Properties Concurrent_Properties Overlapping_Service
begin

text \<open>
  The deployed process from its start to its end, over \<open>SQLiteStore\<close>: \<open>boot\<close>, the requests and the audit file together.
\<close>

text \<open>A short life: the worker starts, a request comes, and a signal ends the process.\<close>

definition sample_life :: "process_event list" where
  "sample_life = [Work NewTicker, Work (Request sample_env health_request 0 0), Signal, Drained]"

lemma sample_boot:
  "\<exists>s. boot ref_engine None files sample_senv (\<lambda>_. []) lim = Booted (NewCleanupWorker (sqlite_ops ref_engine) (24 * Hour),
    Start ((new_world s lim)\<lparr>h_audit := (case files ''audit.log'' of None \<Rightarrow> [] | Some lines \<Rightarrow> lines)\<rparr>))"
proof -
  have "ref_room (Suc 6) Map.empty" using sample_file(3) by simp
  note booted [where tables = "\<lambda>d. d" and avail = "\<lambda>_. True" and room = ref_room and d = Map.empty and files = files
    and env = "\<lambda>_. []" and lim = lim, OF ref.sql_engine_axioms sample_file(1,2) TrueI disjI2 [OF refl] this sample_file(4)]
  moreover have "cleanupInterval (\<lambda>_. []) = 24 * Hour" by (simp add: cleanupInterval_def)
  ultimately show ?thesis by metis
qed

lemma sample_lived:
  "\<exists>x. process_run L (NewCleanupWorker S (24 * Hour)) sample_life \<lparr>sv_phase = Serving, sv_sys = Start w\<rparr> x \<and> sv_phase x = Exited"
proof -
  have [simp]: "\<not> 24 * Hour \<le> 0" by (simp add: duration_units)
  show ?thesis unfolding sample_life_def
    by (intro exI conjI process_run.intros process_step.intros worker_step.intros)
      (auto simp: alive_def Start_def NewCleanupWorker_def intro: process_run.Nothing)
qed

section \<open>From boot to exit\<close>

text \<open>The accounts that \<open>boot\<close> leaves: those of the database, and the administrator if nobody has that name.\<close>

definition seeded_users :: "senv \<Rightarrow> (int \<rightharpoonup> user) \<Rightarrow> (int \<rightharpoonup> user) \<Rightarrow> bool" where
  "seeded_users e U U' \<longleftrightarrow> (if \<exists>u \<in> ran U. U_Username u = ''admin'' then U' = U
     else \<exists>i. U i = None \<and> U' = U(i \<mapsto> \<lparr>U_ID = i, U_Username = ''admin'', U_PasswordHash = adminHash, U_Role = ''admin'',
       U_CreatedAt = trunc_sec (se_now e), U_UpdatedAt = trunc_sec (se_now e)\<rparr>))"



section \<open>The audit file\<close>

text \<open>C12: The audit file outlives the process and is never cut: whatever happens from the start to the end of a process,
  the lines that were in the file at the start stay in front, and at most one line is added for each request.\<close>

theorem audit_over_restarts:
  assumes "boot E open_err files e env lim = Booted (W, sys)"
    and "process_run L W evs \<lparr>sv_phase = Serving, sv_sys = sys\<rparr> x"
  shows "\<exists>new. h_audit (wk_world (sv_sys x)) = (case files ''audit.log'' of None \<Rightarrow> [] | Some old \<Rightarrow> old) @ new
    \<and> length new \<le> length (requests (worker_events evs))"
proof -
  have "h_audit (wk_world sys) = (case files ''audit.log'' of None \<Rightarrow> [] | Some old \<Rightarrow> old)"
    using assms(1) by (auto simp: boot_def NewLogger_def Start_def split: option.splits sum.splits)
  moreover have "serve_over L (cw_store W) (requests (worker_events evs)) (wk_past sys, wk_world sys)
      = (wk_past (sv_sys x), wk_world (sv_sys x))"
    using run_world [OF process_run_worker [OF assms(2)]] by simp
  from serve_over_audit [OF this] obtain new where "h_audit (wk_world (sv_sys x)) = h_audit (wk_world sys) @ new"
    "length new \<le> length (requests (worker_events evs))" by blast
  ultimately show ?thesis by simp
qed

definition old_line :: event where
  "old_line = \<lparr>ev_Timestamp = ''1970-01-01T00:00:00Z'', ev_User = ''root'', ev_Role = ''admin'',
     ev_Action = ''ACCESS_ROLE_admin'', ev_Resource = ''/admin/users'', ev_Result = ''allow''\<rparr>"

theorem audit_over_restarts_witness:
  "\<exists>W sys x new. boot ref_engine None [''audit.log'' \<mapsto> [old_line]] sample_senv (\<lambda>_. []) 5 = Booted (W, sys)
    \<and> process_run sample_libs W sample_life \<lparr>sv_phase = Serving, sv_sys = sys\<rparr> x \<and> sv_phase x = Exited
    \<and> h_audit (wk_world (sv_sys x)) = old_line # new \<and> length new \<le> 1"
proof -
  obtain w W where W: "W = NewCleanupWorker (sqlite_ops ref_engine) (24 * Hour)"
    and b: "boot ref_engine None [''audit.log'' \<mapsto> [old_line]] sample_senv (\<lambda>_. []) (5::nat) = Booted (W, Start w)"
    using sample_boot [of "[''audit.log'' \<mapsto> [old_line]]" "5::nat"] by blast
  obtain x where x: "process_run sample_libs W sample_life \<lparr>sv_phase = Serving, sv_sys = Start w\<rparr> x" "sv_phase x = Exited"
    using sample_lived unfolding W by blast
  have "\<exists>new. h_audit (wk_world (sv_sys x)) = old_line # new \<and> length new \<le> 1"
    using audit_over_restarts [OF b x(1)] by (simp add: sample_life_def)
  with b x show ?thesis by blast
qed

end
