(* ===== verification/Root_Of_Trust.thy ===== *)
theory Root_Of_Trust
  imports Deployed
begin

text \<open>
  A new deployment: the database file is empty, and \<open>boot\<close> puts the administrator with the built-in hash into it. Whatever
  requests come then, and however they interleave, the first change goes back to the password of that hash.
\<close>

lemma sq_inv_wf: "sq_inv tables room l d \<Longrightarrow> sq_wf tables d"
  by (simp add: sq_inv_def)

lemma ascii_admin: "ascii ''admin''"
  by code_simp

lemma empty_tables:
  assumes "tables d = Map.empty"
  shows "sq_users tables d = Map.empty" "sq_sessions tables d = Map.empty"
  using assms by (simp_all add: sq_users_def sq_sessions_def rows_of_def by_id_def List.map_filter_simps)

text \<open>What \<open>boot\<close> makes of an empty file.\<close>

lemma booted_empty:
  assumes "sql_engine E tables avail room" "db_Open E ''users.db'' = Inr d" "db_Ping E d = None" "avail d"
    and "tables d = Map.empty" "std_year (se_now e)" "room (Suc l) d"
    and "boot E None files e env lim = Booted (W, sys)" "s = h_store (wk_world sys)"
  obtains u where "sq_inv tables room l s" "sq_users tables s = [U_ID u \<mapsto> u]" "sq_sessions tables s = Map.empty"
    "U_Username u = ''admin''" "U_PasswordHash u = adminHash" "U_Role u = ''admin''"
proof -
  from assms(5) have "sq_wf tables d \<or> tables d = Map.empty" by simp
  from booted [OF assms(1-4) this assms(7,6), of files env lim] obtain t log where
    b: "boot E None files e env lim = Booted (NewCleanupWorker (sqlite_ops E) (cleanupInterval env),
        Start ((new_world t lim)\<lparr>h_audit := log\<rparr>))" "sq_inv tables room l t" "sq_sessions tables t = sq_sessions tables d"
      "if \<exists>u \<in> ran (sq_users tables d). U_Username u = ''admin'' then sq_users tables t = sq_users tables d
       else \<exists>i. sq_users tables d i = None \<and> sq_users tables t = (sq_users tables d)(i \<mapsto>
         \<lparr>U_ID = i, U_Username = ''admin'', U_PasswordHash = adminHash, U_Role = ''admin'',
          U_CreatedAt = trunc_sec (se_now e), U_UpdatedAt = trunc_sec (se_now e)\<rparr>)"
    by blast
  have "s = t" using assms(8,9) b(1) by (auto simp: Start_def new_world_def)
  then show thesis
    using b(2-4) that by (force simp: empty_tables [where tables = tables and d = d, OF assms(5)])
qed

text \<open>C6: The built-in administrator is the root of all trust: in a server that was started on an empty database, no user
  and no session is ever added, changed or removed unless an earlier request logged in as \<open>admin\<close> with a
  password that the built-in hash accepts, or carried an accepted token that no login of this server handed out, one
  signed with its secret elsewhere.\<close>

theorem root_of_trust:
  assumes "sql_engine E tables avail room" "db_Open E ''users.db'' = Inr d" "db_Ping E d = None" "avail d"
    and "tables d = Map.empty" "room 1 d" "std_year (se_now e)" "boot E None files e env lim = Booted (W, sys)"
    and "s = h_store (wk_world sys)" "interleaved L (sqlite_ops E) (good_env std_year) s h" "k \<le> length h"
    and "jwt_laws L" "one_secret h"
    and "sq_users tables (states s h ! k) \<noteq> sq_users tables s \<or> sq_sessions tables (states s h ! k) \<noteq> sq_sessions tables s"
  shows "\<exists>m < k. outside_token L h m
    \<or> (\<exists>pw. credentials (st_request (h ! m)) ''admin'' pw \<and> bcrypt_CompareHashAndPassword L adminHash pw)"
proof -
  have "room (Suc 0) d" using assms(6) by simp
  from booted_empty [OF assms(1-5,7) this assms(8,9)] obtain u where
    s: "sq_inv tables room 0 s" "sq_users tables s = [U_ID u \<mapsto> u]" "sq_sessions tables s = Map.empty"
      and u: "U_Username u = ''admin''" "U_PasswordHash u = adminHash" "U_Role u = ''admin''" .
  note D = sql_engine.durable [OF assms(1)]
  have "ascii_users (sq_users tables s)" by (simp add: s(2) ascii_users_def u ascii_admin)
  moreover have "\<not> durable_store.same_accounts (sq_content tables) (states s h ! k) s"
    using assms(14) by (simp add: durable_store.same_accounts_def [OF D])
  ultimately obtain m where m: "m < k" "outside_token L h m \<or> (\<exists>v pw. credentials (st_request (h ! m)) (U_Username v) pw
    \<and> sq_users tables s (U_ID v) = Some v \<and> bcrypt_CompareHashAndPassword L (U_PasswordHash v) pw)"
    using durable_store.first_change [OF D assms(10) sq_inv_wf [OF s(1)] assms(11-13)] s(3) by auto
  moreover have "v = u" if "sq_users tables s (U_ID v) = Some v" for v using that by (simp add: s(2) split: if_splits)
  ultimately show ?thesis using u(1,2) by metis
qed

theorem root_of_trust_witness:
  "\<exists>W sys tok. boot ref_engine None Map.empty sample_senv (\<lambda>_. []) (5::nat) = Booted (W, sys)
    \<and> hands_out (served_by (login_request ''admin'' (tl adminHash)) (h_store (wk_world sys))) tok
    \<and> (\<exists>pw. credentials (login_request ''admin'' (tl adminHash)) ''admin'' pw
      \<and> bcrypt_CompareHashAndPassword sample_libs adminHash pw)"
proof -
  let ?r = "login_request ''admin'' (tl adminHash)"
  have room: "ref_room (Suc 5) Map.empty" "ref_room 1 Map.empty" by (simp_all add: ref_room_def max_rowid_def)
  obtain W sys where b: "boot ref_engine None Map.empty sample_senv (\<lambda>_. []) (5::nat) = Booted (W, sys)"
    using sample_boot [of Map.empty "5::nat"] by blast
  let ?s = "h_store (wk_world sys)"
  from booted_empty [where tables = "\<lambda>d. d" and avail = "\<lambda>_. True" and room = ref_room and d = Map.empty,
    OF ref.sql_engine_axioms sample_file(1,2) TrueI refl sample_file(4) room(1) b refl] obtain u where
    s: "sq_inv (\<lambda>d. d) ref_room 5 ?s" "sq_users (\<lambda>d. d) ?s = [U_ID u \<mapsto> u]" "sq_sessions (\<lambda>d. d) ?s = Map.empty"
      and u: "U_Username u = ''admin''" "U_PasswordHash u = adminHash" "U_Role u = ''admin''" .
  obtain tok where tok: "GenerateToken sample_libs sample_env (U_Role u) (U_Username u) = Inr tok"
    by (simp add: u GenerateToken_def Let_def sample_defs jwtSecret_def sample_sign_def trunc_sec_def
      unix_sec_def duration_units in_int64_def)
  have "sq_inv (\<lambda>d. d) ref_room (Suc 4) ?s" "sq_users (\<lambda>d. d) ?s (U_ID u) = Some u" "U_PasswordHash u = CHR ''$'' # tl adminHash"
    "\<not> blank (U_Username u)" "\<not> blank (tl adminHash)"
    using s u by (simp_all add: adminHash_def blank_def TrimSpace_def trim_left.simps utf8_spaces_def)
  note login = login_served [OF this(1) s(3) this(2-5) tok, unfolded u(1)]
  let ?h = "[served_by ?r ?s]"
  have h: "interleaved sample_libs (sqlite_ops ref_engine) (good_env std_year) ?s ?h"
    using interleaved_served [OF interleaved.Start] by (simp add: states_def)
  have "\<not> authenticated sample_libs sample_env (incoming ?r) c" for c
    by (simp add: authenticated_def) (simp add: login_request_def json_request_def Header_Get_def first_value_def)
  then have "\<not> outside_token sample_libs ?h 0" "one_secret ?h" by (simp_all add: outside_token_def one_secret_def)
  moreover obtain x where "sq_sessions (\<lambda>d. d) (db_after ?r ?s) = [S_ID x \<mapsto> x]" using login(3) by blast
  then have "sq_sessions (\<lambda>d. d) (states ?s ?h ! 1) \<noteq> sq_sessions (\<lambda>d. d) ?s" by (simp add: states_def s(3))
  ultimately show ?thesis
    using root_of_trust [where tables = "\<lambda>d. d" and avail = "\<lambda>_. True" and room = ref_room and d = Map.empty,
      OF ref.sql_engine_axioms sample_file(1,2) TrueI refl room(2) sample_file(4) b refl h, of 1] sample_laws b login(1)
    by auto
qed

end
