(* ===== verification/Shutdown.thy ===== *)
theory Shutdown
  imports Process_Properties
begin

text \<open>
  The end of \<open>main\<close>: after \<open>srv.Shutdown\<close> has returned, which waits for the last request, the deferred calls run in the
  reverse of their order in the code, the store's \<open>Close\<close> before the audit log's. The cleanup worker is not waited for: its
  steps come in between, until the process is gone. (\<open>log.Fatalf\<close> ends the process at once, without the deferred calls.)
\<close>

datatype deferred = CloseStore | CloseAudit

text \<open>Each \<open>defer\<close> pushes its call. \<open>stop\<close> and \<open>cancel\<close>, which run before, touch neither file.\<close>

definition main_defers :: "deferred list" where
  "main_defers = fold (#) [CloseAudit, CloseStore] []"

record ('d, 'l) closing =
  cl_defers :: "deferred list"
  cl_engine :: "'d engine"
  cl_logger :: logger
  cl_sys :: "('d, 'l) system"

definition returning :: "'d engine \<Rightarrow> ('d, 'l) server \<Rightarrow> ('d, 'l) closing" where
  "returning E x = \<lparr>cl_defers = main_defers, cl_engine = E,
     cl_logger = \<lparr>lg_open = True, lg_file = h_audit (wk_world (sv_sys x))\<rparr>, cl_sys = sv_sys x\<rparr>"

datatype closing_event = Step worker_event | Deferred "string option"

fun of_worker :: "worker_event \<Rightarrow> bool" where
  "of_worker Close = False"
| "of_worker (Request E r i j) = False"
| "of_worker ev = True"

inductive closing_step ::
  "'l libs \<Rightarrow> 'd cleanup_worker \<Rightarrow> closing_event \<Rightarrow> ('d, 'l) closing \<Rightarrow> ('d, 'l) closing \<Rightarrow> bool" for L W where
  Step: "cl_defers x \<noteq> [] \<Longrightarrow> wk_pc (cl_sys x) \<noteq> Panicked \<Longrightarrow> of_worker ev \<Longrightarrow>
    worker_step L (W\<lparr>cw_store := sqlite_ops (cl_engine x)\<rparr>) ev (cl_sys x) y \<Longrightarrow>
    closing_step L W (Step ev) x (x\<lparr>cl_sys := y\<rparr>)"
| CloseStore: "cl_defers x = CloseStore # ds \<Longrightarrow> wk_pc (cl_sys x) \<noteq> Panicked \<Longrightarrow>
    closing_step L W (Deferred fault) x (x\<lparr>cl_defers := ds, cl_engine := snd (sq_Close fault (cl_engine x))\<rparr>)"
| CloseAudit: "cl_defers x = CloseAudit # ds \<Longrightarrow> wk_pc (cl_sys x) \<noteq> Panicked \<Longrightarrow>
    closing_step L W (Deferred fault) x (x\<lparr>cl_defers := ds, cl_logger := snd (Logger_Close fault (cl_logger x))\<rparr>)"

inductive_simps closing_step_simps: "closing_step L W (Step ev) x y" "closing_step L W (Deferred fault) x y"

inductive closing_run ::
  "'l libs \<Rightarrow> 'd cleanup_worker \<Rightarrow> closing_event list \<Rightarrow> ('d, 'l) closing \<Rightarrow> ('d, 'l) closing \<Rightarrow> bool" for L W where
  Nothing: "closing_run L W [] x x"
| Then: "closing_step L W ev x y \<Longrightarrow> closing_run L W evs y z \<Longrightarrow> closing_run L W (ev # evs) x z"

section \<open>What is closed when\<close>

definition in_order :: "'d engine \<Rightarrow> ('d, 'l) closing \<Rightarrow> bool" where
  "in_order E x \<longleftrightarrow> (cl_defers x, cl_engine x, lg_open (cl_logger x))
     \<in> {(main_defers, E, True), ([CloseAudit], closed_engine E, True), ([], closed_engine E, False)}"

lemma in_order_returning: "in_order E (returning E x)"
  by (simp add: in_order_def returning_def)

lemma in_order_step: "closing_step L W ev x y \<Longrightarrow> in_order E x \<Longrightarrow> in_order E y"
  by (induction rule: closing_step.induct)
    (auto simp: in_order_def main_defers_def sq_Close_def Logger_Close_def)

definition deferred_calls :: "closing_event list \<Rightarrow> nat" where
  "deferred_calls evs = length (filter (\<lambda>ev. \<not> (\<exists>w. ev = Step w)) evs)"

text \<open>The worker's lines once the store is closed.\<close>

fun closed_lines :: "closing_event list \<Rightarrow> worker_line list" where
  "closed_lines [] = []"
| "closed_lines (Step (Pass e clock) # evs) = ListFailed (''failed to query users: '' @ ErrDBClosed) # closed_lines evs"
| "closed_lines (Step Stop # evs) = WorkerStopped # closed_lines evs"
| "closed_lines (_ # evs) = closed_lines evs"

lemma closed_pass:
  "pass_lines (W\<lparr>cw_store := sqlite_ops (closed_engine E)\<rparr>) e clock d = [ListFailed (''failed to query users: '' @ ErrDBClosed)]"
  by (simp add: pass_lines_def sqlite_ops_def sq_ListUsers_def closed_engine_def)

lemma closing_step_frame:
  "closing_step L W ev x y \<Longrightarrow> wk_past (cl_sys y) = wk_past (cl_sys x) \<and> wk_world (cl_sys y) = wk_world (cl_sys x) \<and> lg_file (cl_logger y) = lg_file (cl_logger x)
    \<and> length (cl_defers x) = length (cl_defers y) + deferred_calls [ev]"
proof (induction rule: closing_step.induct)
  case (Step x ev y)
  then show ?case by (cases ev) (auto simp: deferred_calls_def)
qed (auto simp: deferred_calls_def Logger_Close_def)

lemma closing_run_frame:
  "closing_run L W evs x y \<Longrightarrow> in_order E x \<Longrightarrow>
    wk_past (cl_sys y) = wk_past (cl_sys x) \<and> wk_world (cl_sys y) = wk_world (cl_sys x) \<and> lg_file (cl_logger y) = lg_file (cl_logger x)
    \<and> length (cl_defers x) = length (cl_defers y) + deferred_calls evs \<and> in_order E y"
proof (induction rule: closing_run.induct)
  case (Then ev x y evs z)
  have "deferred_calls (ev # evs) = deferred_calls [ev] + deferred_calls evs" by (simp add: deferred_calls_def)
  with Then.IH [OF in_order_step [OF Then.hyps(1) Then.prems]] closing_step_frame [OF Then.hyps(1)] show ?case by simp
qed (simp add: deferred_calls_def)

lemma closed_run_lines:
  "closing_run L W evs x y \<Longrightarrow> in_order E x \<Longrightarrow> cl_defers x \<noteq> main_defers \<Longrightarrow>
    wk_lines (cl_sys y) = wk_lines (cl_sys x) @ closed_lines evs"
proof (induction rule: closing_run.induct)
  case (Then ev x y evs z)
  have e: "cl_engine x = closed_engine E" using Then.prems by (auto simp: in_order_def)
  have "cl_defers y \<noteq> main_defers"
    using Then.hyps(1) Then.prems by (cases ev) (auto simp: closing_step_simps in_order_def main_defers_def)
  note IH = Then.IH [OF in_order_step [OF Then.hyps(1) Then.prems(1)] this]
  show ?case
  proof (cases ev)
    case (Step w)
    with Then.hyps(1) IH show ?thesis by (cases w) (auto simp: closing_step_simps e closed_pass)
  next
    case (Deferred fault)
    with Then.hyps(1) IH show ?thesis by (auto simp: closing_step_simps)
  qed
qed simp

lemma closing_run_append:
  "closing_run L W (evs @ evs') x z \<longleftrightarrow> (\<exists>y. closing_run L W evs x y \<and> closing_run L W evs' y z)"
proof (induction evs arbitrary: x)
  case Nil
  show ?case by (auto intro: closing_run.intros elim: closing_run.cases)
next
  case (Cons ev evs)
  have split: "closing_run L W (ev # fs) x z \<longleftrightarrow> (\<exists>y. closing_step L W ev x y \<and> closing_run L W fs y z)" for fs x z
    by (auto intro: closing_run.intros elim: closing_run.cases)
  show ?case by (auto simp: split Cons)
qed

text \<open>C13: A clean end is in order. No request is served once the deferred calls of \<open>main\<close> run, and they leave the
  database and the lines of the audit file as the last request did; the audit file is closed last, after the
  store, so that nothing can change users with the log already closed; each file is closed at most once, and
  a pass of the worker that comes too late finds the store closed and logs that, nothing else.\<close>

theorem clean_shutdown:
  assumes "process_run L W es \<lparr>sv_phase = Serving, sv_sys = Start w\<rparr> x" "sv_phase x = Exited"
    and "closing_run L W evs (returning E x) z"
  shows "(wk_past (cl_sys z), wk_world (cl_sys z)) = serve_over L (cw_store W) (requests (worker_events es)) ([h_store w], w)
    \<and> lg_file (cl_logger z) = h_audit (wk_world (cl_sys z))
    \<and> (lg_open (cl_logger z) \<or> cl_engine z = closed_engine E)
    \<and> deferred_calls evs \<le> 2 \<and> (deferred_calls evs = 2 \<longleftrightarrow> \<not> lg_open (cl_logger z))
    \<and> (\<forall>pre fault post. evs = pre @ Deferred fault # post \<longrightarrow> (\<exists>old. wk_lines (cl_sys z) = old @ closed_lines post))"
proof -
  note start = in_order_returning [of E x]
  note frame = closing_run_frame [OF assms(3) start]
  have world: "(wk_past (sv_sys x), wk_world (sv_sys x)) = serve_over L (cw_store W) (requests (worker_events es)) ([h_store w], w)"
    using run_world [OF process_run_worker [OF assms(1)]] by (simp add: Start_def)
  have "\<exists>old. wk_lines (cl_sys z) = old @ closed_lines post" if ev: "evs = pre @ Deferred fault # post" for pre fault post
  proof -
    from assms(3) obtain y where y: "closing_run L W (pre @ [Deferred fault]) (returning E x) y" "closing_run L W post y z"
      using closing_run_append [of L W "pre @ [Deferred fault]" post] by (auto simp: ev)
    note yf = closing_run_frame [OF y(1) start]
    have "cl_defers y \<noteq> main_defers"
      using yf by (auto simp: returning_def deferred_calls_def)
    from closed_run_lines [OF y(2) _ this, of E] yf show ?thesis by blast
  qed
  then show ?thesis
    using frame world by (auto simp: returning_def main_defers_def in_order_def)
qed

theorem clean_shutdown_witness:
  "\<exists>x z old. process_run sample_libs (NewCleanupWorker (sqlite_ops ref_engine) Hour) [Work NewTicker, Signal, Drained]
      \<lparr>sv_phase = Serving, sv_sys = Start (new_world sample_db (5::nat))\<rparr> x
    \<and> closing_run sample_libs (NewCleanupWorker (sqlite_ops ref_engine) Hour)
        [Deferred None, Step Tick, Step (Pass sample_senv (\<lambda>_. 0)), Deferred None] (returning ref_engine x) z
    \<and> wk_lines (cl_sys z) = old @ [ListFailed ''failed to query users: sql: database is closed'']
    \<and> h_store (wk_world (cl_sys z)) = sample_db \<and> \<not> lg_open (cl_logger z)"
proof -
  let ?W = "NewCleanupWorker (sqlite_ops ref_engine) Hour" and ?w = "new_world sample_db (5::nat)"
  let ?evs = "[Deferred None, Step Tick, Step (Pass sample_senv (\<lambda>_. 0)), Deferred None]"
  have [simp]: "\<not> Hour \<le> 0" by (simp add: duration_units)
  have "\<exists>x. process_run sample_libs ?W [Work NewTicker, Signal, Drained] \<lparr>sv_phase = Serving, sv_sys = Start ?w\<rparr> x
      \<and> sv_phase x = Exited \<and> wk_pc (sv_sys x) = Selecting"
    by (intro exI conjI process_run.intros process_step.intros worker_step.intros)
      (auto simp: alive_def Start_def NewCleanupWorker_def intro: process_run.Nothing)
  then obtain x where x: "process_run sample_libs ?W [Work NewTicker, Signal, Drained] \<lparr>sv_phase = Serving, sv_sys = Start ?w\<rparr> x"
    "sv_phase x = Exited" "wk_pc (sv_sys x) = Selecting" by blast
  have "\<exists>z. closing_run sample_libs ?W ?evs (returning ref_engine x) z"
    by (rule exI, (rule closing_run.Then, force simp: closing_step_simps returning_def main_defers_def x(3))+, rule closing_run.Nothing)
  then obtain z where z: "closing_run sample_libs ?W ?evs (returning ref_engine x) z" by blast
  note c = clean_shutdown [OF x(1,2) z]
  have "?evs = [] @ Deferred None # tl ?evs" by simp
  with c obtain old where "wk_lines (cl_sys z) = old @ closed_lines (tl ?evs)" by blast
  with c show ?thesis
    by (intro exI [of _ x] exI [of _ z] exI [of _ old] conjI x(1) z) (simp_all add: ErrDBClosed_def deferred_calls_def new_world_def)
qed

end
