(* ===== verification/Login_Rate.thy ===== *)
theory Login_Rate
  imports Samples
begin

text \<open>
  The rate limit of the login (\<open>loginLimiter\<close> of \<open>internal/handler/auth.go\<close>): one limiter for the whole server. What
  \<open>golang.org/x/time/rate\<close> documents is the law \<open>rate_law\<close>, and \<open>bucket\<close> is a limiter that keeps it; the server passes
  every login through it, so it bounds how many passwords can be tried.
\<close>

text \<open>\<open>rate.NewLimiter(rate.Limit(5), 10)\<close>: events per second, and burst.\<close>

definition loginLimiter :: "int \<times> int" where
  "loginLimiter = (5, 10)"

text \<open>A run of \<open>Allow\<close> at the given times: the number of events that may happen, and the state after it.\<close>

fun allow_run :: "(instant \<Rightarrow> 'l \<Rightarrow> bool \<times> 'l) \<Rightarrow> instant list \<Rightarrow> 'l \<Rightarrow> int \<times> 'l" where
  "allow_run allow [] x = (0, x)"
| "allow_run allow (t # ts) x =
     (let (ok, y) = allow t x; (n, z) = allow_run allow ts y in ((if ok then n + 1 else n), z))"

text \<open>The limiter lets a burst pass, and beyond it as many events as the rate gives for the time that has gone by.\<close>

definition rate_law :: "(instant \<Rightarrow> 'l \<Rightarrow> bool \<times> 'l) \<Rightarrow> int \<times> int \<Rightarrow> bool" where
  "rate_law allow = (\<lambda>(rate, burst). \<forall>x t ts. sorted (t # ts) \<longrightarrow>
     fst (allow_run allow (t # ts) x) * Second \<le> burst * Second + rate * (last (t # ts) - t))"

section \<open>A token bucket\<close>

text \<open>The state is the tokens, in parts of a \<open>Second\<close>, and the time of the last call.\<close>

definition bucket :: "int \<times> int \<Rightarrow> instant \<Rightarrow> int \<times> instant \<Rightarrow> bool \<times> (int \<times> instant)" where
  "bucket = (\<lambda>(rate, burst) t (tokens, last).
     let now = min (burst * Second) (tokens + rate * max 0 (t - last))
     in if Second \<le> now then (True, (now - Second, t)) else (False, (now, t)))"

lemma bucket_eq:
  "now = min (burst * Second) (k + rate * max 0 (t - s)) \<Longrightarrow>
    bucket (rate, burst) t (k, s) = (if Second \<le> now then (True, (now - Second, t)) else (False, (now, t)))"
  by (simp add: bucket_def Let_def)

lemma second_pos [simp]: "0 < Second"
  by (simp add: duration_units)

lemma bucket_run:
  assumes "0 \<le> rate" "sorted (s # ts)"
  shows "fst (allow_run (bucket (rate, burst)) ts (k, s)) * Second \<le> max 0 k + rate * (last (s # ts) - s)"
  using assms(2)
proof (induction ts arbitrary: k s)
  case (Cons t ts)
  define now where "now = min (burst * Second) (k + rate * max 0 (t - s))"
  have st: "s \<le> t" "sorted (t # ts)" using Cons.prems by simp_all
  have now: "now \<le> k + rate * (t - s)" "0 \<le> rate * (t - s)" using st(1) assms(1) by (simp_all add: now_def)
  have last: "rate * (last (s # t # ts) - s) = rate * (last (t # ts) - t) + rate * (t - s)"
    by (simp add: algebra_simps)
  note IH = Cons.IH [OF st(2)]
  show ?case unfolding last
  proof (cases "Second \<le> now")
    case True
    then have "fst (allow_run (bucket (rate, burst)) (t # ts) (k, s))
        = fst (allow_run (bucket (rate, burst)) ts (now - Second, t)) + 1"
      by (simp add: bucket_eq [OF now_def] split: prod.split)
    with IH [of "now - Second"] now True
    show "fst (allow_run (bucket (rate, burst)) (t # ts) (k, s)) * Second
        \<le> max 0 k + (rate * (last (t # ts) - t) + rate * (t - s))" by (simp add: distrib_right)
  next
    case False
    then have "fst (allow_run (bucket (rate, burst)) (t # ts) (k, s)) = fst (allow_run (bucket (rate, burst)) ts (now, t))"
      by (simp add: bucket_eq [OF now_def] split: prod.split)
    with IH [of now] now
    show "fst (allow_run (bucket (rate, burst)) (t # ts) (k, s)) * Second
        \<le> max 0 k + (rate * (last (t # ts) - t) + rate * (t - s))" by simp
  qed
qed simp

lemma bucket_law: "0 \<le> rate \<Longrightarrow> 0 \<le> burst \<Longrightarrow> rate_law (bucket (rate, burst)) (rate, burst)"
  unfolding rate_law_def prod.case
proof (intro allI impI)
  fix x :: "int \<times> instant" and t :: instant and ts :: "instant list"
  assume r: "0 \<le> rate" "0 \<le> burst" and st: "sorted (t # ts)"
  obtain k s where x: "x = (k, s)" by (cases x)
  define now where "now = min (burst * Second) (k + rate * max 0 (t - s))"
  have "0 \<le> burst * Second" by (intro mult_nonneg_nonneg r(2) less_imp_le [OF second_pos])
  then have now: "max 0 now \<le> burst * Second" by (simp add: now_def)
  show "fst (allow_run (bucket (rate, burst)) (t # ts) x) * Second \<le> burst * Second + rate * (last (t # ts) - t)"
  proof (cases "Second \<le> now")
    case True
    then have "fst (allow_run (bucket (rate, burst)) (t # ts) x)
        = fst (allow_run (bucket (rate, burst)) ts (now - Second, t)) + 1"
      by (simp add: x bucket_eq [OF now_def] split: prod.split)
    with bucket_run [OF r(1) st, of burst "now - Second"] now True show ?thesis by (simp add: distrib_right)
  next
    case False
    then have eq: "fst (allow_run (bucket (rate, burst)) (t # ts) x) = fst (allow_run (bucket (rate, burst)) ts (now, t))"
      by (simp add: x bucket_eq [OF now_def] split: prod.split)
    show ?thesis unfolding eq using bucket_run [OF r(1) st, of burst now] now by linarith
  qed
qed

section \<open>The server behind the limiter\<close>

lemma h_limiter_auth [simp]:
  "h_limiter (SessionsHandler S E r w) = h_limiter w" "h_limiter (DeleteSessionHandler S E r w) = h_limiter w"
  "h_limiter (DeleteAllSessionsHandler S E r w) = h_limiter w" "h_limiter (PasswordChangeHandler L S E r w) = h_limiter w"
  "h_limiter (MeHandler r w) = h_limiter w" "h_limiter (HealthHandler r w) = h_limiter w"
  "h_limiter (WhoamiHandler r w) = h_limiter w" "h_limiter (ProjectsHandler r w) = h_limiter w"
  "h_limiter (ListUsersHandler S E r w) = h_limiter w" "h_limiter (CreateUserHandler L S E r w) = h_limiter w"
  "h_limiter (GetUserHandler S E r w) = h_limiter w" "h_limiter (DeleteUserHandler S r w) = h_limiter w"
  by (simp_all add: handler_defs Let_def split: option.split sum.split prod.split)

lemma h_limiter_update [simp]: "h_limiter (UpdateUserHandler L S E r w) = h_limiter w"
proof -
  have last: "h_limiter (case UpdateUser S e i n h ro s of
      (Inl err, s') \<Rightarrow> if Contains err ''already taken''
          then reply (jsonError err StatusConflict) (w\<lparr>h_store := s'\<rparr>)
          else reply (jsonError ''Internal server error'' StatusInternalServerError) (w\<lparr>h_store := s'\<rparr>)
    | (Inr user, s') \<Rightarrow> reply (Write (JsonLine (user_response user)) \<circ> json_type) (w\<lparr>h_store := s'\<rparr>)) = h_limiter w"
    for e i n h ro s
    by (simp split: sum.split prod.split)
  show ?thesis by (simp add: UpdateUserHandler_def Let_def last split: sum.split option.split)
qed

text \<open>A request asks the limiter once, or not at all; a login that is not refused with 429 was let through.\<close>

lemma login_limiter: "h_limiter (LoginHandler L S E r w) = snd (limiter_Allow L (t_limiter E) (h_limiter w))"
  by (cases "limiter_Allow L (t_limiter E) (h_limiter w)")
    (simp add: LoginHandler_def Let_def split: option.split sum.split prod.split)

lemma login_limited:
  "fresh (h_out w) \<Longrightarrow> status (h_out (LoginHandler L S E r w)) \<noteq> 429 \<Longrightarrow> fst (limiter_Allow L (t_limiter E) (h_limiter w))"
  by (cases "limiter_Allow L (t_limiter E) (h_limiter w)")
    (simp add: LoginHandler_def Let_def split: if_splits)

lemma h_limiter_role [simp]:
  "h_limiter (RequireRole E role (ServeMux (admin_routes L S E)) r w) = h_limiter w"
proof (rule RequireRole_cases [of E role "ServeMux (admin_routes L S E)" r w], goal_cases)
  case (2 c)
  have "h_limiter (ServeMux (admin_routes L S E) r v) = h_limiter v" for v
    by (rule ServeMux_cases [of "admin_routes L S E" r v])
      (auto simp: admin_routes_def admin_users_route_def admin_user_route_def)
  with 2 show ?case by simp
qed simp

lemma h_limiter_protected [simp]: "h_limiter (ServeMux (protected_routes E) r w) = h_limiter w"
  by (rule ServeMux_cases [of "protected_routes E" r w])
    (auto simp: protected_routes_def projects_route_def RequirePermission_def Let_def split: option.split)

lemma h_limiter_auth_mw:
  "(\<And>c. h_limiter (h (r\<lparr>r_claims := c\<rparr>) w) = h_limiter w) \<Longrightarrow> h_limiter (AuthMiddleware L E h r w) = h_limiter w"
  by (rule AuthMiddleware_cases [of L E h r w]) simp_all

lemma limiter_step:
  "h_limiter (ServerHandler L S E r w) = h_limiter w
    \<or> h_limiter (ServerHandler L S E r w) = snd (limiter_Allow L (t_limiter E) (h_limiter w))"
proof -
  let ?w = "w\<lparr>h_out := new_writer\<rparr>"
  have "h_limiter (ServeMux (main_routes L S E) r ?w) = h_limiter w
      \<or> h_limiter (ServeMux (main_routes L S E) r ?w) = snd (limiter_Allow L (t_limiter E) (h_limiter w))"
  proof (rule ServeMux_cases [of "main_routes L S E" r ?w], goal_cases own handler)
    case (handler pat h pvs)
    from handler(1) consider "h = HealthHandler" | "h = LoginHandler L S E"
      | g where "h = AuthMiddleware L E g" "g = ServeMux (protected_routes E) \<or> g = MeHandler
          \<or> g = PasswordChangeHandler L S E \<or> g = sessions_route S E \<or> g = DeleteSessionHandler S E
          \<or> g = RequireRole E ''admin'' (ServeMux (admin_routes L S E))"
      by (auto simp: main_routes_def Let_def)
    then show ?case unfolding handler(3)
    proof cases
      case (3 g)
      then have "h_limiter (AuthMiddleware L E g (r\<lparr>r_path_values := pvs\<rparr>) ?w) = h_limiter ?w"
        by (intro h_limiter_auth_mw) (auto simp: sessions_route_def)
      with 3 show "h_limiter (h (r\<lparr>r_path_values := pvs\<rparr>) ?w) = h_limiter w
          \<or> h_limiter (h (r\<lparr>r_path_values := pvs\<rparr>) ?w) = snd (limiter_Allow L (t_limiter E) (h_limiter w))"
        by simp
    qed (auto simp: login_limiter)
  qed simp
  then show ?thesis by (simp add: ServerHandler_def RequestLogger_def Let_def)
qed

section \<open>Passwords tried in a run\<close>

text \<open>A login that was not refused with 429. (A request that the router answers itself does not get to the handler.)\<close>

definition tried :: "(reqenv \<times> request) \<times> response_writer \<Rightarrow> bool" where
  "tried = (\<lambda>((E, r), out). login_path r \<and> status out \<notin> {301, 404, 429})"

lemma tried_step:
  assumes "tried ((E, r), h_out (serve L S (E, r) w))"
  shows "fst (limiter_Allow L (t_limiter E) (h_limiter w))
    \<and> h_limiter (serve L S (E, r) w) = snd (limiter_Allow L (t_limiter E) (h_limiter w))"
proof -
  let ?r = "incoming r\<lparr>r_path_values := []\<rparr>" and ?w = "w\<lparr>h_out := new_writer\<rparr>"
  have path: "login_path (incoming r)" and out: "status (h_out (serve L S (E, r) w)) \<notin> {301, 404, 429}"
    using assms by (simp_all add: tried_def login_path_def incoming_def)
  from path have
    "h_out (serve L S (E, r) w) = h_out (LoginHandler L S E ?r ?w)
      \<and> h_limiter (serve L S (E, r) w) = h_limiter (LoginHandler L S E ?r ?w)"
  proof (cases rule: login_reached [where L = L and S = S and E = E and w = ?w])
    case (own f)
    then have "status (h_out (serve L S (E, r) w)) \<in> {301, 404}" by (simp add: serve_def ServerHandler_def RequestLogger_def Let_def)
    with out show ?thesis by simp
  qed (simp add: serve_def ServerHandler_def RequestLogger_def Let_def)
  moreover have "fresh (h_out ?w)" by (simp add: fresh_def new_writer_def)
  ultimately show ?thesis
    using login_limited [of ?w L S E ?r] assms by (simp add: tried_def login_limiter)
qed

lemma tried_allowed:
  assumes "sorted (map (\<lambda>(E, r). t_limiter E) qs)"
  shows "\<exists>ts. sorted ts \<and> set ts \<subseteq> (\<lambda>(E, r). t_limiter E) ` set qs
    \<and> int (length (filter tried (zip qs (responses L S qs w)))) \<le> fst (allow_run (limiter_Allow L) ts (h_limiter w))"
  using assms
proof (induction qs arbitrary: w)
  case (Cons q qs)
  obtain E r where q: "q = (E, r)" by (cases q)
  let ?v = "serve L S (E, r) w" and ?x = "h_limiter w"
  have sorted: "sorted (map (\<lambda>(E, r). t_limiter E) qs)" "\<forall>t \<in> (\<lambda>(E, r). t_limiter E) ` set qs. t_limiter E \<le> t"
    using Cons.prems by (simp_all add: q)
  from Cons.IH [OF sorted(1), of ?v] obtain ts where ts: "sorted ts" "set ts \<subseteq> (\<lambda>(E, r). t_limiter E) ` set qs"
    "int (length (filter tried (zip qs (responses L S qs ?v)))) \<le> fst (allow_run (limiter_Allow L) ts (h_limiter ?v))"
    by blast
  have first: "sorted (t_limiter E # ts)" using sorted(2) ts(1,2) by auto
  obtain ok y where a: "limiter_Allow L (t_limiter E) ?x = (ok, y)" by fastforce
  have sub: "set (t_limiter E # ts) \<subseteq> (\<lambda>(E, r). t_limiter E) ` set (q # qs)" using ts(2) by (auto simp: q)
  have run: "fst (allow_run (limiter_Allow L) (t_limiter E # ts) ?x) =
      fst (allow_run (limiter_Allow L) ts y) + (if ok then 1 else 0)"
    by (simp add: a split: prod.split)
  show ?case
  proof (cases "h_limiter ?v = y")
    case True
    have "tried (q, h_out ?v) \<Longrightarrow> ok" using tried_step [of E r L S w] by (simp add: q a)
    with run ts(3) True show ?thesis
      by (intro exI [of _ "t_limiter E # ts"] conjI first sub) (auto simp: q)
  next
    case False
    then have "h_limiter ?v = ?x" using limiter_step [of L S E "incoming r" w] a by (auto simp: serve_def)
    moreover have "\<not> tried (q, h_out ?v)" using tried_step [of E r L S w] False by (auto simp: q a)
    ultimately show ?thesis using ts sub by (intro exI [of _ ts]) (auto simp: q)
  qed
qed simp

text \<open>C15: Passwords cannot be tried faster than the limiter allows: of the logins that arrive within any \<open>d\<close> seconds, at
  most \<open>10 + 5 * d\<close> get past the answer 429, whoever sends them.\<close>

theorem login_rate_bounded:
  assumes "rate_law (limiter_Allow L) loginLimiter" "sorted (map (\<lambda>(E, r). t_limiter E) qs)"
    and "\<forall>(E, r) \<in> set qs. start \<le> t_limiter E \<and> t_limiter E \<le> start + d * Second" "0 \<le> d"
  shows "int (length (filter tried (zip qs (responses L S qs w)))) \<le> 10 + 5 * d"
proof -
  from tried_allowed [OF assms(2), of L S w] obtain ts where ts: "sorted ts" "set ts \<subseteq> (\<lambda>(E, r). t_limiter E) ` set qs"
    "int (length (filter tried (zip qs (responses L S qs w)))) \<le> fst (allow_run (limiter_Allow L) ts (h_limiter w))"
    by blast
  show ?thesis
  proof (cases ts)
    case Nil
    with ts(3) assms(4) show ?thesis by simp
  next
    case (Cons t us)
    have "t \<in> set ts" "last ts \<in> set ts" by (simp_all add: Cons)
    then have "start \<le> t" "last ts \<le> start + d * Second" using ts(2) assms(3) by fastforce+
    then have "5 * (last ts - t) \<le> 5 * (d * Second)" by simp
    moreover have "fst (allow_run (limiter_Allow L) ts (h_limiter w)) * Second \<le> 10 * Second + 5 * (last ts - t)"
      using assms(1) ts(1) unfolding Cons rate_law_def loginLimiter_def by blast
    ultimately have "fst (allow_run (limiter_Allow L) ts (h_limiter w)) * Second \<le> (10 + 5 * d) * Second"
      by (simp add: distrib_right)
    then have "fst (allow_run (limiter_Allow L) ts (h_limiter w)) \<le> 10 + 5 * d" by simp
    with ts(3) show ?thesis by simp
  qed
qed

definition bucket_libs :: "(int \<times> instant) libs" where
  "bucket_libs = \<lparr>bcrypt_DefaultCost = 10, bcrypt_GenerateFromPassword = (\<lambda>p c z. Inr (CHR ''$'' # p)),
     bcrypt_CompareHashAndPassword = (\<lambda>h p. h = CHR ''$'' # p), jwt_NewNumericDate = trunc_sec,
     jwt_SignedString = sample_sign, jwt_ParseWithClaims = sample_parse, limiter_Allow = bucket loginLimiter\<rparr>"

theorem login_rate_bounded_witness:
  "int (length (filter tried (zip (replicate 12 (sample_env, login_request ''alice'' ''no''))
     (responses bucket_libs mem_ops (replicate 12 (sample_env, login_request ''alice'' ''no''))
       (new_world sample_mem (10 * Second, 0)))))) \<le> 10"
proof -
  have "rate_law (limiter_Allow bucket_libs) loginLimiter"
    unfolding loginLimiter_def by (simp add: bucket_libs_def loginLimiter_def bucket_law)
  from login_rate_bounded [OF this, of "replicate 12 (sample_env, login_request ''alice'' ''no'')" 0 0 mem_ops
      "new_world sample_mem (10 * Second, 0)"]
  show ?thesis by (auto simp: sorted_replicate)
qed

end
