(* ===== verification/Confidentiality.thy ===== *)
theory Confidentiality
  imports Samples
begin

text \<open>
  Confidentiality of the password hashes, as non-interference: two stores that differ in nothing but hashes give the same
  answers to every request other than a login or a password change, which compare a password with a hash. The
  handlers keep this for every store whose operations do (the locale \<open>blind_store\<close>); the in-memory store is one.
\<close>

definition veil :: "user \<Rightarrow> user" where
  "veil u = u\<lparr>U_PasswordHash := []\<rparr>"

lemma veil_iff: "veil u = veil v \<longleftrightarrow> U_ID u = U_ID v \<and> U_Username u = U_Username v \<and> U_Role u = U_Role v
    \<and> U_CreatedAt u = U_CreatedAt v \<and> U_UpdatedAt u = U_UpdatedAt v"
  by (cases u; cases v) (auto simp: veil_def)

lemma veil_simps [simp]: "U_ID (veil u) = U_ID u" "U_Username (veil u) = U_Username u" "U_Role (veil u) = U_Role u"
  "veil (veil u) = veil u"
  by (simp_all add: veil_def)

text \<open>What the handlers write of a user.\<close>

lemma veiled_json: "veil u = veil v \<Longrightarrow> user_response u = user_response v" "veil u = veil v \<Longrightarrow> user_json u = user_json v"
  by (simp_all add: veil_iff user_response_def user_json_def)

lemma veiled_list: "map veil us = map veil vs \<Longrightarrow> map user_json us = map user_json vs"
proof -
  assume "map veil us = map veil vs"
  then have "map user_json (map veil us) = map user_json (map veil vs)" by simp
  moreover have "user_json (veil u) = user_json u" for u by (rule veiled_json(2)) simp
  ultimately show ?thesis by (simp add: comp_def)
qed

section \<open>Stores that do not look at hashes\<close>

text \<open>\<open>blind\<close> takes the hashes out of a state. A call on it gives what it gives on the state, without the hashes, whatever
  hash it is to write.\<close>

locale blind_store =
  fixes S :: "'s store_ops" and blind :: "'s \<Rightarrow> 's"
  assumes get_user: "GetUser S i (blind s) = map_sum id veil (GetUser S i s)"
    and get_name: "GetUserByUsername S e n (blind s) = map_sum id veil (GetUserByUsername S e n s)"
    and list_users: "ListUsers S e ro (blind s) = map_sum id (map veil) (ListUsers S e ro s)"
    and create_user: "CreateUser S e n [] ro (blind s) = map_prod (map_sum id veil) blind (CreateUser S e n h ro s)"
    and update_user: "UpdateUser S e i n [] ro (blind s) = map_prod (map_sum id veil) blind (UpdateUser S e i n h ro s)"
    and delete_user: "DeleteUser S i (blind s) = map_prod id blind (DeleteUser S i s)"
    and get_session: "GetSessionByID S i (blind s) = GetSessionByID S i s"
    and list_sessions: "ListSessionsByUserID S e i (blind s) = ListSessionsByUserID S e i s"
    and delete_session: "DeleteSession S i (blind s) = map_prod id blind (DeleteSession S i s)"
    and delete_sessions: "DeleteSessionsByUserID S e i t (blind s) = map_prod id blind (DeleteSessionsByUserID S e i t s)"
begin

text \<open>The results of the same call on two states that differ in hashes.\<close>

lemma get_user_cases:
  assumes "blind s = blind t"
  obtains (err) m where "GetUser S i s = Inl m" "GetUser S i t = Inl m"
  | (ok) u v where "GetUser S i s = Inr u" "GetUser S i t = Inr v" "veil u = veil v"
  using assms get_user [of i s] get_user [of i t] by (cases "GetUser S i s"; cases "GetUser S i t") auto

lemma get_name_cases:
  assumes "blind s = blind t"
  obtains (err) m where "GetUserByUsername S e n s = Inl m" "GetUserByUsername S e n t = Inl m"
  | (ok) u v where "GetUserByUsername S e n s = Inr u" "GetUserByUsername S e n t = Inr v" "veil u = veil v"
  using assms get_name [of e n s] get_name [of e n t]
  by (cases "GetUserByUsername S e n s"; cases "GetUserByUsername S e n t") auto

lemma list_users_cases:
  assumes "blind s = blind t"
  obtains (err) m where "ListUsers S e ro s = Inl m" "ListUsers S e ro t = Inl m"
  | (ok) us vs where "ListUsers S e ro s = Inr us" "ListUsers S e ro t = Inr vs" "map veil us = map veil vs"
  using assms list_users [of e ro s] list_users [of e ro t] by (cases "ListUsers S e ro s"; cases "ListUsers S e ro t") auto

lemma veiled_call:
  assumes "map_prod (map_sum id veil) blind x = map_prod (map_sum id veil) blind y"
  obtains (err) m s t where "x = (Inl m, s)" "y = (Inl m, t)" "blind s = blind t"
  | (ok) u v s t where "x = (Inr u, s)" "y = (Inr v, t)" "veil u = veil v" "blind s = blind t"
  using assms by (cases x; cases y; cases "fst x"; cases "fst y") auto

lemma create_user_cases:
  assumes "blind s = blind t"
  obtains (err) m s' t' where "CreateUser S e n h ro s = (Inl m, s')" "CreateUser S e n h ro t = (Inl m, t')" "blind s' = blind t'"
  | (ok) u v s' t' where "CreateUser S e n h ro s = (Inr u, s')" "CreateUser S e n h ro t = (Inr v, t')"
      "veil u = veil v" "blind s' = blind t'"
  by (rule veiled_call [OF trans [OF create_user [of e n ro s h, symmetric] create_user [of e n ro t h, folded assms]]])

lemma update_user_cases:
  assumes "blind s = blind t"
  obtains (err) m s' t' where "UpdateUser S e i n h ro s = (Inl m, s')" "UpdateUser S e i n g ro t = (Inl m, t')" "blind s' = blind t'"
  | (ok) u v s' t' where "UpdateUser S e i n h ro s = (Inr u, s')" "UpdateUser S e i n g ro t = (Inr v, t')"
      "veil u = veil v" "blind s' = blind t'"
  by (rule veiled_call [OF trans [OF update_user [of e i n ro s h, symmetric] update_user [of e i n ro t g, folded assms]]])

lemma unit_calls:
  assumes "blind s = blind t"
  shows "fst (DeleteUser S i s) = fst (DeleteUser S i t) \<and> blind (snd (DeleteUser S i s)) = blind (snd (DeleteUser S i t))"
    "fst (DeleteSession S i s) = fst (DeleteSession S i t) \<and> blind (snd (DeleteSession S i s)) = blind (snd (DeleteSession S i t))"
    "fst (DeleteSessionsByUserID S e i x s) = fst (DeleteSessionsByUserID S e i x t)
      \<and> blind (snd (DeleteSessionsByUserID S e i x s)) = blind (snd (DeleteSessionsByUserID S e i x t))"
  using assms delete_user [of i s] delete_user [of i t] delete_session [of i s] delete_session [of i t]
    delete_sessions [of e i x s] delete_sessions [of e i x t]
  by (simp_all add: map_prod_def prod_eq_iff split: prod.splits)

lemma same_sessions:
  assumes "blind s = blind t"
  shows "GetSessionByID S i s = GetSessionByID S i t" "ListSessionsByUserID S e i s = ListSessionsByUserID S e i t"
  using assms by (metis get_session, metis list_sessions)

section \<open>Handlers\<close>

definition alike :: "('s, 'l) world \<Rightarrow> ('s, 'l) world \<Rightarrow> bool" where
  "alike w v \<longleftrightarrow> blind (h_store w) = blind (h_store v) \<and> w\<lparr>h_store := h_store v\<rparr> = v"

lemma alike_fields: "alike w v \<Longrightarrow> blind (h_store w) = blind (h_store v) \<and> h_limiter w = h_limiter v
    \<and> h_audit w = h_audit v \<and> h_out w = h_out v \<and> h_panic w = h_panic v \<and> h_requests w = h_requests v"
  unfolding alike_def by (metis world.select_convs(2-6) world.update_convs(1) world.surjective)

lemma alikeI: "blind (h_store w) = blind (h_store v) \<Longrightarrow> h_limiter w = h_limiter v \<Longrightarrow> h_audit w = h_audit v \<Longrightarrow>
    h_out w = h_out v \<Longrightarrow> h_panic w = h_panic v \<Longrightarrow> h_requests w = h_requests v \<Longrightarrow> alike w v"
  by (cases w; cases v) (simp add: alike_def)

definition discreet :: "('s, 'l) handler \<Rightarrow> bool" where
  "discreet h \<longleftrightarrow> (\<forall>r w v. alike w v \<longrightarrow> alike (h r w) (h r v))"

lemma discreetI: "(\<And>r w v. alike w v \<Longrightarrow> alike (h r w) (h r v)) \<Longrightarrow> discreet h"
  by (simp add: discreet_def)

lemma discreetD: "discreet h \<Longrightarrow> alike w v \<Longrightarrow> alike (h r w) (h r v)"
  by (simp add: discreet_def)

lemma alike_reply: "alike w v \<Longrightarrow> alike (reply f w) (reply f v)"
  by (rule alikeI) (auto dest: alike_fields)

lemma alike_stored: "alike w v \<Longrightarrow> blind s = blind t \<Longrightarrow> alike (reply f (w\<lparr>h_store := s\<rparr>)) (reply f (v\<lparr>h_store := t\<rparr>))"
  by (rule alikeI) (auto dest: alike_fields)

lemma alike_audit: "alike w v \<Longrightarrow> alike (audit E ev w) (audit E ev v)"
  by (rule alikeI) (auto dest: alike_fields simp: h_audit_audit)

lemma alike_panic: "alike w v \<Longrightarrow> alike (w\<lparr>h_panic := True\<rparr>) (v\<lparr>h_panic := True\<rparr>)"
  by (rule alikeI) (auto dest: alike_fields)

lemma discreet_basic: "discreet HealthHandler" "discreet WhoamiHandler" "discreet ProjectsHandler" "discreet MeHandler"
  by (rule discreetI, simp add: handler_defs Let_def alike_reply alike_panic split: option.split)+

lemma discreet_sessions: "discreet (SessionsHandler S E)"
proof (rule discreetI)
  fix r :: request and w v :: "('s, 'l) world" assume a: "alike w v"
  then have b: "blind (h_store w) = blind (h_store v)" by (simp add: alike_def)
  show "alike (SessionsHandler S E r w) (SessionsHandler S E r v)"
    by (cases rule: get_name_cases [OF b, of "store_env E 0" "C_Username (the (request_claims r))"])
      (auto simp: SessionsHandler_def same_sessions(2) [OF b] veil_iff intro!: alike_reply [OF a] split: option.split sum.split)
qed

lemma discreet_delete_session: "discreet (DeleteSessionHandler S E)"
proof (rule discreetI)
  fix r :: request and w v :: "('s, 'l) world" assume a: "alike w v"
  then have b: "blind (h_store w) = blind (h_store v)" by (simp add: alike_def)
  note calls = unit_calls(2) [OF b]
  show "alike (DeleteSessionHandler S E r w) (DeleteSessionHandler S E r v)"
    using calls
    by (cases rule: get_name_cases [OF b, of "store_env E 0" "C_Username (the (request_claims r))"])
      (auto simp: DeleteSessionHandler_def same_sessions(1) [OF b] veil_iff prod_eq_iff
        intro!: alike_reply [OF a] alike_stored [OF a] split: option.split sum.split prod.split)
qed

lemma discreet_delete_all: "discreet (DeleteAllSessionsHandler S E)"
proof (rule discreetI)
  fix r :: request and w v :: "('s, 'l) world" assume a: "alike w v"
  then have b: "blind (h_store w) = blind (h_store v)" by (simp add: alike_def)
  note calls = unit_calls(3) [OF b]
  show "alike (DeleteAllSessionsHandler S E r w) (DeleteAllSessionsHandler S E r v)"
    using calls
    by (cases rule: get_name_cases [OF b, of "store_env E 0" "C_Username (the (request_claims r))"])
      (auto simp: DeleteAllSessionsHandler_def veil_iff Let_def prod_eq_iff
        intro!: alike_reply [OF a] alike_stored [OF a] split: option.split sum.split prod.split)
qed

lemma discreet_list: "discreet (ListUsersHandler S E)"
proof (rule discreetI)
  fix r :: request and w v :: "('s, 'l) world" assume a: "alike w v"
  then have b: "blind (h_store w) = blind (h_store v)" by (simp add: alike_def)
  show "alike (ListUsersHandler S E r w) (ListUsersHandler S E r v)"
    by (cases rule: list_users_cases [OF b, of "store_env E 0" "Query_Get r ''role''"])
      (auto simp: ListUsersHandler_def dest: veiled_list intro!: alike_reply [OF a])
qed

lemma discreet_get: "discreet (GetUserHandler S E)"
proof (rule discreetI)
  fix r :: request and w v :: "('s, 'l) world" assume a: "alike w v"
  then have b: "blind (h_store w) = blind (h_store v)" by (simp add: alike_def)
  show "alike (GetUserHandler S E r w) (GetUserHandler S E r v)"
  proof (cases "path_user_id r")
    case (Inr i)
    from b show ?thesis
    proof (cases rule: get_user_cases [where i = i])
      case (ok x y)
      with Inr veiled_json(1) [OF ok(3)] show ?thesis by (simp add: GetUserHandler_def alike_reply [OF a])
    qed (simp add: Inr GetUserHandler_def alike_reply [OF a])
  qed (simp add: GetUserHandler_def alike_reply [OF a])
qed

lemma discreet_delete: "discreet (DeleteUserHandler S)"
proof (rule discreetI)
  fix r :: request and w v :: "('s, 'l) world" assume a: "alike w v"
  then have b: "blind (h_store w) = blind (h_store v)" by (simp add: alike_def)
  show "alike (DeleteUserHandler S r w) (DeleteUserHandler S r v)"
  proof (cases "path_user_id r")
    case (Inr i)
    then show ?thesis using unit_calls(1) [OF b, of i]
      by (auto simp: DeleteUserHandler_def prod_eq_iff intro!: alike_reply [OF a] alike_stored [OF a] split: sum.split prod.split)
  qed (simp add: DeleteUserHandler_def alike_reply [OF a])
qed

lemma discreet_create:
  fixes L :: "'l libs" shows "discreet (CreateUserHandler L S E)"
proof (rule discreetI)
  fix r :: request and w v :: "('s, 'l) world" assume a: "alike w v"
  then have b: "blind (h_store w) = blind (h_store v)" by (simp add: alike_def)
  have call: "alike
      (case CreateUser S e n h ro (h_store w) of
         (Inl err, s') \<Rightarrow> if Contains err ''already exists'' then reply (jsonError err StatusConflict) (w\<lparr>h_store := s'\<rparr>)
           else reply (jsonError ''Internal server error'' StatusInternalServerError) (w\<lparr>h_store := s'\<rparr>)
       | (Inr user, s') \<Rightarrow> reply (Write (JsonLine (user_response user)) \<circ> WriteHeader StatusCreated \<circ> json_type) (w\<lparr>h_store := s'\<rparr>))
      (case CreateUser S e n h ro (h_store v) of
         (Inl err, s') \<Rightarrow> if Contains err ''already exists'' then reply (jsonError err StatusConflict) (v\<lparr>h_store := s'\<rparr>)
           else reply (jsonError ''Internal server error'' StatusInternalServerError) (v\<lparr>h_store := s'\<rparr>)
       | (Inr user, s') \<Rightarrow> reply (Write (JsonLine (user_response user)) \<circ> WriteHeader StatusCreated \<circ> json_type) (v\<lparr>h_store := s'\<rparr>))"
    for e n h ro using b
  proof (cases rule: create_user_cases [where e = e and n = n and h = h and ro = ro])
    case (ok x y s t)
    with veiled_json(1) [OF ok(3)] show ?thesis by (simp add: alike_stored [OF a])
  qed (simp add: alike_stored [OF a])
  show "alike (CreateUserHandler L S E r w) (CreateUserHandler L S E r v)"
    unfolding CreateUserHandler_def by (simp add: call alike_reply [OF a] split: option.split sum.split)
qed

lemma discreet_update:
  fixes L :: "'l libs" shows "discreet (UpdateUserHandler L S E)"
proof (rule discreetI)
  fix r :: request and w v :: "('s, 'l) world" assume a: "alike w v"
  then have b: "blind (h_store w) = blind (h_store v)" by (simp add: alike_def)
  have call: "alike
      (case UpdateUser S e i n h ro (h_store w) of
         (Inl err, s') \<Rightarrow> if Contains err ''already taken'' then reply (jsonError err StatusConflict) (w\<lparr>h_store := s'\<rparr>)
           else reply (jsonError ''Internal server error'' StatusInternalServerError) (w\<lparr>h_store := s'\<rparr>)
       | (Inr user, s') \<Rightarrow> reply (Write (JsonLine (user_response user)) \<circ> json_type) (w\<lparr>h_store := s'\<rparr>))
      (case UpdateUser S e i n g ro (h_store v) of
         (Inl err, s') \<Rightarrow> if Contains err ''already taken'' then reply (jsonError err StatusConflict) (v\<lparr>h_store := s'\<rparr>)
           else reply (jsonError ''Internal server error'' StatusInternalServerError) (v\<lparr>h_store := s'\<rparr>)
       | (Inr user, s') \<Rightarrow> reply (Write (JsonLine (user_response user)) \<circ> json_type) (v\<lparr>h_store := s'\<rparr>))"
    for e i n h g ro using b
  proof (cases rule: update_user_cases [where e = e and i = i and n = n and h = h and g = g and ro = ro])
    case (ok x y s t)
    with veiled_json(1) [OF ok(3)] show ?thesis by (simp add: alike_stored [OF a])
  qed (simp add: alike_stored [OF a])
  show "alike (UpdateUserHandler L S E r w) (UpdateUserHandler L S E r v)"
  proof (cases "path_user_id r")
    case (Inr i)
    from b show ?thesis
    proof (cases rule: get_user_cases [where i = i])
      case (ok x y)
      then have xy: "U_Username x = U_Username y" "U_Role x = U_Role y" by (simp_all add: veil_iff)
      show ?thesis unfolding UpdateUserHandler_def
        by (simp add: Inr ok xy call alike_reply [OF a] Let_def split: option.split sum.split)
    qed (simp add: Inr UpdateUserHandler_def alike_reply [OF a])
  qed (simp add: UpdateUserHandler_def alike_reply [OF a])
qed

section \<open>The server\<close>

lemma discreet_mux:
  fixes routes :: "(pattern \<times> ('s, 'l) handler) list"
  assumes "alike w v" "\<And>pat h pvs. (pat, h) \<in> set routes \<Longrightarrow> match_pattern pat (r_escaped_path r) = Some pvs \<Longrightarrow> discreet h"
  shows "alike (ServeMux routes r w) (ServeMux routes r v)"
proof -
  have "alike (h (r\<lparr>r_path_values := pvs\<rparr>) w) (h (r\<lparr>r_path_values := pvs\<rparr>) v)"
    if "route routes (r_escaped_path r) = Some (pat, h, pvs)" for pat h pvs
    using route_mem [OF that] assms(2) discreetD [OF _ assms(1)] by blast
  then show ?thesis
    using alike_reply [OF assms(1)] by (auto simp: ServeMux_def Let_def split: option.split)
qed

lemma discreet_auth: "discreet h \<Longrightarrow> discreet (AuthMiddleware L E h)"
  by (rule discreetI) (simp add: AuthMiddleware_def Let_def alike_reply discreetD split: sum.split)

lemma discreet_role: "discreet h \<Longrightarrow> discreet (RequireRole E role h)"
  by (rule discreetI) (simp add: RequireRole_def Let_def alike_reply alike_audit discreetD split: option.split)

lemma discreet_permission: "discreet h \<Longrightarrow> discreet (RequirePermission E act res h)"
  by (rule discreetI) (simp add: RequirePermission_def Let_def alike_reply alike_audit discreetD split: option.split)

lemma discreet_routes:
  fixes L :: "'l libs"
  assumes "(pat, h) \<in> set (main_routes L S E)" "pat \<notin> {[Lit ''auth'', Lit ''login''], [Lit ''auth'', Lit ''password'']}"
  shows "discreet h"
proof -
  have projects: "discreet (projects_route E)"
    by (rule discreetI)
      (simp add: projects_route_def Let_def discreetD [OF discreet_permission] discreetD discreet_basic)
  have protected: "discreet (ServeMux (protected_routes E))"
    by (rule discreetI, erule discreet_mux) (auto simp: protected_routes_def projects discreet_basic)
  have sessions: "discreet (sessions_route S E)"
    by (rule discreetI) (simp add: sessions_route_def alike_reply discreetD [OF discreet_sessions] discreetD [OF discreet_delete_all])
  have users: "discreet (admin_users_route L S E)"
    by (rule discreetI) (simp add: admin_users_route_def alike_reply discreetD [OF discreet_list] discreetD [OF discreet_create])
  have user: "discreet (admin_user_route L S E)"
    by (rule discreetI) (simp add: admin_user_route_def alike_reply discreetD [OF discreet_get] discreetD [OF discreet_update]
      discreetD [OF discreet_delete])
  have admin: "discreet (ServeMux (admin_routes L S E))"
    by (rule discreetI, erule discreet_mux) (auto simp: admin_routes_def users user)
  from assms have "h = HealthHandler \<or> (\<exists>g. h = AuthMiddleware L E g \<and> (g = ServeMux (protected_routes E) \<or> g = MeHandler
      \<or> g = sessions_route S E \<or> g = DeleteSessionHandler S E \<or> g = RequireRole E ''admin'' (ServeMux (admin_routes L S E))))"
    by (simp add: main_routes_def Let_def) blast
  then show ?thesis
    using discreet_basic discreet_auth protected sessions discreet_delete_session discreet_role [OF admin] by metis
qed

end

text \<open>The requests that compare a password with a hash.\<close>

definition compares_hash :: "request \<Rightarrow> bool" where
  "compares_hash r \<longleftrightarrow> login_path r \<or> match_pattern [Lit ''auth'', Lit ''password''] (r_escaped_path r) \<noteq> None"

context blind_store begin

lemma serve_alike:
  assumes "alike w v" "\<not> compares_hash r"
  shows "alike (serve L S (E, r) w) (serve L S (E, r) v)"
proof -
  have "alike (w\<lparr>h_out := new_writer\<rparr>) (v\<lparr>h_out := new_writer\<rparr>)"
    using assms(1) by (intro alikeI) (auto dest: alike_fields)
  then have m: "alike (ServeMux (main_routes L S E) (incoming r) (w\<lparr>h_out := new_writer\<rparr>))
      (ServeMux (main_routes L S E) (incoming r) (v\<lparr>h_out := new_writer\<rparr>))"
  proof (rule discreet_mux)
    fix pat pvs and h :: "('s, 'a) handler"
    assume h: "(pat, h) \<in> set (main_routes L S E)" "match_pattern pat (r_escaped_path (incoming r)) = Some pvs"
    have "pat \<notin> {[Lit ''auth'', Lit ''login''], [Lit ''auth'', Lit ''password'']}"
      using h(2) assms(2) by (auto simp: compares_hash_def login_path_def incoming_def simp del: match_pattern.simps)
    with h(1) show "discreet h" by (rule discreet_routes)
  qed
  show ?thesis
    unfolding serve_def ServerHandler_def RequestLogger_def Let_def prod.case
    using alike_fields [OF m] m by (auto intro!: alikeI)
qed

lemma run_alike:
  "alike w v \<Longrightarrow> \<forall>(E, r) \<in> set qs. \<not> compares_hash r \<Longrightarrow>
    responses L S qs w = responses L S qs v \<and> alike (serve_all L S qs w) (serve_all L S qs v)"
proof (induction qs arbitrary: w v)
  case (Cons q qs)
  obtain E r where q: "q = (E, r)" by (cases q)
  from serve_alike [OF Cons.prems(1), of r L E] Cons.prems(2) have a: "alike (serve L S q w) (serve L S q v)"
    by (simp add: q)
  with Cons.IH [OF a] Cons.prems(2) alike_fields [OF a] show ?case by simp
qed simp

end

section \<open>The in-memory store\<close>

definition veil_users :: "(int \<times> user) list \<Rightarrow> (int \<times> user) list" where
  "veil_users = map (\<lambda>(i, u). (i, veil u))"

definition mem_blind :: "mem \<Rightarrow> mem" where
  "mem_blind s = s\<lparr>m_users := veil_users (m_users s)\<rparr>"

lemma veil_users_simps [simp]: "veil_users [] = []" "veil_users ((i, u) # us) = (i, veil u) # veil_users us"
  by (simp_all add: veil_users_def)

lemma shuffle_veil: "shuffle ks (veil_users us) = veil_users (shuffle ks us)"
  unfolding veil_users_def by (rule shuffle_map)

lemma map_of_veil: "map_of (veil_users us) i = map_option veil (map_of us i)"
  by (induction us) auto

lemma update_veil: "AList.update i (veil u) (veil_users us) = veil_users (AList.update i u us)"
  by (induction us) auto

lemma delete_veil: "AList.delete i (veil_users us) = veil_users (AList.delete i us)"
  by (induction us) (auto simp: AList.delete_eq)

lemma find_veil: "(\<And>i u. P (i, veil u) = P (i, u)) \<Longrightarrow> find P (veil_users us) = map_option (map_prod id veil) (find P us)"
  by (induction us) auto

lemma list_veil:
  assumes "\<And>u. P (veil u) = P u" shows "filter P (map snd (veil_users us)) = map veil (filter P (map snd us))"
proof (induction us)
  case (Cons p us)
  then show ?case by (cases p) (simp add: assms)
qed simp

lemma any_veil:
  assumes "\<And>i u. P (i, veil u) = P (i, u)" shows "(\<exists>x \<in> set (veil_users us). P x) = (\<exists>x \<in> set us. P x)"
proof -
  have "P (case x of (i, u) \<Rightarrow> (i, veil u)) = P x" for x using assms [of "fst x" "snd x"] by (cases x) simp
  then show ?thesis by (simp add: veil_users_def)
qed

lemma veil_changed:
  "(veil u)\<lparr>U_Username := n, U_PasswordHash := [], U_Role := ro, U_UpdatedAt := t\<rparr>
    = veil (u\<lparr>U_Username := n, U_PasswordHash := h, U_Role := ro, U_UpdatedAt := t\<rparr>)"
  by (cases u) (simp add: veil_def)

interpretation mem_veiled: blind_store mem_ops mem_blind
proof (unfold_locales, goal_cases)
  case (1 i s)
  show ?case by (simp add: store_defs mem_blind_def map_of_veil split: option.split)
next
  case (2 e n s)
  have "find (\<lambda>(_, u). U_Username u = n) (veil_users us) = map_option (map_prod id veil) (find (\<lambda>(_, u). U_Username u = n) us)" for us
    by (rule find_veil) simp
  then show ?case by (auto simp: store_defs mem_blind_def shuffle_veil split: option.split)
next
  case (3 e ro s)
  show ?case by (simp add: store_defs mem_blind_def shuffle_veil list_veil)
next
  case (4 e n ro s h)
  have "(\<exists>(_, u) \<in> set (veil_users us). U_Username u = n) = (\<exists>(_, u) \<in> set us. U_Username u = n)" for us
    by (rule any_veil) simp
  then show ?case
    by (simp add: store_defs mem_blind_def Let_def shuffle_veil update_veil [symmetric]) (simp add: veil_def)
next
  case (5 e i n ro s h)
  have "(\<exists>(_, u) \<in> set (veil_users us). U_Username u = n \<and> U_ID u \<noteq> i) = (\<exists>(_, u) \<in> set us. U_Username u = n \<and> U_ID u \<noteq> i)" for us
    by (rule any_veil) simp
  then show ?case
    by (auto simp: store_defs mem_blind_def Let_def shuffle_veil map_of_veil veil_changed [where h = h] update_veil split: option.split)
next
  case (6 i s)
  show ?case by (simp add: store_defs mem_blind_def map_of_veil delete_veil split: option.split)
qed (simp_all add: store_defs mem_blind_def Let_def split: option.split)

text \<open>C7: Password hashes are confidential: of two servers with the in-memory store whose users differ in nothing but
  their hashes, the answers to any sequence of requests without logins and password changes are the same, in
  status, headers and body, and so are the audit lines; and the users still differ in nothing but their hashes.\<close>

theorem hashes_confidential:
  assumes "mem_blind t = mem_blind (h_store w)" "\<forall>(E, r) \<in> set qs. \<not> compares_hash r"
    and "w' = serve_all L mem_ops qs w" "v' = serve_all L mem_ops qs (w\<lparr>h_store := t\<rparr>)"
  shows "responses L mem_ops qs (w\<lparr>h_store := t\<rparr>) = responses L mem_ops qs w
    \<and> h_audit v' = h_audit w' \<and> mem_blind (h_store v') = mem_blind (h_store w')"
proof -
  have "mem_veiled.alike (w\<lparr>h_store := t\<rparr>) w" using assms(1) by (intro mem_veiled.alikeI) simp_all
  from mem_veiled.run_alike [OF this assms(2), of L] show ?thesis
    unfolding assms(3,4) by (auto dest: mem_veiled.alike_fields)
qed

theorem hashes_confidential_witness:
  "responses sample_libs mem_ops [(sample_env, viewer_request ''GET'' ''/me''), (sample_env, remove_request)]
      (sample_world\<lparr>h_store := mem_blind (h_store sample_world)\<rparr>)
    = responses sample_libs mem_ops [(sample_env, viewer_request ''GET'' ''/me''), (sample_env, remove_request)] sample_world"
proof -
  have "mem_blind (mem_blind s) = mem_blind s" for s
    by (simp add: mem_blind_def veil_users_def comp_def case_prod_unfold)
  moreover have "\<not> compares_hash (viewer_request ''GET'' ''/me'')" "\<not> compares_hash remove_request"
    by (simp_all add: compares_hash_def login_path_def remove_request_def first_segment_def path_unescape_def)
  ultimately show ?thesis
    using hashes_confidential [OF _ _ refl refl, of "mem_blind (h_store sample_world)" sample_world
      "[(sample_env, viewer_request ''GET'' ''/me''), (sample_env, remove_request)]" sample_libs] by simp
qed

end
