(* ===== verification/Go_Json.thy ===== *)
theory Go_Json
  imports Go_Http
begin

text \<open>
  The bytes that \<open>encoding/json\<close> writes: strings with its escapes (the HTML-safe ones of \<open>json.Marshal\<close> and
  \<open>json.Encoder\<close>), bytes that are not UTF-8 replaced, and values without white space. A reader of quoted strings,
  which leaves the rest of its input, shows that nothing in a string can end it early, and gives the string back.
\<close>

abbreviation byte :: "char \<Rightarrow> nat" where
  "byte c \<equiv> of_char c"

abbreviation (input) quote_mark :: char where "quote_mark \<equiv> CHR 0x22"
abbreviation (input) backslash :: char where "backslash \<equiv> CHR 0x5C"
abbreviation (input) newline :: char where "newline \<equiv> CHR 0x0A"

section \<open>UTF-8\<close>

definition between :: "nat \<Rightarrow> nat \<Rightarrow> char \<Rightarrow> bool" where
  "between a b c \<longleftrightarrow> a \<le> byte c \<and> byte c \<le> b"

text \<open>The length of the rune of two to four bytes that a text starts with, or 0 if it starts with none
  (\<open>utf8.DecodeRuneInString\<close>).\<close>

definition rune2 :: "char \<Rightarrow> char \<Rightarrow> bool" where
  "rune2 a b \<longleftrightarrow> between 0xC2 0xDF a \<and> between 0x80 0xBF b"

definition rune3 :: "char \<Rightarrow> char \<Rightarrow> char \<Rightarrow> bool" where
  "rune3 a b c \<longleftrightarrow> (byte a = 0xE0 \<and> between 0xA0 0xBF b \<or> between 0xE1 0xEC a \<and> between 0x80 0xBF b
     \<or> byte a = 0xED \<and> between 0x80 0x9F b \<or> between 0xEE 0xEF a \<and> between 0x80 0xBF b) \<and> between 0x80 0xBF c"

definition rune4 :: "char \<Rightarrow> char \<Rightarrow> char \<Rightarrow> char \<Rightarrow> bool" where
  "rune4 a b c d \<longleftrightarrow> (byte a = 0xF0 \<and> between 0x90 0xBF b \<or> between 0xF1 0xF3 a \<and> between 0x80 0xBF b
     \<or> byte a = 0xF4 \<and> between 0x80 0x8F b) \<and> between 0x80 0xBF c \<and> between 0x80 0xBF d"

fun rune_len :: "string \<Rightarrow> nat" where
  "rune_len (a # b # c # d # s) =
     (if rune2 a b then 2 else if rune3 a b c then 3 else if rune4 a b c d then 4 else 0)"
| "rune_len [a, b, c] = (if rune2 a b then 2 else if rune3 a b c then 3 else 0)"
| "rune_len [a, b] = (if rune2 a b then 2 else 0)"
| "rune_len _ = 0"

section \<open>Strings\<close>

text \<open>The escape of a byte below 128.\<close>

definition escape :: "char \<Rightarrow> string" where
  "escape c =
     (if c = quote_mark \<or> c = backslash then [backslash, c]
      else if c = CHR 0x08 then [backslash, CHR ''b'']
      else if c = CHR 0x0C then [backslash, CHR ''f'']
      else if c = newline then [backslash, CHR ''n'']
      else if c = CHR 0x0D then [backslash, CHR ''r'']
      else if c = CHR 0x09 then [backslash, CHR ''t'']
      else if byte c < 0x20 \<or> c \<in> {CHR ''<'', CHR ''>'', CHR ''&''} then
        backslash # ''u00'' @ [hex_char (byte c div 16), hex_char (byte c mod 16)]
      else [c])"

function quote :: "string \<Rightarrow> string" where
  "quote [] = []"
| "quote (c # s) =
     (if byte c < 128 then escape c @ quote s
      else if rune_len (c # s) = 0 then backslash # ''ufffd'' @ quote s
      else if take 3 (c # s) = [CHR 0xE2, CHR 0x80, CHR 0xA8] then backslash # ''u2028'' @ quote (drop 2 s)
      else if take 3 (c # s) = [CHR 0xE2, CHR 0x80, CHR 0xA9] then backslash # ''u2029'' @ quote (drop 2 s)
      else take (rune_len (c # s)) (c # s) @ quote (drop (rune_len (c # s) - 1) s))"
  by pat_completeness auto
termination by (relation "measure length") auto

text \<open>What is left of a text: bytes outside of any rune become U+FFFD.\<close>

function valid_utf8 :: "string \<Rightarrow> string" where
  "valid_utf8 [] = []"
| "valid_utf8 (c # s) =
     (if byte c < 128 then c # valid_utf8 s
      else if rune_len (c # s) = 0 then [CHR 0xEF, CHR 0xBF, CHR 0xBD] @ valid_utf8 s
      else take (rune_len (c # s)) (c # s) @ valid_utf8 (drop (rune_len (c # s) - 1) s))"
  by pat_completeness auto
termination by (relation "measure length") auto

section \<open>Values\<close>

definition quoted :: "string \<Rightarrow> string" where
  "quoted s = quote_mark # quote s @ [quote_mark]"

fun separated :: "string \<Rightarrow> string list \<Rightarrow> string" where
  "separated sep [] = []"
| "separated sep [x] = x"
| "separated sep (x # xs) = x @ sep @ separated sep xs"

fun render :: "json \<Rightarrow> string" where
  "render JNull = ''null''"
| "render (JBool b) = (if b then ''true'' else ''false'')"
| "render (JNum n) = n"
| "render (JStr s) = quoted s"
| "render (JArr js) = ''['' @ separated '','' (map render js) @ '']''"
| "render (JObj kvs) = ''{'' @ separated '','' (map (\<lambda>(k, v). quoted k @ '':'' @ render v) kvs) @ ''}''"

section \<open>Reading a string back\<close>

definition hex_val :: "char \<Rightarrow> nat option" where
  "hex_val c = (if between 48 57 c then Some (byte c - 48) else if between 97 102 c then Some (byte c - 87) else None)"

fun hex4 :: "string \<Rightarrow> nat option" where
  "hex4 [a, b, c, d] =
     (case (hex_val a, hex_val b, hex_val c, hex_val d) of
        (Some i, Some j, Some k, Some l) \<Rightarrow> Some (((i * 16 + j) * 16 + k) * 16 + l)
      | _ \<Rightarrow> None)"
| "hex4 _ = None"

definition utf8 :: "nat \<Rightarrow> string" where
  "utf8 n =
     (if n < 0x80 then [char_of n]
      else if n < 0x800 then [char_of (0xC0 + n div 64), char_of (0x80 + n mod 64)]
      else [char_of (0xE0 + n div 4096), char_of (0x80 + n div 64 mod 64), char_of (0x80 + n mod 64)])"

definition plain_escape :: "char \<Rightarrow> char option" where
  "plain_escape c = map_of [(quote_mark, quote_mark), (backslash, backslash), (CHR ''/'', CHR ''/''),
     (CHR ''b'', CHR 0x08), (CHR ''f'', CHR 0x0C), (CHR ''n'', newline), (CHR ''r'', CHR 0x0D), (CHR ''t'', CHR 0x09)] c"

text \<open>The contents of a quoted string, after its opening mark, and what follows its closing one.\<close>

function unquote :: "string \<Rightarrow> (string \<times> string) option" where
  "unquote [] = None"
| "unquote (c # s) =
     (if c = quote_mark then Some ([], s)
      else if c = backslash then
        (case s of
           [] \<Rightarrow> None
         | d # t \<Rightarrow>
             if d = CHR ''u'' then
               (case hex4 (take 4 t) of
                  None \<Rightarrow> None
                | Some n \<Rightarrow> map_option (\<lambda>(x, rest). (utf8 n @ x, rest)) (unquote (drop 4 t)))
             else
               (case plain_escape d of
                  None \<Rightarrow> None
                | Some e \<Rightarrow> map_option (\<lambda>(x, rest). (e # x, rest)) (unquote t)))
      else map_option (\<lambda>(x, rest). (c # x, rest)) (unquote s))"
  by pat_completeness auto
termination by (relation "measure length") auto

section \<open>Facts\<close>

lemma rune_high:
  "rune2 a b \<Longrightarrow> 128 \<le> byte a \<and> 128 \<le> byte b"
  "rune3 a b c \<Longrightarrow> 128 \<le> byte a \<and> 128 \<le> byte b \<and> 128 \<le> byte c"
  "rune4 a b c d \<Longrightarrow> 128 \<le> byte a \<and> 128 \<le> byte b \<and> 128 \<le> byte c \<and> 128 \<le> byte d"
  by (auto simp: rune2_def rune3_def rune4_def between_def)

lemma rune_bytes:
  assumes "0 < rune_len s"
  shows "rune_len s \<le> length s \<and> (\<forall>c \<in> set (take (rune_len s) s). 128 \<le> byte c)"
  using assms by (cases s rule: rune_len.cases) (auto dest: rune_high split: if_splits)

lemma byte_char [simp]: "n < 256 \<Longrightarrow> byte (char_of n) = n"
  by simp

lemma hex_val_char [simp]: "n < 16 \<Longrightarrow> hex_val (hex_char n) = Some n"
  by (auto simp: hex_val_def between_def of_char_hex_char)

lemma hex_char_plain: "n < 16 \<Longrightarrow> 48 \<le> byte (hex_char n)"
  by (simp add: of_char_hex_char)

lemma byte_less: "byte c < 256"
  by simp

lemma nibbles: "byte c div 16 < 16" "byte c mod 16 < 16"
  using byte_less [of c] by (simp_all add: less_mult_imp_div_less)

text \<open>No control character is left, newlines included.\<close>

definition printing :: "char \<Rightarrow> bool" where
  "printing c \<longleftrightarrow> 32 \<le> byte c"

lemma printing_chars [simp]: "printing (CHR 0x22)" "printing (CHR 0x5C)" "printing (CHR ''b'')" "printing (CHR ''f'')"
  "printing (CHR ''n'')" "printing (CHR ''r'')" "printing (CHR ''t'')" "printing (CHR ''u'')" "printing (CHR ''0'')"
  "printing (CHR ''2'')" "printing (CHR ''8'')" "printing (CHR ''9'')" "printing (CHR ''d'')" "\<not> printing (CHR 0x0A)"
  by (simp_all add: printing_def)

lemma printing_hex [simp]: "n < 16 \<Longrightarrow> printing (hex_char n)"
  using hex_char_plain [of n] by (simp add: printing_def)

lemma escape_printing: "list_all printing (escape c)"
  unfolding escape_def by (simp add: nibbles) (simp add: printing_def)

lemma high_printing: "\<forall>c \<in> set s. 128 \<le> byte c \<Longrightarrow> list_all printing s"
  by (auto simp: list_all_iff printing_def)

lemma quote_cases:
  obtains (low) "byte c < 128" "quote (c # s) = escape c @ quote s"
  | (bad) "\<not> byte c < 128" "rune_len (c # s) = 0" "quote (c # s) = backslash # CHR ''u'' # ''fffd'' @ quote s"
  | (line_sep) t where "\<not> byte c < 128" "rune_len (c # s) = 3" "c = CHR 0xE2" "s = CHR 0x80 # CHR 0xA8 # t"
      "quote (c # s) = backslash # CHR ''u'' # ''2028'' @ quote t"
  | (par_sep) t where "\<not> byte c < 128" "rune_len (c # s) = 3" "c = CHR 0xE2" "s = CHR 0x80 # CHR 0xA9 # t"
      "quote (c # s) = backslash # CHR ''u'' # ''2029'' @ quote t"
  | (rune) "\<not> byte c < 128" "rune_len (c # s) \<noteq> 0"
      "quote (c # s) = take (rune_len (c # s)) (c # s) @ quote (drop (rune_len (c # s) - 1) s)"
      "take 3 (c # s) \<noteq> [CHR 0xE2, CHR 0x80, CHR 0xA8]" "take 3 (c # s) \<noteq> [CHR 0xE2, CHR 0x80, CHR 0xA9]"
proof -
  have sep: "\<exists>t. c = CHR 0xE2 \<and> s = CHR 0x80 # x # t \<and> rune_len (c # s) = 3"
    if "take 3 (c # s) = [CHR 0xE2, CHR 0x80, x]" "x = CHR 0xA8 \<or> x = CHR 0xA9" for x
  proof -
    from that(1) obtain t where t: "c = CHR 0xE2" "s = CHR 0x80 # x # t"
      by (cases s; cases "tl s") (auto simp: numeral_3_eq_3)
    with that(2) show ?thesis by (cases t) (auto simp: rune2_def rune3_def between_def)
  qed
  consider "byte c < 128" | "\<not> byte c < 128" "rune_len (c # s) = 0"
    | "\<not> byte c < 128" "rune_len (c # s) \<noteq> 0" "take 3 (c # s) = [CHR 0xE2, CHR 0x80, CHR 0xA8]"
    | "\<not> byte c < 128" "rune_len (c # s) \<noteq> 0" "take 3 (c # s) = [CHR 0xE2, CHR 0x80, CHR 0xA9]"
    | "\<not> byte c < 128" "rune_len (c # s) \<noteq> 0" "take 3 (c # s) \<noteq> [CHR 0xE2, CHR 0x80, CHR 0xA8]"
      "take 3 (c # s) \<noteq> [CHR 0xE2, CHR 0x80, CHR 0xA9]" by blast
  then show thesis
  proof cases
    case 3
    from sep [OF 3(3)] obtain t where "c = CHR 0xE2" "s = CHR 0x80 # CHR 0xA8 # t" "rune_len (c # s) = 3" by blast
    with 3 show thesis by (intro line_sep) simp_all
  next
    case 4
    from sep [OF 4(3)] obtain t where "c = CHR 0xE2" "s = CHR 0x80 # CHR 0xA9 # t" "rune_len (c # s) = 3" by blast
    with 4 show thesis by (intro par_sep) simp_all
  next
    case 5
    show thesis using 5 by (intro rune) (simp_all only: quote.simps if_False not_False_eq_True)
  qed (use low bad in simp_all)
qed

lemma quote_printing: "list_all printing (quote s)"
proof (induction s rule: quote.induct)
  case (2 c s)
  show ?case
  proof (cases c s rule: quote_cases)
    case low
    with "2.IH"(1) escape_printing [of c] show ?thesis by simp
  next
    case rune
    have "list_all printing (take (rune_len (c # s)) (c # s))" using rune_bytes [of "c # s"] rune(2) by (intro high_printing) blast
    with "2.IH"(5) rune show ?thesis unfolding rune(3) by simp
  qed (use "2.IH"(2-4) in simp_all)
qed simp

lemma utf8_low: "byte c < 128 \<Longrightarrow> utf8 (byte c) = [c]"
  by (simp add: utf8_def)

lemma hex4_escape: "byte c < 256 \<Longrightarrow> hex4 [CHR ''0'', CHR ''0'', hex_char (byte c div 16), hex_char (byte c mod 16)] = Some (byte c)"
proof -
  have z: "hex_val (CHR ''0'') = Some 0" by (simp add: hex_val_def between_def)
  have "byte c div 16 < 16" "byte c mod 16 < 16"
    using byte_less [of c] by (simp_all add: less_mult_imp_div_less)
  then show ?thesis by (simp add: z)
qed

lemma unquote_u:
  "length h = 4 \<Longrightarrow> hex4 h = Some n \<Longrightarrow>
    unquote (backslash # CHR ''u'' # h @ s) = map_option (\<lambda>(x, rest). (utf8 n @ x, rest)) (unquote s)"
  by simp

lemma unquote_plain:
  "plain_escape d = Some e \<Longrightarrow> d \<noteq> CHR ''u'' \<Longrightarrow>
    unquote (backslash # d # s) = map_option (\<lambda>(x, rest). (e # x, rest)) (unquote s)"
  by simp

lemma escape_cases:
  "(\<exists>e. escape c = [backslash, e] \<and> plain_escape e = Some c \<and> e \<noteq> CHR ''u'')
    \<or> escape c = backslash # CHR ''u'' # [CHR ''0'', CHR ''0'', hex_char (byte c div 16), hex_char (byte c mod 16)]
    \<or> escape c = [c] \<and> c \<noteq> quote_mark \<and> c \<noteq> backslash"
proof (cases "c \<in> {quote_mark, backslash, CHR 0x08, CHR 0x0C, newline, CHR 0x0D, CHR 0x09}")
  case True
  then show ?thesis by (elim insertE) (simp_all add: escape_def plain_escape_def)
next
  case False
  then show ?thesis unfolding escape_def by simp
qed

lemma unquote_escape:
  assumes "byte c < 128"
  shows "unquote (escape c @ s) = map_option (\<lambda>(x, rest). (c # x, rest)) (unquote s)"
  using escape_cases [of c]
proof (elim disjE exE conjE)
  fix e assume "escape c = [backslash, e]" "plain_escape e = Some c" "e \<noteq> CHR ''u''"
  then show ?thesis using unquote_plain [of e c s] by (simp del: unquote.simps)
next
  assume "escape c = backslash # CHR ''u'' # [CHR ''0'', CHR ''0'', hex_char (byte c div 16), hex_char (byte c mod 16)]"
  then show ?thesis
    using unquote_u [OF _ hex4_escape [OF byte_less [of c]], of s] utf8_low [OF assms] by (simp del: unquote.simps hex4.simps)
next
  assume "escape c = [c]" "c \<noteq> quote_mark" "c \<noteq> backslash"
  then show ?thesis by simp
qed

lemma unquote_high:
  "(\<forall>c \<in> set u. 128 \<le> byte c) \<Longrightarrow> unquote (u @ s) = map_option (\<lambda>(x, rest). (u @ x, rest)) (unquote s)"
proof (induction u)
  case Nil
  show ?case by (simp add: case_prod_unfold option.map_ident)
next
  case (Cons c u)
  then have "c \<noteq> quote_mark" "c \<noteq> backslash" by auto
  with Cons show ?case by (simp add: option.map_comp comp_def case_prod_unfold)
qed

lemma hex4_runes: "hex4 ''fffd'' = Some 0xFFFD" "hex4 ''2028'' = Some 0x2028" "hex4 ''2029'' = Some 0x2029"
  by (simp_all add: hex_val_def between_def)

lemma char_of_byte: "byte c = n \<Longrightarrow> char_of n = c"
  by auto

lemma utf8_runes: "utf8 0xFFFD = [CHR 0xEF, CHR 0xBF, CHR 0xBD]" "utf8 0x2028 = [CHR 0xE2, CHR 0x80, CHR 0xA8]"
  "utf8 0x2029 = [CHR 0xE2, CHR 0x80, CHR 0xA9]"
  by (simp_all add: utf8_def char_of_byte [of "CHR 0xEF"] char_of_byte [of "CHR 0xBF"] char_of_byte [of "CHR 0xBD"]
    char_of_byte [of "CHR 0xE2"] char_of_byte [of "CHR 0x80"] char_of_byte [of "CHR 0xA8"] char_of_byte [of "CHR 0xA9"])

lemma unquote_quote: "unquote (quote t @ quote_mark # rest) = Some (valid_utf8 t, rest)"
proof (induction t rule: quote.induct)
  case (2 c s)
  note u = unquote_u [OF _ hex4_runes(1)] unquote_u [OF _ hex4_runes(2)] unquote_u [OF _ hex4_runes(3)]
  let ?n = "rune_len (c # s)"
  show ?case
  proof (cases c s rule: quote_cases)
    case low
    with "2.IH"(1) show ?thesis by (simp add: unquote_escape del: unquote.simps)
  next
    case bad
    with "2.IH"(2) u(1) utf8_runes(1) show ?thesis by (simp del: unquote.simps)
  next
    case (line_sep t)
    with "2.IH"(3) u(2) utf8_runes(2) show ?thesis by (simp del: unquote.simps)
  next
    case (par_sep t)
    with "2.IH"(4) u(3) utf8_runes(3) show ?thesis by (simp del: unquote.simps)
  next
    case rune
    have high: "\<forall>x \<in> set (take ?n (c # s)). 128 \<le> byte x" using rune_bytes [of "c # s"] rune(2) by blast
    have "unquote (quote (drop (?n - 1) s) @ quote_mark # rest) = Some (valid_utf8 (drop (?n - 1) s), rest)"
      using "2.IH"(5) rune by simp
    then have "unquote (take ?n (c # s) @ quote (drop (?n - 1) s) @ quote_mark # rest)
        = Some (take ?n (c # s) @ valid_utf8 (drop (?n - 1) s), rest)"
      unfolding unquote_high [OF high] by simp
    moreover have "valid_utf8 (c # s) = take ?n (c # s) @ valid_utf8 (drop (?n - 1) s)"
      using rune by (simp only: valid_utf8.simps if_False)
    ultimately show ?thesis unfolding rune(3) by (simp only: append_assoc)
  qed
qed simp

text \<open>ASCII is valid UTF-8.\<close>

lemma valid_ascii: "(\<forall>c \<in> set s. byte c < 128) \<Longrightarrow> valid_utf8 s = s"
  by (induction s) simp_all

end
