(* ===== verification/Audit_Bytes.thy ===== *)
theory Audit_Bytes
  imports Go_Json Audit_Log
begin

text \<open>
  The bytes of \<open>audit.log\<close> (\<open>internal/audit/audit.go\<close>): \<open>Log\<close> writes the JSON of the event and a newline in one
  \<open>Write\<close>. A reader of the file that splits it into lines first gets every event back, whatever the names in it.
\<close>

definition event_fields :: "event \<Rightarrow> (string \<times> string) list" where
  "event_fields ev = [(''timestamp'', ev_Timestamp ev), (''user'', ev_User ev), (''role'', ev_Role ev),
     (''action'', ev_Action ev), (''resource'', ev_Resource ev), (''result'', ev_Result ev)]"

definition audit_line :: "event \<Rightarrow> string" where
  "audit_line ev = render (JObj (map (\<lambda>(k, v). (k, JStr v)) (event_fields ev))) @ [newline]"

definition audit_bytes :: "event list \<Rightarrow> string" where
  "audit_bytes evs = concat (map audit_line evs)"

section \<open>A reader\<close>

fun text_lines :: "string \<Rightarrow> string list" where
  "text_lines [] = []"
| "text_lines (c # s) =
     (if c = newline then [] # text_lines s
      else (case text_lines s of [] \<Rightarrow> [[c]] | l # ls \<Rightarrow> (c # l) # ls))"

fun read_fields :: "char \<Rightarrow> string list \<Rightarrow> string \<Rightarrow> (string list \<times> string) option" where
  "read_fields start [] s = Some ([], s)"
| "read_fields start (k # ks) s =
     (let p = start # quoted k @ [CHR '':'', quote_mark]
      in if HasPrefix s p then
           (case unquote (drop (length p) s) of
              None \<Rightarrow> None
            | Some (x, rest) \<Rightarrow> map_option (\<lambda>(xs, rest). (x # xs, rest)) (read_fields (CHR '','') ks rest))
         else None)"

definition read_event :: "string \<Rightarrow> event option" where
  "read_event s =
     (case read_fields (CHR ''{'') [''timestamp'', ''user'', ''role'', ''action'', ''resource'', ''result''] s of
        Some ([t, u, ro, a, res, x], ''}'') \<Rightarrow>
          Some \<lparr>ev_Timestamp = t, ev_User = u, ev_Role = ro, ev_Action = a, ev_Resource = res, ev_Result = x\<rparr>
      | _ \<Rightarrow> None)"

definition read_log :: "string \<Rightarrow> event list option" where
  "read_log s = those (map read_event (text_lines s))"

text \<open>The event with the replacement character for the bytes that are not UTF-8.\<close>

definition event_text :: "event \<Rightarrow> event" where
  "event_text ev = \<lparr>ev_Timestamp = valid_utf8 (ev_Timestamp ev), ev_User = valid_utf8 (ev_User ev),
     ev_Role = valid_utf8 (ev_Role ev), ev_Action = valid_utf8 (ev_Action ev),
     ev_Resource = valid_utf8 (ev_Resource ev), ev_Result = valid_utf8 (ev_Result ev)\<rparr>"

section \<open>Facts\<close>

abbreviation field :: "string \<times> string \<Rightarrow> string" where
  "field kv \<equiv> quoted (fst kv) @ '':'' @ quoted (snd kv)"

lemma read_field:
  "read_fields start (k # ks) (start # field (k, v) @ rest)
    = map_option (\<lambda>(xs, rest). (valid_utf8 v # xs, rest)) (read_fields (CHR '','') ks rest)"
proof -
  let ?p = "start # quoted k @ [CHR '':'', quote_mark]"
  have "start # field (k, v) @ rest = ?p @ quote v @ quote_mark # rest" by (simp add: quoted_def)
  then show ?thesis
    by (simp only: read_fields.simps Let_def HasPrefix_append if_True append_eq_conv_conj drop_append)
      (simp add: unquote_quote)
qed

lemma read_fields_separated:
  "kvs \<noteq> [] \<Longrightarrow> read_fields start (map fst kvs) (start # separated '','' (map field kvs) @ rest)
    = Some (map (valid_utf8 \<circ> snd) kvs, rest)"
proof (induction "'',''" "map field kvs" arbitrary: kvs start rule: separated.induct)
  case (2 x)
  then obtain k v where "kvs = [(k, v)]" by auto
  then show ?case using read_field [of start k "[]" v rest] by simp
next
  case (3 x y xs)
  then obtain k v kvs' where kvs: "kvs = (k, v) # kvs'" "y # xs = map field kvs'" by auto
  then have "kvs' \<noteq> []" by auto
  with 3(1) [OF kvs(2)] kvs show ?case
    using read_field [of start k "map fst kvs'" v "CHR '','' # separated '','' (map field kvs') @ rest"]
    by (cases kvs') simp_all
qed simp

lemma render_fields:
  "render (JObj (map (\<lambda>(k, v). (k, JStr v)) kvs)) = CHR ''{'' # separated '','' (map field kvs) @ ''}''"
  by (simp add: comp_def case_prod_unfold)

lemma separated_printing:
  "list_all printing sep \<Longrightarrow> \<forall>x \<in> set xs. list_all printing x \<Longrightarrow> list_all printing (separated sep xs)"
  by (induction sep xs rule: separated.induct) simp_all

lemma punctuation [simp]: "printing (CHR ''{'')" "printing (CHR ''}'')" "printing (CHR '','')" "printing (CHR '':'')"
  by (simp_all add: printing_def)

lemma quoted_printing [simp]: "list_all printing (quoted s)"
  by (simp add: quoted_def quote_printing)

lemma text_lines_line: "list_all printing l \<Longrightarrow> text_lines (l @ newline # s) = l # text_lines s"
  by (induction l) auto

text \<open>The line of an event without its newline.\<close>

definition event_json :: "event \<Rightarrow> string" where
  "event_json ev = CHR ''{'' # separated '','' (map field (event_fields ev)) @ ''}''"

lemma audit_line_json: "audit_line ev = event_json ev @ [newline]"
  unfolding audit_line_def render_fields event_json_def ..

lemma event_json_printing: "list_all printing (event_json ev)"
proof -
  have "list_all printing (separated '','' (map field (event_fields ev)))"
    by (rule separated_printing) auto
  then show ?thesis by (simp add: event_json_def)
qed

lemma read_event_json [simp]: "read_event (event_json ev) = Some (event_text ev)"
  using read_fields_separated [of "event_fields ev" "CHR ''{''" "''}''"]
  by (simp add: event_json_def read_event_def event_fields_def event_text_def del: read_fields.simps separated.simps)

lemma text_lines_audit: "text_lines (audit_bytes evs) = map event_json evs"
proof (induction evs)
  case (Cons ev evs)
  then show ?case
    using text_lines_line [OF event_json_printing, of ev "audit_bytes evs"] by (simp add: audit_bytes_def audit_line_json)
qed (simp add: audit_bytes_def)

text \<open>C16: No name can forge or break a line of the audit log: split into lines, the bytes of the file are one line for
  each event, and reading each of them as JSON gives the events back in their order, with U+FFFD for what is not UTF-8.\<close>

theorem audit_log_readable:
  "length (text_lines (audit_bytes evs)) = length evs \<and> read_log (audit_bytes evs) = Some (map event_text evs)"
proof -
  have "those (map (read_event \<circ> event_json) evs) = Some (map event_text evs)" by (induction evs) simp_all
  then show ?thesis by (simp add: read_log_def text_lines_audit)
qed

end
