(* ===== verification/Spec2Isabelle.thy ===== *)
theory Spec2Isabelle
  imports Runs Root_Of_Trust Shutdown Login_Rate Confidentiality Audit_Bytes
begin

text \<open>
  A model of the authentication service of this repository (\<open>src/auth-service\<close>, Go) and the theorems that make it
  correct. Names in the theories are the names of the source; file names below are relative to \<open>src/auth-service\<close>.

  The program. An HTTP server (\<open>cmd/server/main.go\<close>) keeps users and sessions in a store. A client logs in with
  name and password (checked with bcrypt), gets a signed access token that is good for fifteen minutes and a session
  that is stored, and presents the token as a bearer token. \<open>AuthMiddleware\<close> turns an accepted token into claims;
  \<open>RequireRole\<close> and \<open>RequirePermission\<close> decide on the role in the claims and write each decision to an audit file.
  Beside the server a cleanup worker reads the users from time to time and logs the stale ones.

  Theories and code.

  \<^item> \<open>Prelude\<close>: \<open>int64\<close> wrap-around, results (\<open>Inl\<close> is a Go error), association lists in map order, the named
    collections of facts. \<open>Go_Strings\<close>, \<open>Go_Time\<close>, \<open>Go_RFC3339\<close>, \<open>Go_Duration\<close>, \<open>Go_Http\<close>, \<open>Go_Mux\<close>: what the source
    uses of Go's standard library (\<open>strings\<close>, \<open>strconv\<close>, \<open>time\<close> with its text forms and \<open>ParseDuration\<close>, requests,
    responses and JSON, the router).
  \<^item> \<open>Data_Model\<close>: \<open>internal/model\<close>. \<open>Rbac\<close>: \<open>internal/rbac\<close>, with the equivalence of \<open>Authorize\<close> and an ordered policy.
  \<^item> \<open>Store_Iface\<close>: the interface \<open>store.Store\<close> as a record of operations, and its contract as the locale \<open>store\<close>:
    finite maps of users and sessions, an invariant, when a call succeeds and which error it gives. \<open>Mem_Store\<close>:
    \<open>InMemoryStore\<close> of \<open>internal/store/store.go\<close>, an interpretation of \<open>store\<close>.
  \<^item> \<open>Sql_Engine\<close>, \<open>Sqlite_Store\<close>, \<open>Sqlite_Rows\<close>, \<open>Sqlite_Reads\<close>, \<open>Sqlite_Writes\<close>, \<open>Sqlite_Contract\<close>: \<open>SQLiteStore\<close> of
    \<open>internal/store/sqlite.go\<close>. Its SQL is syntax with a meaning on tables; the driver is a parameter that keeps the
    laws of the locale \<open>sql_engine\<close>; rows are encodings of users and sessions; and \<open>sql_engine\<close> is shown to be a
    sublocale of \<open>store\<close>, with times at a resolution of one second. A reference driver interprets \<open>sql_engine\<close>. The rowid
    of a new row is the database's choice, above all earlier ones of the table, with gaps or without.
  \<^item> \<open>Runtime\<close>: the packages outside the repository and the environment of a request (clock readings, environment
    variables, salt, faults of the audit file), and the world a handler works on: store, limiter, audit file, response,
    request log. \<open>Token\<close>: \<open>internal/token\<close> and \<open>cmd/token\<close>. \<open>Audit_Log\<close>: \<open>internal/audit\<close>. \<open>Middleware\<close>:
    \<open>internal/middleware\<close>. \<open>Handlers_Basic\<close>, \<open>Handlers_Auth\<close>, \<open>Handlers_Admin\<close>: \<open>internal/handler\<close>, one definition for
    each handler, with its branches in the order of the code. \<open>Server\<close>: the route tables of \<open>main.go\<close>, the dispatch on
    the method, the seeding of the administrator, and runs of requests.
  \<^item> \<open>Worker\<close>: \<open>internal/worker/cleanup.go\<close>, the goroutine as a step relation beside the server. \<open>Lifecycle\<close>: the rest of
    \<open>main\<close>: \<open>boot\<close>, and the steps of the process until \<open>srv.Shutdown\<close> is done. \<open>Shutdown\<close>: the deferred calls of \<open>main\<close>, which
    close the store and then the audit file while the worker may still run. \<open>Interleaving\<close>: handlers that overtake each other.
  \<^item> \<open>Go_Json\<close>, \<open>Audit_Bytes\<close>: the bytes \<open>encoding/json\<close> writes, with a reader of them, and with both the lines of the audit file.
  \<^item> \<open>Service_Spec\<close>: the abstract service: accounts (users and sessions), the actions on them, the authority each
    action needs, and what it is for a handler to refine it. \<open>Runs\<close>: runs of the abstract service, one request after the
    other, and the locale \<open>reliable_store\<close> of the stores over which every run of the server is one (\<open>InMemoryStore\<close>).
  \<^item> \<open>Store_Calls\<close>, \<open>Durable_Store\<close>, \<open>Sqlite_Durable\<close>, \<open>Histories\<close>, \<open>Traceback\<close>: requests served concurrently, see below.
    \<open>Overlapping_Service\<close>: the abstract service for them, in which authority comes from earlier accounts than those acted on.
  \<^item> \<open>Deployed\<close>: the process from \<open>boot\<close> to its exit over \<open>SQLiteStore\<close>. \<open>Root_Of_Trust\<close>: what can happen to a new
    database at all. \<open>Login_Rate\<close>: \<open>loginLimiter\<close>.
  \<^item> \<open>Confidentiality\<close>: the password hashes do not interfere with what clients see. The relation of worlds that differ in
    hashes is kept by every handler but two for each store of the locale \<open>blind_store\<close>; \<open>InMemoryStore\<close> interprets it.
    (\<open>SQLiteStore\<close> does not, for the laws of a driver leave the order of rows open, which might depend on a hash.)

  What the lemmas show. \<open>Auth_Facts\<close>, \<open>Password_Facts\<close>, \<open>Admin_Facts\<close>, \<open>Server_Facts\<close> hold for every store with the
  contract: the effect and the reply of each handler on each path, and that serving any request is one authorised
  action (\<open>store.server_step\<close>). \<open>Response_Facts\<close> and \<open>Route_Facts\<close>: status codes, logs and routing for any store at
  all. \<open>Samples\<close>: concrete values for witnesses. \<open>Auth_Properties\<close>, \<open>Admin_Properties\<close>, \<open>Sqlite_Properties\<close>,
  \<open>Process_Properties\<close> and this theory state the properties, over the in-memory store or, where it is named, over
  \<open>SQLiteStore\<close>; the theorem that the latter keeps the contract carries the facts about handlers over to it.

  Concurrency. Every handler makes at most one call that writes to the store, after at most two calls that read from it
  (\<open>Store_Calls.server_writes\<close>). So a request is a step of the store at the moment of its write, with lookups that may have
  been answered by earlier states (\<open>overtaken\<close>), and a history (\<open>interleaved\<close>) is a list of such steps in the order of their
  writes, for any interleaving of the handlers. The process of \<open>Worker\<close> and \<open>Lifecycle\<close> serves
  requests in just this way, and its states are those of a history (\<open>run_history\<close>). The contract \<open>durable_store\<close> is what a store keeps even when the driver
  fails at any call or runs out of IDs: its content stays sound, and grows or shrinks only by what the call asked for.
  \<open>sql_engine\<close> is a sublocale of it too. From it follow the properties of \<open>Concurrent_Properties\<close>: types, roles and IDs in
  all states, who can have opened or closed a session or changed a user, the audit line that a change by an administrator
  leaves, and the login that each change goes back to. A token is accepted whoever signed it with the secret:
  \<open>outside_token\<close> tells the requests whose token no login of the history handed out, such as a token of \<open>cmd/token\<close>
  or of an earlier process, and the properties name them as the other way to authority.
  What the interleaving breaks is a property as well: \<open>role_change_lost\<close>.

  Conventions and bounds. Integers are \<open>int\<close> with the wrap-around of \<open>int64\<close> written out where the code can reach it:
  the counters of the in-memory store (so an invariant carries the number \<open>l\<close> of IDs that are left; a new store has
  \<open>2 ^ 63 - 2\<close>), the row numbers of SQLite, \<open>SESSION_TTL\<close>, and durations. Strings are lists of bytes. A map that Go
  ranges over comes in an order that the environment chooses. The mutex of a store makes each of its methods one
  atomic step. Properties about times over SQLite assume years 0 to 9999, outside of which RFC 3339 texts do not
  sort. No definition uses fuel: all loops of the code are structural or have a measure, and the worker's endless loop
  is a step relation, with a bound on its steps and its return in fair executions.

  Parameters and their laws. \<open>libs\<close>: bcrypt (\<open>bcrypt_law\<close>: a hash accepts its password), JWT (\<open>jwt_laws\<close>: a token signed
  with a key is accepted with it until it expires), and the rate limiter (\<open>rate_law\<close>: a burst, and then no more than
  the rate; \<open>bucket\<close> keeps it). \<open>engine\<close>: \<open>database/sql\<close> with the SQLite driver (\<open>sql_engine\<close>: a statement does what it means or changes nothing; an \<open>INSERT\<close> takes a rowid above all
  earlier ones, which \<open>LastInsertId\<close> then gives; a violated \<open>UNIQUE\<close> constraint is named in the error; and an available file
  with rowids left, \<open>room\<close>, answers. Nothing is said of \<open>LastInsertId\<close> after other statements).
  \<open>Samples\<close> and \<open>Sql_Engine\<close> have instances of all of them.

  Not modelled. The Rust policy engine (\<open>src/policy-engine\<close> and the other Rust code): a separate program that the
  service does not call. Sockets, TLS and the parsing of HTTP and JSON bytes: requests arrive parsed, and a body is a JSON
  value or no JSON; \<open>OPTIONS *\<close>, which \<open>net/http\<close> answers before the handler. A \<open>Write\<close> to the audit file that fails half way. The texts of the process log other than the worker's lines, and durations in the request log. Foreign
  keys, which SQLite does not enforce unless asked to, and the indexes, which change no result. Data races on the users
  that the in-memory store shares with its callers; the deployed store copies rows.
\<close>

section \<open>Every request is one authorised action\<close>

abbreviation accounts_of :: "(mem, 'l) world \<Rightarrow> accounts" where
  "accounts_of w \<equiv> (mem_users w, mem_sessions w)"

lemma mem_step:
  assumes "mem_inv (Suc l) (h_store w)" "r_claims r = None" "w' = ServerHandler L mem_ops E r w"
  obtains r' a where "served_as L E r r'" "permitted L r' a (accounts_of w)"
    "accounts_of w' = perform a (accounts_of w)" "mem_inv l (h_store w')"
    "needs_admin a \<Longrightarrow> audited E r r' w w'"
  using mem.server_step [OF assms(1) TrueI good_env_always assms(2), of L] assms(3)
  unfolding mem.step_ok_def refines_def view_of_def by blast

text \<open>C1: The server refines the abstract service: whatever the request, serving it performs one action on the
  users and sessions that the request has the authority for, with claims only from a bearer token that
  \<open>ValidateToken\<close> accepted, keeps the store's invariant, and an administrator's action leaves exactly one
  audit line that names the administrator, unless the audit file cannot be written.\<close>

theorem server_refines_service:
  assumes "mem_inv (Suc l) (h_store w)" "r_claims r = None" "w' = ServerHandler L mem_ops E r w"
  shows "mem_inv l (h_store w') \<and> (\<exists>r' a. served_as L E r r' \<and> permitted L r' a (accounts_of w)
    \<and> accounts_of w' = perform a (accounts_of w) \<and> (needs_admin a \<longrightarrow> audited E r r' w w'))"
  using mem_step [OF assms] by metis

theorem server_refines_service_witness:
  "mem_inv 5 (h_store (ServerHandler sample_libs mem_ops sample_env health_request sample_world))"
  using server_refines_service [OF _ health_claims refl, of 5 sample_world sample_libs sample_env] sample_inv by simp

text \<open>C14: Without an accepted bearer token a request changes no user, and sessions only by opening one for a stored
  user whose name and password the request gives.\<close>

theorem unauthenticated_requests:
  assumes "mem_inv (Suc l) (h_store w)" "r_claims r = None" "w' = ServerHandler L mem_ops E r w"
    and "\<nexists>c. authenticated L E r c"
  shows "mem_users w' = mem_users w \<and>
    (mem_sessions w' = mem_sessions w \<or>
     (\<exists>u pw x. credentials r (U_Username u) pw \<and> bcrypt_CompareHashAndPassword L (U_PasswordHash u) pw
        \<and> mem_users w (U_ID u) = Some u \<and> S_UserID x = U_ID u \<and> mem_sessions w (S_ID x) = None
        \<and> mem_sessions w' = (mem_sessions w)(S_ID x \<mapsto> x)))"
proof (rule mem_step [OF assms(1-3)])
  fix r' a assume s: "served_as L E r r'" and p: "permitted L r' a (accounts_of w)"
    and w': "accounts_of w' = perform a (accounts_of w)"
  from s assms(4) have "request_claims r' = None" by (auto simp: served_as_def)
  then have no: "\<not> is_admin r'" "\<not> caller us r' u" for us u by (simp_all add: is_admin_def caller_def)
  from s obtain c q where r': "r' = r\<lparr>r_claims := c, r_path_values := q\<rparr>" by (auto simp: served_as_def)
  then have cred: "credentials r' n pw = credentials r n pw" for n pw
    by (simp add: credentials_def Header_Get_def)
  from p w' no show ?thesis
  proof (cases a)
    case (OpenSession x)
    with p obtain u pw where u: "mem_users w (S_UserID x) = Some u" "credentials r (U_Username u) pw"
      "bcrypt_CompareHashAndPassword L (U_PasswordHash u) pw" "mem_sessions w (S_ID x) = None"
      by (auto simp: cred)
    moreover have "U_ID u = S_UserID x" using mem.users_id [OF assms(1) u(1)] by simp
    ultimately show ?thesis using w' OpenSession by (intro conjI disjI2 exI [of _ u] exI [of _ pw] exI [of _ x]) auto
  qed auto
qed

theorem unauthenticated_requests_witness:
  "mem_users (ServerHandler sample_libs mem_ops sample_env health_request sample_world) = mem_users sample_world"
proof -
  have "\<not> authenticated sample_libs sample_env health_request c" for c
    by (simp add: authenticated_def health_request_def json_request_def Header_Get_def first_value_def)
  then show ?thesis
    using unauthenticated_requests [OF _ health_claims refl, of 5 sample_world sample_libs sample_env] sample_inv by simp
qed

text \<open>Users change only on behalf of an administrator, or of the user itself, whose name is in an accepted
  token, who gives the current password and changes nothing but the hash and the update time.\<close>

theorem user_changes_authorised:
  assumes "mem_inv (Suc l) (h_store w)" "r_claims r = None" "w' = ServerHandler L mem_ops E r w"
    and "mem_users w' \<noteq> mem_users w"
  shows "\<exists>c. authenticated L E r c \<and>
    (C_Role c = ''admin'' \<or>
     (\<exists>u current new h t. mem_users w (U_ID u) = Some u \<and> U_Username u = C_Username c
        \<and> password_request r current new \<and> bcrypt_CompareHashAndPassword L (U_PasswordHash u) current
        \<and> mem_users w' = (mem_users w)(U_ID u \<mapsto> u\<lparr>U_PasswordHash := h, U_UpdatedAt := t\<rparr>)))"
proof (rule mem_step [OF assms(1-3)])
  fix r' a assume s: "served_as L E r r'" and p: "permitted L r' a (accounts_of w)"
    and w': "accounts_of w' = perform a (accounts_of w)"
  from s obtain c q where r': "r' = r\<lparr>r_claims := c, r_path_values := q\<rparr>" by (auto simp: served_as_def)
  then have pass: "password_request r' n pw = password_request r n pw" for n pw
    by (simp add: password_request_def)
  have auth: "authenticated L E r c" if "request_claims r' = Some c" for c
    using s that by (auto simp: served_as_def)
  show ?thesis
  proof (cases a)
    case (ChangePassword i h t)
    with p obtain u current new where u: "caller (mem_users w) r' u" "i = U_ID u" "password_request r current new"
        "bcrypt_CompareHashAndPassword L (U_PasswordHash u) current"
      by (auto simp: pass)
    then obtain c where c: "request_claims r' = Some c" "mem_users w (U_ID u) = Some u" "U_Username u = C_Username c"
      by (auto simp: caller_def)
    have "mem_users w' = (mem_users w)(U_ID u \<mapsto> u\<lparr>U_PasswordHash := h, U_UpdatedAt := t\<rparr>)"
      using w' ChangePassword u c by simp
    with u c auth [OF c(1)] show ?thesis by blast
  qed (use p w' assms(4) auth in \<open>auto simp: is_admin_def\<close>)
qed

theorem user_changes_authorised_witness:
  "\<exists>c. authenticated sample_libs sample_env remove_request c \<and> (C_Role c = ''admin'' \<or>
     (\<exists>u current new h t. mem_users sample_world (U_ID u) = Some u \<and> U_Username u = C_Username c
        \<and> password_request remove_request current new
        \<and> bcrypt_CompareHashAndPassword sample_libs (U_PasswordHash u) current
        \<and> mem_users (ServerHandler sample_libs mem_ops sample_env remove_request sample_world)
          = (mem_users sample_world)(U_ID u \<mapsto> u\<lparr>U_PasswordHash := h, U_UpdatedAt := t\<rparr>)))"
proof (rule user_changes_authorised [OF _ _ refl, where l = 5])
  show "mem_users (ServerHandler sample_libs mem_ops sample_env remove_request sample_world) \<noteq> mem_users sample_world"
    unfolding remove_served by (auto dest: fun_cong [where x = 2])
qed (use sample_inv in \<open>simp_all add: remove_request_def\<close>)

section \<open>Runs\<close>

lemma incoming_claims [simp]: "r_claims (incoming r) = None"
  by (simp add: incoming_def)

lemma mem_inv_mono: "mem_inv l s \<Longrightarrow> k \<le> l \<Longrightarrow> mem_inv k s"
  by (auto simp: mem_inv_def)

text \<open>An invariant of the abstract service that every permitted action keeps holds after any run of the server.\<close>

lemma run_invariant:
  assumes "mem_inv (length qs + l) (h_store w)" "P (accounts_of w)"
    and "\<And>r a st. P st \<Longrightarrow> permitted L r a st \<Longrightarrow> P (perform a st)"
    and "w' = serve_all L mem_ops qs w"
  shows "mem_inv l (h_store w') \<and> P (accounts_of w')"
proof -
  note run = mem_reliable.serve_all_refines [OF assms(1), of L, folded assms(4), unfolded view_of_def]
  from run have "authorised_run L qs (accounts_of w) (accounts_of w')" by auto
  from authorised_invariant [where P = P, OF this assms(2)] assms(3) run show ?thesis by auto
qed

text \<open>A server that starts from a consistent store keeps it consistent over any sequence of requests: keys are IDs,
  IDs are positive and below the counters, and no two users share a name. A fresh server can serve
  \<open>2 ^ 63 - 2\<close> requests before the counters run out.\<close>

theorem run_keeps_store_consistent:
  assumes "mem_inv (length qs + l) (h_store w)"
  shows "mem_inv l (h_store (serve_all L mem_ops qs w))"
  using run_invariant [where P = "\<lambda>_. True", OF assms _ _ refl] by simp

theorem run_keeps_store_consistent_witness:
  "mem_inv 0 (h_store (serve_all sample_libs mem_ops (replicate 4 (sample_env, health_request))
     (new_world NewInMemoryStore 5)))"
  by (rule run_keeps_store_consistent) (simp add: mem_inv_New new_world_def)

definition roles_valid :: "accounts \<Rightarrow> bool" where
  "roles_valid st \<longleftrightarrow> (\<forall>u \<in> ran (fst st). valid_role (U_Role u))"

lemma roles_valid_step: "roles_valid st \<Longrightarrow> permitted L r a st \<Longrightarrow> roles_valid (perform a st)"
proof (cases st)
  case (Pair U X)
  assume "roles_valid st" "permitted L r a st"
  then show ?thesis
    by (cases a) (auto simp: Pair roles_valid_def ran_def split: if_splits)
qed

text \<open>Every stored user has one of the three roles, from the seeding of the administrator on and over any
  sequence of requests, so that \<open>Authorize\<close> never meets a role it does not know in a stored user.\<close>

theorem run_keeps_roles_valid:
  assumes "seed_admin mem_ops e NewInMemoryStore = Inr s" "length qs < 2 ^ 63 - 2"
  shows "\<forall>u \<in> ran (mem_users (serve_all L mem_ops qs (new_world s lim))). valid_role (U_Role u)"
proof -
  have s: "s = \<lparr>m_users = [(1, \<lparr>U_ID = 1, U_Username = ''admin'', U_PasswordHash = adminHash, U_Role = ''admin'',
      U_CreatedAt = se_now e, U_UpdatedAt = se_now e\<rparr>)], m_nextID = 2, m_sessions = [], m_nextSessionID = 1\<rparr>"
    using assms(1) by (auto simp: seed_admin_def mem_ops_def mem_CreateUser_def NewInMemoryStore_def Let_def wrap64_def)
  have "mem_inv (length qs + 0) s" using assms(2) by (simp add: s mem_inv_def keyed_def unique_on_def)
  moreover have "roles_valid (map_of (m_users s), map_of (m_sessions s))"
    by (simp add: s roles_valid_def valid_role_def)
  ultimately have "mem_inv 0 (h_store (serve_all L mem_ops qs (new_world s lim)))
      \<and> roles_valid (accounts_of (serve_all L mem_ops qs (new_world s lim)))"
    by (intro run_invariant [OF _ _ _ refl, where L = L]) (auto simp: new_world_def intro: roles_valid_step)
  then show ?thesis by (simp add: roles_valid_def)
qed

theorem run_keeps_roles_valid_witness:
  "\<exists>s. seed_admin mem_ops sample_senv NewInMemoryStore = Inr s
    \<and> (\<forall>u \<in> ran (mem_users (serve_all sample_libs mem_ops [(sample_env, health_request)] (new_world s 5))).
          valid_role (U_Role u))"
proof -
  obtain s where s: "seed_admin mem_ops sample_senv NewInMemoryStore = Inr s"
    by (simp add: seed_admin_def mem_ops_def mem_CreateUser_def NewInMemoryStore_def Let_def)
  with run_keeps_roles_valid [where L = sample_libs and lim = 5 and qs = "[(sample_env, health_request)]", OF s] show ?thesis by auto
qed

section \<open>Responses, routes and audit\<close>

text \<open>C38: Serving a request never panics, and writes one line to the request log, with the method, the path
  and the status that the client got.\<close>

theorem every_request_logged:
  assumes "\<not> h_panic w" "w' = ServerHandler L S E r w"
  shows "\<not> h_panic w' \<and> h_requests w' = h_requests w @ [(r_method r, r_path r, status (h_out w'))]"
  using server_logs [OF assms(1)] assms(2) by simp

theorem every_request_logged_witness:
  "\<exists>code. h_requests (ServerHandler sample_libs mem_ops sample_env health_request sample_world) = [(''GET'', ''/health'', code)]"
  using every_request_logged [of sample_world, OF _ refl, of sample_libs mem_ops sample_env health_request]
  by (simp add: sample_world_def new_world_def health_request_def json_request_def)

text \<open>C39: An authenticated GET, POST or DELETE of \<open>/projects\<close> is answered 200 exactly when \<open>Authorize\<close> grants
  the role of the token the action read, write or delete, and 403 otherwise; either way one audit line tells the
  decision.\<close>

theorem projects_authorised:
  fixes w :: "('s, 'l) world"
  assumes "r_escaped_path r = ''/projects''" "authenticated L E r c"
    and "map_of project_action (r_method r) = Some act" "w' = ServerHandler L S E r w"
  shows "status (h_out w') = (if Authorize (C_Role c) act then 200 else 403)
    \<and> h_audit w' = h_audit w @
      (if audit_fault E = None then
        [\<lparr>ev_Timestamp = Format (t_audit E), ev_User = C_Subject c, ev_Role = C_Role c, ev_Action = act,
          ev_Resource = ''project'', ev_Result = (if Authorize (C_Role c) act then ''allow'' else ''deny'')\<rparr>]
       else [])"
proof -
  let ?r = "r\<lparr>r_path_values := []\<rparr>\<lparr>r_claims := Some (Some c)\<rparr>\<lparr>r_path_values := []\<rparr>" and ?w = "w\<lparr>h_out := new_writer\<rparr>"
  have a: "authenticated L E (r\<lparr>r_path_values := []\<rparr>) c" using assms(2) by simp
  have served: "ServeMux (main_routes L S E) r ?w = projects_route E ?r ?w"
    using assms(1) by (simp add: projects_main_route AuthMiddleware_passes [OF a] projects_inner_route)
  have ok: "status (h_out (ProjectsHandler ?r v)) = 200 \<and> h_audit (ProjectsHandler ?r v) = h_audit v"
    if "fresh (h_out v)" for v :: "('s, 'l) world"
    using that assms(3) by (auto simp: ProjectsHandler_def Let_def project_action_def split: if_splits)
  have "projects_route E ?r ?w = RequirePermission E act ''project'' ProjectsHandler ?r ?w"
    using assms(3) by (auto simp: projects_route_def Let_def project_action_def split: if_splits)
  with RequirePermission_status [where h = ProjectsHandler and r = ?r and c = c and w = ?w and E = E and act = act
      and resource = "''project''", OF _ _ ok] served show ?thesis
    by (simp add: assms(4) ServerHandler_def RequestLogger_def Let_def request_claims_def)
qed

theorem projects_authorised_witness:
  "status (h_out (ServerHandler sample_libs mem_ops sample_env (viewer_request ''DELETE'' ''/projects'') sample_world)) = 403"
proof -
  have "\<not> Authorize ''viewer'' ''delete''" by code_simp
  then show ?thesis
    using projects_authorised [OF _ viewer_authenticated _ refl, of "''DELETE''" "''/projects''" "''delete''" mem_ops sample_world]
    by (simp add: project_action_def)
qed

text \<open>C40: A token that \<open>GenerateToken\<close> signed, as at login, is accepted for fifteen minutes: \<open>/me\<close> answers with its
  name and role.\<close>

theorem me_answers_token:
  assumes "jwt_laws L" "ascii role" "ascii name" "GenerateToken L E role name = Inr tok"
    and "jwtSecret (getenv E') = jwtSecret (getenv E)" "t_validate E' < trunc_sec (t_expires E + 15 * Minute)"
    and "r_escaped_path r = ''/me''" "Header_Get r ''Authorization'' = ''Bearer '' @ tok"
    and "w' = ServerHandler L S E' r w"
  shows "status (h_out w') = 200 \<and> w_body (h_out w')
    = [JsonLine (JObj [(''username'', JStr name), (''role'', JStr role)])]"
proof -
  let ?c = "\<lparr>C_Role = role, C_Username = name, C_Issuer = ''auth-service'', C_Subject = name,
      C_IssuedAt = Some (trunc_sec (t_issued E)), C_ExpiresAt = Some (trunc_sec (t_expires E + 15 * Minute))\<rparr>"
  have v: "ValidateToken L E' tok = Inr ?c" using token_valid [OF assms(1-5)] assms(6) by simp
  have "HasPrefix (''Bearer '' @ tok) ''Bearer ''" "TrimPrefix (''Bearer '' @ tok) ''Bearer '' = tok"
    by (rule HasPrefix_append, rule TrimPrefix_append)
  with v have "authenticated L E' r ?c" by (simp add: authenticated_def assms(8) del: append.simps)
  then have a: "authenticated L E' (r\<lparr>r_path_values := []\<rparr>) ?c" by simp
  show ?thesis
    by (simp add: assms(9) ServerHandler_def RequestLogger_def Let_def me_route [OF assms(7)] AuthMiddleware_passes [OF a]
      MeHandler_def request_claims_def)
qed

theorem me_answers_token_witness:
  "w_body (h_out (ServerHandler sample_libs mem_ops sample_env (viewer_request ''GET'' ''/me'') sample_world))
    = [JsonLine (JObj [(''username'', JStr ''alice''), (''role'', JStr ''viewer'')])]"
  using me_answers_token [OF sample_laws sample_ascii sample_token refl _ _ _ refl, of "viewer_request ''GET'' ''/me''" mem_ops sample_world]
  by (simp add: sample_env_def trunc_sec_def unix_sec_def duration_units)

text \<open>From its expiry on, the token is refused by every protected route, with 401 and without a change.\<close>

theorem expired_token_refused:
  assumes "jwt_laws L" "ascii role" "ascii name" "GenerateToken L E role name = Inr tok"
    and "jwtSecret (getenv E') = jwtSecret (getenv E)" "trunc_sec (t_expires E + 15 * Minute) \<le> t_validate E'"
    and "Header_Get r ''Authorization'' = ''Bearer '' @ tok"
  shows "AuthMiddleware L E' h r w = reply (jsonError ''Unauthorized'' 401) w"
proof -
  obtain m where "ValidateToken L E' tok = Inl m" using token_valid [OF assms(1-5)] assms(6) by auto
  moreover have "TrimPrefix (''Bearer '' @ tok) ''Bearer '' = tok" by (rule TrimPrefix_append)
  ultimately have "\<not> authenticated L E' r c" for c by (simp add: authenticated_def assms(7) del: append.simps)
  then show ?thesis by (cases rule: AuthMiddleware_cases [of L E' h r w]) auto
qed

theorem expired_token_refused_witness:
  "AuthMiddleware sample_libs (sample_env\<lparr>t_validate := 15 * Minute\<rparr>) MeHandler (viewer_request ''GET'' ''/me'') sample_world
    = reply (jsonError ''Unauthorized'' 401) sample_world"
  by (rule expired_token_refused [OF sample_laws sample_ascii sample_token])
    (simp_all add: sample_env_def trunc_sec_def unix_sec_def duration_units)

text \<open>No path matches two patterns of the server's route table: registered in any order, the routes send
  every path to the same handler, so the router's precedence rules do not matter.\<close>

theorem routing_order_irrelevant:
  assumes "set rs = set (main_routes L S E)"
  shows "route rs path = route (main_routes L S E) path"
proof (cases "route rs path")
  case None
  then have "route (main_routes L S E) path = None" using assms unfolding route_None by simp
  with None show ?thesis by simp
next
  case (Some x)
  obtain pat h pvs where x: "x = (pat, h, pvs)" by (cases x)
  from Some have "(pat, h) \<in> set (main_routes L S E)" "match_pattern pat path = Some pvs"
    using route_mem [of rs path pat h pvs] assms by (simp_all add: x)
  from route_unique [OF main_routes_disjoint this] Some show ?thesis by (simp add: x)
qed

theorem routing_order_irrelevant_witness:
  "route (rev (main_routes sample_libs mem_ops sample_env)) ''/health''
     = route (main_routes sample_libs mem_ops sample_env) ''/health''"
  by (rule routing_order_irrelevant) simp

end
